(* ===== verification/Prelude.thy ===== *)
theory Prelude
  imports Main "HOL-Library.Word" "HOL-Library.Char_ord"
begin

text \<open>
  Shared vocabulary of the development: the machine integer types of the C code, its
  character constants, 4 KiB page arithmetic on 64-bit physical addresses, the
  page-stepping loop \<^verbatim>\<open>for (pa = a; pa < b; pa += 4096)\<close> that five functions of the code
  share, little-endian words in byte buffers, and the generic lemmas on lists and words
  the components use.
\<close>

unbundle bit_operations_syntax

section \<open>Machine integers and characters\<close>

text \<open>
  \<open>uint8_t\<close>, \<open>uint16_t\<close>, \<open>uint32_t\<close>, \<open>uint64_t\<close>. The C type \<open>char\<close> is read as \<open>u8\<close> and
  \<open>CHAR16\<close> as \<open>u16\<close>; every comparison the code makes on characters has both bounds in the
  ASCII range, so the sign of \<open>char\<close> plays no role.
\<close>

type_synonym u8 = "8 word"
type_synonym u16 = "16 word"
type_synonym u32 = "32 word"
type_synonym u64 = "64 word"

text \<open>A character constant or a string literal of the code, at the width of its context.\<close>

abbreviation ch :: "char \<Rightarrow> 'a::len word" where
  "ch c \<equiv> of_char c"

abbreviation str :: "string \<Rightarrow> 'a::len word list" where
  "str s \<equiv> map of_char s"

named_theorems page_simps
named_theorems text_simps
named_theorems bytes_simps

section \<open>Words and naturals\<close>

lemma unat_lt64: "unat (x :: u64) < 18446744073709551616"
  using unsigned_less [of x] by simp

lemma unat_lt32: "unat (x :: u32) < 4294967296"
  using unsigned_less [of x] by simp

lemma unat_lt16: "unat (x :: u16) < 65536"
  using unsigned_less [of x] by simp

lemma unat_lt8: "unat (x :: u8) < 256"
  using unsigned_less [of x] by simp

lemma unat_add_nowrap:
  fixes a b :: "'a::len word"
  assumes "unat a + unat b < 2 ^ LENGTH('a)"
  shows "unat (a + b) = unat a + unat b"
  using assms by (simp add: unat_word_ariths)

lemma unat_and_mask:
  fixes x :: "'a::len word"
  shows "unat (x AND mask n) = unat x mod 2 ^ n"
  by (metis take_bit_eq_mask take_bit_eq_mod unsigned_take_bit_eq)

lemma and_not_eq_minus:
  fixes x m :: "'a::len word"
  shows "x AND NOT m = x - (x AND m)"
proof -
  have "x - (x AND m) = x AND NOT (x AND m)"
    by (rule disjunctive_diff) (simp add: bit_simps)
  also have "\<dots> = x AND NOT m"
    by (rule bit_eqI) (auto simp: bit_simps)
  finally show ?thesis by simp
qed

lemma unat_and_not_mask:
  fixes x :: "'a::len word"
  shows "unat (x AND NOT (mask n)) = unat x - unat x mod 2 ^ n"
proof -
  have "x AND mask n \<le> x" by (simp add: word_le_nat_alt unat_and_mask)
  then show ?thesis by (simp add: and_not_eq_minus unat_sub unat_and_mask)
qed

lemma dvd_less_step:
  fixes d x y :: nat
  assumes "d dvd x" "d dvd y" "x < y"
  shows "x + d \<le> y"
proof -
  from assms have "d dvd y - x" by (simp add: dvd_diff_nat)
  with assms(3) have "d \<le> y - x" by (simp add: dvd_imp_le)
  with assms(3) show ?thesis by simp
qed

section \<open>Pages\<close>

text \<open>
  \<open>PAGE_SIZE\<close> and \<open>PAGE_MASK\<close> of \<^verbatim>\<open>efi/badmem_parse.c\<close> and \<^verbatim>\<open>src/badmem_log.c\<close>; the literals
  \<^verbatim>\<open>~(UINT64)0xfff\<close> and \<^verbatim>\<open>~(MASK_PAGE_SIZE - 1)\<close> of the EFI programs are the same mask.
\<close>

definition PAGE_SIZE :: u64 where
  "PAGE_SIZE = 4096"

definition PAGE_MASK :: u64 where
  "PAGE_MASK = NOT (PAGE_SIZE - 1)"

definition page_aligned :: "u64 \<Rightarrow> bool" where
  "page_aligned x \<longleftrightarrow> 4096 dvd unat x"

lemma PAGE_MASK_mask: "PAGE_MASK = NOT (mask 12)"
  by (simp add: PAGE_MASK_def PAGE_SIZE_def mask_numeral)

lemma unat_page_mask [page_simps]: "unat (x AND PAGE_MASK) = unat x - unat x mod 4096"
  using unat_and_not_mask [of x 12] by (simp add: PAGE_MASK_mask)

lemma page_aligned_mask [simp, page_simps]: "page_aligned (x AND PAGE_MASK)"
  by (simp add: page_aligned_def unat_page_mask dvd_minus_mod)

lemma page_mask_aligned [page_simps]: "page_aligned x \<Longrightarrow> x AND PAGE_MASK = x"
  by (simp add: word_unat_eq_iff unat_page_mask page_aligned_def)

lemma page_mask_le: "x AND PAGE_MASK \<le> x"
  by (simp add: word_le_nat_alt unat_page_mask)

lemma page_mask_idem [simp]: "(x AND PAGE_MASK) AND PAGE_MASK = x AND PAGE_MASK"
  by (simp add: and.assoc)

lemma page_mask_bounds:
  "unat (x AND PAGE_MASK) \<le> unat x" "unat x < unat (x AND PAGE_MASK) + 4096"
  using mod_less_divisor [of 4096 "unat x"] mod_less_eq_dividend [of "unat x" 4096]
  by (simp_all add: unat_page_mask del: mod_less_divisor)

lemma page_aligned_0 [simp]: "page_aligned 0"
  by (simp add: page_aligned_def)

lemma page_mask_0_iff: "x AND PAGE_MASK = 0 \<longleftrightarrow> unat x < 4096"
  using page_mask_bounds [of x] mod_less [of "unat x" 4096]
  by (auto simp: word_unat_eq_iff unat_page_mask)

text \<open>Rounding up: \<^verbatim>\<open>(x + PAGE_SIZE - 1) & PAGE_MASK\<close>, exact where the sum does not wrap.\<close>

definition page_ceil :: "u64 \<Rightarrow> u64" where
  "page_ceil x = (x + PAGE_SIZE - 1) AND PAGE_MASK"

lemma page_aligned_ceil [simp, page_simps]: "page_aligned (page_ceil x)"
  by (simp add: page_ceil_def)

lemma unat_page_ceil:
  assumes "unat x + 4095 < 2 ^ 64"
  shows "unat (page_ceil x) = (unat x + 4095) - (unat x + 4095) mod 4096"
proof -
  have "unat (x + 4095) = unat x + 4095" using assms by (simp add: unat_word_ariths)
  then show ?thesis by (simp add: page_ceil_def PAGE_SIZE_def unat_page_mask add.commute)
qed

lemma page_ceil_bounds:
  assumes "unat x + 4095 < 2 ^ 64"
  shows "unat x \<le> unat (page_ceil x)" "unat (page_ceil x) < unat x + 4096"
  using mod_less_divisor [of 4096 "unat x + 4095"] unat_page_ceil [OF assms]
    mod_less_eq_dividend [of "unat x + 4095" 4096]
  by (simp_all del: mod_less_divisor)

section \<open>The page-stepping loop\<close>

text \<open>
  \<^verbatim>\<open>for (pa = a; pa < lim && go; pa += 4096) body\<close> at the width of the code: where \<open>lim\<close> is within
  a page of \<open>2^64\<close> and not page aligned, \<open>pa\<close> wraps and the loop does not return, which is
  \<open>None\<close>. On aligned bounds it returns and is a fold over the pages between them
  (\<open>page_loop_eq\<close>).
\<close>

partial_function (option) page_loop ::
  "('s \<Rightarrow> bool) \<Rightarrow> (u64 \<Rightarrow> 's \<Rightarrow> 's) \<Rightarrow> u64 \<Rightarrow> u64 \<Rightarrow> 's \<Rightarrow> 's option" where
  "page_loop go body pa lim s =
     (if pa < lim \<and> go s then page_loop go body (pa + 4096) lim (body pa s) else Some s)"

lemma page_loop_inv:
  fixes s :: 's
  assumes "page_loop go body a b s = Some r" "\<And>pa s. I s \<Longrightarrow> I (body pa s)" "I s"
  shows "I r"
proof -
  have "(\<forall>pa s. I s \<longrightarrow> I (body pa s)) \<longrightarrow> I s \<longrightarrow> I r"
    using assms(1)
  proof (rule page_loop.raw_induct [where P = "\<lambda>go body a b s r. (\<forall>pa s. I s \<longrightarrow> I (body pa s)) \<longrightarrow> I s \<longrightarrow> I r", rotated])
    fix f :: "('s \<Rightarrow> bool) \<Rightarrow> (u64 \<Rightarrow> 's \<Rightarrow> 's) \<Rightarrow> u64 \<Rightarrow> u64 \<Rightarrow> 's \<Rightarrow> 's option"
      and go :: "'s \<Rightarrow> bool" and body and pa lim :: u64 and s r :: 's
    assume IH: "\<And>go body pa lim s r. f go body pa lim s = Some r \<Longrightarrow>
        (\<forall>pa s. I s \<longrightarrow> I (body pa s)) \<longrightarrow> I s \<longrightarrow> I r"
      and "(if pa < lim \<and> go s then f go body (pa + 4096) lim (body pa s) else Some s) = Some r"
    then show "(\<forall>pa s. I s \<longrightarrow> I (body pa s)) \<longrightarrow> I s \<longrightarrow> I r"
      by (auto split: if_splits)
  qed
  then show ?thesis using assms(2,3) by blast
qed

definition pages_between :: "u64 \<Rightarrow> u64 \<Rightarrow> u64 list" where
  "pages_between a b = map (\<lambda>i. a + of_nat i * 4096) [0..<(unat b - unat a) div 4096]"

fun fold_while :: "('s \<Rightarrow> bool) \<Rightarrow> ('a \<Rightarrow> 's \<Rightarrow> 's) \<Rightarrow> 'a list \<Rightarrow> 's \<Rightarrow> 's" where
  "fold_while go body [] s = s"
| "fold_while go body (p # ps) s = (if go s then fold_while go body ps (body p s) else s)"

lemma next_page_nowrap:
  assumes "page_aligned a" "page_aligned b" "a < b"
  shows "unat (a + 4096) = unat a + 4096" "unat a + 4096 \<le> unat b"
proof -
  from assms have lt: "unat a < unat b" by (simp add: word_less_nat_alt)
  with assms show le2: "unat a + 4096 \<le> unat b"
    by (simp add: page_aligned_def dvd_less_step)
  have "unat b < 2 ^ 64" using unsigned_less [of b] by simp
  with le2 show "unat (a + 4096) = unat a + 4096" by (simp add: unat_word_ariths)
qed

lemma pages_between_Nil: "\<not> a < b \<Longrightarrow> pages_between a b = []"
  by (simp add: pages_between_def word_less_nat_alt)

lemma pages_between_Cons:
  assumes "page_aligned a" "page_aligned b" "a < b"
  shows "pages_between a b = a # pages_between (a + 4096) b"
proof -
  note nw = next_page_nowrap [OF assms]
  define m where "m = (unat b - unat (a + 4096)) div 4096"
  have "unat b - unat a = (unat b - unat (a + 4096)) + 4096" using nw by simp
  then have n: "(unat b - unat a) div 4096 = Suc m" by (simp add: m_def)
  have "[0..<Suc m] = 0 # map Suc [0..<m]" by (simp add: map_Suc_upt upt_conv_Cons del: upt_Suc)
  then show ?thesis
    by (simp add: pages_between_def n o_def algebra_simps del: upt_Suc flip: m_def)
qed

lemma page_aligned_next: "page_aligned a \<Longrightarrow> page_aligned b \<Longrightarrow> a < b \<Longrightarrow> page_aligned (a + 4096)"
  by (simp add: page_aligned_def next_page_nowrap)

lemma page_loop_eq:
  assumes "page_aligned a" "page_aligned b"
  shows "page_loop go body a b s = Some (fold_while go body (pages_between a b) s)"
  using assms
proof (induction "unat b - unat a" arbitrary: a s rule: less_induct)
  case less
  show ?case
  proof (cases "a < b \<and> go s")
    case True
    then have ab: "a < b" and g: "go s" by auto
    note nw = next_page_nowrap [OF less.prems ab]
    have "unat b - unat (a + 4096) < unat b - unat a" using nw by simp
    from less.hyps [OF this page_aligned_next [OF less.prems ab] less.prems(2)]
    show ?thesis using True
      by (subst page_loop.simps) (simp add: pages_between_Cons [OF less.prems ab])
  next
    case False
    then show ?thesis
      by (subst page_loop.simps)
         (cases "a < b"; auto simp: pages_between_Nil pages_between_Cons [OF less.prems])
  qed
qed

lemma fold_while_True: "fold_while (\<lambda>_. True) body ps s = fold body ps s"
  by (induction ps arbitrary: s) auto

lemma fold_while_collect:
  "length out \<le> cap \<Longrightarrow>
   fold_while (\<lambda>out. length out < cap) (\<lambda>p out. if P p then out @ [p] else out) ps out =
     out @ take (cap - length out) (filter P ps)"
  by (induction ps arbitrary: out) (auto simp: Suc_diff_Suc [symmetric])

lemma fold_while_collect_st:
  "length out \<le> cap \<Longrightarrow>
   fold_while (\<lambda>(out, s). length out < cap)
     (\<lambda>p (out, s). if P p then (out @ [p], s) else (out, s)) ps (out, s) =
     (out @ take (cap - length out) (filter P ps), s)"
  by (induction ps arbitrary: out) (auto simp: Suc_diff_Suc [symmetric])

lemma page_aligned_add: "page_aligned a \<Longrightarrow> page_aligned b \<Longrightarrow> page_aligned (a + b)"
  by (simp add: page_aligned_def unat_word_ariths dvd_mod)

lemma page_aligned_mult: "page_aligned b \<Longrightarrow> page_aligned (a * b)"
  by (simp add: page_aligned_def unat_word_ariths dvd_mod)

lemma set_pages_between:
  assumes "page_aligned a" "page_aligned b"
  shows "p \<in> set (pages_between a b) \<longleftrightarrow> page_aligned p \<and> a \<le> p \<and> p < b"
  using assms
proof (induction "unat b - unat a" arbitrary: a rule: less_induct)
  case less
  show ?case
  proof (cases "a < b")
    case ab: True
    note nw = next_page_nowrap [OF less.prems ab]
    have d: "unat b - unat (a + 4096) < unat b - unat a" using nw by simp
    have step: "a \<le> p \<longleftrightarrow> p = a \<or> a + 4096 \<le> p" if "page_aligned p"
    proof -
      have "unat a < unat p \<longrightarrow> unat a + 4096 \<le> unat p"
        using dvd_less_step [of 4096 "unat a" "unat p"] that less.prems(1)
        by (simp add: page_aligned_def)
      then have "unat a \<le> unat p \<longleftrightarrow> unat p = unat a \<or> unat a + 4096 \<le> unat p"
        by linarith
      then show ?thesis
        by (simp only: word_le_nat_alt word_unat_eq_iff nw)
    qed
    have "p \<in> set (pages_between a b) \<longleftrightarrow>
        p = a \<or> page_aligned p \<and> a + 4096 \<le> p \<and> p < b"
      unfolding pages_between_Cons [OF less.prems ab]
      by (simp add: less.hyps [OF d page_aligned_next [OF less.prems ab] less.prems(2)])
    with step less.prems ab show ?thesis by blast
  next
    case False
    then show ?thesis by (auto simp: pages_between_Nil)
  qed
qed

lemma length_pages_between: "length (pages_between a b) = (unat b - unat a) div 4096"
  by (simp add: pages_between_def)

lemma sorted_pages_between:
  assumes "page_aligned a" "page_aligned b"
  shows "sorted_wrt (<) (pages_between a b)"
  using assms
proof (induction "unat b - unat a" arbitrary: a rule: less_induct)
  case less
  show ?case
  proof (cases "a < b")
    case ab: True
    note nw = next_page_nowrap [OF less.prems ab]
    note al = page_aligned_next [OF less.prems ab]
    have d: "unat b - unat (a + 4096) < unat b - unat a" using nw by simp
    have "\<forall>p \<in> set (pages_between (a + 4096) b). a < p"
      using nw by (auto simp: set_pages_between [OF al less.prems(2)] word_le_nat_alt word_less_nat_alt)
    with less.hyps [OF d al less.prems(2)] show ?thesis
      by (simp add: pages_between_Cons [OF less.prems ab])
  next
    case False
    then show ?thesis by (simp add: pages_between_Nil)
  qed
qed

lemma distinct_pages_between:
  "page_aligned a \<Longrightarrow> page_aligned b \<Longrightarrow> distinct (pages_between a b)"
  using sorted_pages_between strict_sorted_iff sorted_wrt_mono_rel by blast

lemma find_SomeD: "List.find P xs = Some x \<Longrightarrow> x \<in> set xs \<and> P x"
  by (induction xs) (auto split: if_splits)

section \<open>Little-endian words in byte buffers\<close>

text \<open>
  The packed structures the programs exchange through NVRAM are arrays of little-endian
  words; \<open>of_le\<close> reads the word at the front of a buffer, \<open>to_le n\<close> writes its \<open>n\<close> low bytes.
\<close>

fun of_le :: "u8 list \<Rightarrow> 'a::len word" where
  "of_le [] = 0"
| "of_le (b # bs) = ucast b OR push_bit 8 (of_le bs)"

fun to_le :: "nat \<Rightarrow> 'a::len word \<Rightarrow> u8 list" where
  "to_le 0 w = []"
| "to_le (Suc n) w = ucast w # to_le n (drop_bit 8 w)"

lemma length_to_le [simp]: "length (to_le n w) = n"
  by (induction n arbitrary: w) auto

lemma of_le_to_le_take: "of_le (to_le n w) = take_bit (8 * n) w"
proof (induction n arbitrary: w)
  case 0
  then show ?case by simp
next
  case (Suc n)
  have "ucast (ucast w :: u8) OR push_bit 8 (take_bit (8 * n) (drop_bit 8 w)) = take_bit (8 * Suc n) w"
    by (rule bit_word_eqI) (auto simp: bit_simps)
  with Suc show ?case by simp
qed

lemma of_le_to_le32 [simp, bytes_simps]: "of_le (to_le 4 w) = (w :: 32 word)"
  by (simp add: of_le_to_le_take take_bit_word_eq_self)
lemma of_le_to_le64 [simp, bytes_simps]: "of_le (to_le 8 w) = (w :: 64 word)"
  by (simp add: of_le_to_le_take take_bit_word_eq_self)
lemma to_le_numeral [bytes_simps]: "to_le (numeral k) w = ucast w # to_le (pred_numeral k) (drop_bit 8 w)"
  by (simp add: numeral_eq_Suc)

text \<open>The records of an array of fixed-size records.\<close>

lemma drop_records:
  assumes "\<And>x. length (f x) = k" "i < length xs"
  shows "drop (i * k) (concat (map f xs) @ junk) =
    f (xs ! i) @ drop (Suc i * k) (concat (map f xs) @ junk)"
  using assms(2)
proof (induction xs arbitrary: i)
  case (Cons x xs)
  show ?case
  proof (cases i)
    case 0
    then show ?thesis by (simp add: assms(1))
  next
    case (Suc j)
    with Cons show ?thesis by (simp add: drop_append assms(1))
  qed
qed simp

lemma length_records: "(\<And>x. length (f x) = k) \<Longrightarrow> length (concat (map f xs)) = length xs * k"
  by (induction xs) simp_all

end
