(* ===== verification/Efi_Text.thy ===== *)
theory Efi_Text
  imports Prelude "HOL-Library.Sublist"
begin

text \<open>
  The string and number-formatting routines: \<^verbatim>\<open>efi/efi_util.c\<close> (UTF-16 strings, \<open>efi_fmt_hex\<close>,
  \<open>efi_fmt_dec\<close>), \<^verbatim>\<open>efi/string.h\<close> (\<open>strncmp\<close>, \<open>strcmp\<close>, \<open>strlen\<close>), and the string tests of
  \<^verbatim>\<open>efi/mask-shim/main.c\<close> and \<^verbatim>\<open>src/efi_menu.c\<close>. A pointer into a NUL-terminated buffer is the
  list of the characters from there on; a string ends at its first NUL, and the end of the
  list reads as a NUL (\<open>c0\<close>), so \<open>cstr\<close> is the text a C routine sees.
\<close>

section \<open>NUL-terminated strings\<close>

lemma uint_eq_iff [simp]: "uint x = uint y \<longleftrightarrow> x = (y :: 'a::len word)"
  by (simp add: word_uint_eq_iff)

lemma uint_0_iff [simp]: "uint x = 0 \<longleftrightarrow> x = (0 :: 'a::len word)"
  by (simp add: word_uint_eq_iff)

definition c0 :: "'a::len word list \<Rightarrow> 'a word" where
  "c0 s = (case s of [] \<Rightarrow> 0 | c # _ \<Rightarrow> c)"

lemma c0_simps [simp]: "c0 [] = 0" "c0 (c # s) = c"
  by (simp_all add: c0_def)

definition cstr :: "'a::len word list \<Rightarrow> 'a word list" where
  "cstr s = takeWhile (\<lambda>c. c \<noteq> 0) s"

lemma cstr_simps [simp]:
  "cstr [] = []" "cstr (c # s) = (if c = 0 then [] else c # cstr s)"
  by (simp_all add: cstr_def)

lemma cstr_append_NUL [simp]: "cstr (s @ 0 # t) = cstr s"
  by (induction s) auto

lemma cstr_idem: "0 \<notin> set s \<Longrightarrow> cstr s = s"
  by (induction s) auto

lemma NUL_notin_cstr [simp]: "0 \<notin> set (cstr s)"
  by (induction s) auto

lemma cstr_cstr [simp]: "cstr (cstr s) = cstr s"
  by (simp add: cstr_idem)

fun efi_strlen16 :: "u16 list \<Rightarrow> nat" where
  "efi_strlen16 [] = 0"
| "efi_strlen16 (c # s) = (if c = 0 then 0 else Suc (efi_strlen16 s))"

lemma efi_strlen16_cstr: "efi_strlen16 s = length (cstr s)"
  by (induction s) auto

text \<open>The characters written to the destination, the terminator included.\<close>

fun efi_ascii_to_utf16 :: "u8 list \<Rightarrow> nat \<Rightarrow> u16 list" where
  "efi_ascii_to_utf16 [] m = [0]"
| "efi_ascii_to_utf16 (c # s) m =
     (if c \<noteq> 0 \<and> 1 < m then ucast c # efi_ascii_to_utf16 s (m - 1) else [0])"

lemma length_efi_ascii_to_utf16: "0 < m \<Longrightarrow> length (efi_ascii_to_utf16 s m) \<le> m"
  by (induction s m rule: efi_ascii_to_utf16.induct) (auto simp: Suc_le_eq)

lemma ucast_u8_u16_0 [simp]: "(ucast (c :: u8) :: u16) = 0 \<longleftrightarrow> c = 0"
  using unat_lt8 [of c] by (simp add: word_unat_eq_iff unsigned_ucast_eq take_bit_nat_eq_self)

lemma cstr_efi_ascii_to_utf16:
  "0 < m \<Longrightarrow> cstr (efi_ascii_to_utf16 s m) = take (m - 1) (map ucast (cstr s))"
proof (induction s m rule: efi_ascii_to_utf16.induct)
  case (2 c s m)
  show ?case
  proof (cases "c \<noteq> 0 \<and> 1 < m")
    case True
    then obtain k where "m = Suc (Suc k)" by (metis One_nat_def less_iff_Suc_add add_Suc)
    with True 2 show ?thesis by simp
  qed (use 2 in auto)
qed simp

fun efi_strcpy16 :: "u16 list \<Rightarrow> u16 list" where
  "efi_strcpy16 [] = [0]"
| "efi_strcpy16 (c # s) = (if c = 0 then [0] else c # efi_strcpy16 s)"

lemma efi_strcpy16_cstr: "efi_strcpy16 s = cstr s @ [0]"
  by (induction s) auto

fun efi_strcat16 :: "u16 list \<Rightarrow> u16 list \<Rightarrow> u16 list" where
  "efi_strcat16 [] src = efi_strcpy16 src"
| "efi_strcat16 (c # dst) src =
     (if c = 0 then efi_strcpy16 src else c # efi_strcat16 dst src)"

lemma efi_strcat16_cstr: "efi_strcat16 dst src = cstr dst @ cstr src @ [0]"
  by (induction dst) (auto simp: efi_strcpy16_cstr)

fun efi_strcmp16 :: "u16 list \<Rightarrow> u16 list \<Rightarrow> int" where
  "efi_strcmp16 (x # a) (y # b) =
     (if x \<noteq> 0 \<and> x = y then efi_strcmp16 a b else int (unat x) - int (unat y))"
| "efi_strcmp16 a b = int (unat (c0 a)) - int (unat (c0 b))"

lemma efi_strcmp16_0: "efi_strcmp16 a b = 0 \<longleftrightarrow> cstr a = cstr b"
  apply (induction a b rule: efi_strcmp16.induct)
    apply auto[1]
  subgoal for b by (cases b) (auto simp: word_unat_eq_iff)
  subgoal for a by (cases a) (auto simp: word_unat_eq_iff)
  done

section \<open>Comparison routines\<close>

text \<open>\<open>strncmp\<close> and \<open>strcmp\<close> of \<^verbatim>\<open>efi/string.h\<close>.\<close>

fun strncmp :: "u8 list \<Rightarrow> u8 list \<Rightarrow> nat \<Rightarrow> int" where
  "strncmp a b 0 = 0"
| "strncmp a b (Suc n) =
     (if c0 a \<noteq> c0 b then int (unat (c0 a)) - int (unat (c0 b))
      else if c0 a = 0 then 0 else strncmp (tl a) (tl b) n)"

fun strcmp :: "u8 list \<Rightarrow> u8 list \<Rightarrow> int" where
  "strcmp (x # a) (y # b) =
     (if x \<noteq> 0 \<and> x = y then strcmp a b else int (unat x) - int (unat y))"
| "strcmp a b = int (unat (c0 a)) - int (unat (c0 b))"

fun strlen :: "u8 list \<Rightarrow> nat" where
  "strlen [] = 0"
| "strlen (c # s) = (if c = 0 then 0 else Suc (strlen s))"

lemma strlen_cstr: "strlen s = length (cstr s)"
  by (induction s) auto

text \<open>\<open>ascii_eq\<close> and \<open>desig_eq\<close> of \<^verbatim>\<open>efi/mask-shim/main.c\<close>.\<close>

fun ascii_eq :: "u8 list \<Rightarrow> u8 list \<Rightarrow> bool" where
  "ascii_eq (x # a) (y # b) =
     (if x \<noteq> 0 \<and> y \<noteq> 0 \<and> x = y then ascii_eq a b else x = y)"
| "ascii_eq a b = (c0 a = c0 b)"

fun desig_eq :: "u8 list \<Rightarrow> u8 list \<Rightarrow> bool" where
  "desig_eq (x # a) (y # b) =
     (if x \<noteq> 0 \<and> y \<noteq> 0 \<and> x = y then desig_eq a b else x = 0 \<and> y = 0)"
| "desig_eq a b = (c0 a = 0 \<and> c0 b = 0)"

text \<open>The exact match \<open>strncmp(product, needle, n + 1) == 0\<close> of \<^verbatim>\<open>src/board_topology.c\<close>.\<close>

definition strn_exact :: "u8 list \<Rightarrow> u8 list \<Rightarrow> bool" where
  "strn_exact product needle \<longleftrightarrow> strncmp product needle (strlen needle + 1) = 0"

text \<open>What a caller relies on: the test is equality of the two texts.\<close>

locale text_equality =
  fixes eq :: "u8 list \<Rightarrow> u8 list \<Rightarrow> bool"
  assumes eq_cstr: "eq a b \<longleftrightarrow> cstr a = cstr b"
begin

lemma eq_refl: "eq a a"
  by (simp add: eq_cstr)

lemma eq_sym: "eq a b \<Longrightarrow> eq b a"
  by (simp add: eq_cstr)

lemma eq_trans: "eq a b \<Longrightarrow> eq b c \<Longrightarrow> eq a c"
  by (simp add: eq_cstr)

lemma eq_terminated: "eq (a @ 0 # t) b \<longleftrightarrow> eq a b"
  by (simp add: eq_cstr)

lemma eq_unique: "eq a x \<Longrightarrow> eq a y \<Longrightarrow> 0 \<notin> set x \<Longrightarrow> 0 \<notin> set y \<Longrightarrow> x = y"
  by (simp add: eq_cstr cstr_idem)

end

lemma ascii_eq_cstr: "ascii_eq a b \<longleftrightarrow> cstr a = cstr b"
  apply (induction a b rule: ascii_eq.induct)
    apply auto[1]
  subgoal for b by (cases b) auto
  subgoal for a by (cases a) auto
  done

lemma desig_eq_cstr: "desig_eq a b \<longleftrightarrow> cstr a = cstr b"
  apply (induction a b rule: desig_eq.induct)
    apply auto[1]
  subgoal for b by (cases b) auto
  subgoal for a by (cases a) auto
  done

lemma strncmp_exact: "strncmp a b (Suc (strlen b)) = 0 \<longleftrightarrow> cstr a = cstr b"
proof (induction b arbitrary: a)
  case Nil
  then show ?case by (cases a) (auto simp: word_unat_eq_iff)
next
  case (Cons y b)
  show ?case
  proof (cases a)
    case Nil
    then show ?thesis by auto
  next
    case a: (Cons x a')
    have "strncmp (x # a') (y # b) (Suc (strlen (y # b))) =
        (if x \<noteq> y then int (unat x) - int (unat y)
         else if x = 0 then 0 else strncmp a' b (strlen (y # b)))"
      by (subst strncmp.simps(2)) simp
    then show ?thesis
      by (cases "x = y"; cases "y = 0") (simp_all add: a Cons.IH del: strncmp.simps)
  qed
qed

interpretation shim_ascii: text_equality ascii_eq
  by unfold_locales (rule ascii_eq_cstr)

interpretation shim_desig: text_equality desig_eq
  by unfold_locales (rule desig_eq_cstr)

interpretation product: text_equality strn_exact
  by unfold_locales (simp add: strn_exact_def strncmp_exact del: strncmp.simps)

section \<open>Substring search\<close>

text \<open>
  The inner loop shared by \<open>cmdline_has\<close> (\<^verbatim>\<open>src/efi_menu.c\<close>) and \<open>u16_contains\<close>
  (\<^verbatim>\<open>efi/mask-shim/main.c\<close>): advance while both texts agree, then ask whether the needle is
  used up. \<open>scan_for\<close> is their outer loop. A null pointer is \<open>None\<close>.
\<close>

fun match_at :: "'a::len word list \<Rightarrow> 'a word list \<Rightarrow> bool" where
  "match_at (x # a) (y # b) =
     (if x \<noteq> 0 \<and> y \<noteq> 0 \<and> x = y then match_at a b else y = 0)"
| "match_at a b = (c0 b = 0)"

fun scan_for :: "'a::len word list \<Rightarrow> 'a word list \<Rightarrow> bool" where
  "scan_for [] needle = False"
| "scan_for (c # hay) needle =
     (if c = 0 then False
      else if match_at (c # hay) needle then True
      else scan_for hay needle)"

definition cmdline_has :: "u8 list option \<Rightarrow> u8 list option \<Rightarrow> bool" where
  "cmdline_has hay needle =
     (case hay of None \<Rightarrow> False
      | Some h \<Rightarrow> (case needle of None \<Rightarrow> False | Some n \<Rightarrow> scan_for h n))"

definition u16_contains :: "u16 list option \<Rightarrow> u16 list option \<Rightarrow> bool" where
  "u16_contains hay needle =
     (case hay of None \<Rightarrow> False
      | Some h \<Rightarrow> (case needle of None \<Rightarrow> False | Some n \<Rightarrow> scan_for h n))"

lemma match_at_prefix: "match_at a b \<longleftrightarrow> prefix (cstr b) (cstr a)"
  apply (induction a b rule: match_at.induct)
    apply auto[1]
  subgoal for b by (cases b) auto
  subgoal for a by (cases a) auto
  done

lemma scan_for_sublist:
  "scan_for hay needle \<longleftrightarrow> cstr hay \<noteq> [] \<and> sublist (cstr needle) (cstr hay)"
proof (induction hay)
  case (Cons c hay)
  show ?case
  proof (cases "c = 0")
    case False
    have "sublist (cstr needle) (c # cstr hay) \<longleftrightarrow>
        prefix (cstr needle) (c # cstr hay) \<or> sublist (cstr needle) (cstr hay)"
      by (rule sublist_Cons_right)
    with False Cons.IH show ?thesis
      by (cases "cstr hay = []") (auto simp: match_at_prefix simp del: match_at.simps)
  qed simp
qed simp

locale substring_search =
  fixes has :: "'h \<Rightarrow> 'a::len word list \<Rightarrow> bool"
    and view :: "'h \<Rightarrow> 'a word list"
  assumes has_sublist: "n \<noteq> [] \<Longrightarrow> 0 \<notin> set n \<Longrightarrow> has h n \<longleftrightarrow> sublist n (view h)"
begin

lemma found_in_context:
  "n \<noteq> [] \<Longrightarrow> 0 \<notin> set n \<Longrightarrow> view h = pre @ n @ post \<Longrightarrow> has h n"
  by (auto simp: has_sublist sublist_def)

lemma not_found_short:
  "n \<noteq> [] \<Longrightarrow> 0 \<notin> set n \<Longrightarrow> length (view h) < length n \<Longrightarrow> \<not> has h n"
  by (auto simp: has_sublist dest: sublist_length_le)

lemma found_weaker:
  assumes "has h n" "sublist m n" "m \<noteq> []" "0 \<notin> set n"
  shows "has h m"
proof -
  have "n \<noteq> []" "0 \<notin> set m"
    using assms(2-4) set_mono_sublist by fastforce+
  then show ?thesis
    using assms has_sublist sublist_order.order_trans by blast
qed

end

interpretation cmdline: substring_search "\<lambda>h n. cmdline_has (Some h) (Some n)" cstr
  by unfold_locales (auto simp: cmdline_has_def scan_for_sublist cstr_idem)

interpretation u16_text: substring_search "\<lambda>h n. u16_contains (Some h) (Some n)" cstr
  by unfold_locales (auto simp: u16_contains_def scan_for_sublist cstr_idem)

section \<open>Number formatting\<close>

text \<open>
  \<open>efi_fmt_hex\<close> and \<open>efi_fmt_dec\<close>: the digits are produced from the least significant one,
  padded with zeros up to \<open>min_digits\<close>, and reversed in place. The result is the text
  without its terminator.
\<close>

definition hex_digit :: "u64 \<Rightarrow> u16" where
  "hex_digit v = str ''0123456789abcdef'' ! unat (v AND 0xf)"

function hex_rev :: "u64 \<Rightarrow> u16 list" where
  "hex_rev v = (if v = 0 then [] else hex_digit v # hex_rev (drop_bit 4 v))"
  by pat_completeness auto
termination
proof (relation "measure unat")
  fix v :: u64
  assume "v \<noteq> 0"
  then have "0 < unat v" by (simp add: word_unat_eq_iff)
  then show "(drop_bit 4 v, v) \<in> measure unat"
    by (simp add: drop_bit_eq_div unat_div)
qed simp

declare hex_rev.simps [simp del]

definition efi_fmt_hex :: "u64 \<Rightarrow> nat \<Rightarrow> u16 list" where
  "efi_fmt_hex val min_digits =
     (let tmp = (if val = 0 then [ch CHR ''0''] else hex_rev val);
          tmp = tmp @ replicate (min_digits - length tmp) (ch CHR ''0'')
      in rev tmp)"

function dec_rev :: "u64 \<Rightarrow> u16 list" where
  "dec_rev v =
     (if v = 0 then [] else (ch CHR ''0'' + ucast (v mod 10)) # dec_rev (v div 10))"
  by pat_completeness auto
termination
proof (relation "measure unat")
  fix v :: u64
  assume "v \<noteq> 0"
  then have "0 < unat v" by (simp add: word_unat_eq_iff)
  then show "(v div 10, v) \<in> measure unat"
    by (simp add: unat_div)
qed simp

declare dec_rev.simps [simp del]

definition efi_fmt_dec :: "u64 \<Rightarrow> u16 list" where
  "efi_fmt_dec val = (if val = 0 then [ch CHR ''0''] else rev (dec_rev val))"

lemma length_hex_rev: "unat v < 16 ^ n \<Longrightarrow> length (hex_rev v) \<le> n"
proof (induction n arbitrary: v)
  case 0
  then have "v = 0" by (simp add: word_unat_eq_iff)
  then show ?case by (simp add: hex_rev.simps)
next
  case (Suc n)
  have "unat (drop_bit 4 v) < 16 ^ n"
    using Suc.prems by (simp add: drop_bit_eq_div unat_div div_less_iff_less_mult mult.commute)
  from Suc.IH [OF this] show ?case by (subst hex_rev.simps) simp
qed

lemma length_dec_rev: "unat v < 10 ^ n \<Longrightarrow> length (dec_rev v) \<le> n"
proof (induction n arbitrary: v)
  case 0
  then have "v = 0" by (simp add: word_unat_eq_iff)
  then show ?case by (simp add: dec_rev.simps)
next
  case (Suc n)
  have "unat (v div 10) < 10 ^ n"
    using Suc.prems by (simp add: unat_div div_less_iff_less_mult mult.commute)
  from Suc.IH [OF this] show ?case by (subst dec_rev.simps) simp
qed

lemma length_efi_fmt_hex:
  "unat v < 16 ^ n \<Longrightarrow> 0 < n \<Longrightarrow> m \<le> n \<Longrightarrow> length (efi_fmt_hex v m) \<le> n"
  using length_hex_rev [of v n] by (simp add: efi_fmt_hex_def Let_def) linarith

lemma length_efi_fmt_hex64: "m \<le> 16 \<Longrightarrow> length (efi_fmt_hex v m) \<le> 16"
  using unat_lt64 [of v] by (intro length_efi_fmt_hex) simp_all

lemma length_efi_fmt_hex_min: "m \<le> length (efi_fmt_hex v m)"
  by (simp add: efi_fmt_hex_def Let_def)

lemma length_efi_fmt_dec: "length (efi_fmt_dec v) \<le> 20"
  using unat_lt64 [of v] length_dec_rev [of v 20] by (simp add: efi_fmt_dec_def)

section \<open>Hexadecimal text is read back\<close>

lemma push_low_digit: "push_bit 4 (drop_bit 4 v) OR (v AND 0xf) = (v :: u64)"
proof -
  have "v AND 0xf = take_bit 4 v" by (simp add: take_bit_eq_mask mask_eq_exp_minus_1)
  then show ?thesis
    by (simp only:) (rule bit_word_eqI; auto simp: bit_simps; metis add_diff_inverse_nat)
qed

text \<open>
  What a reader of hexadecimal text relies on: it knows the digits that \<open>efi_fmt_hex\<close> writes. Both
  parsers, \<open>parse_u64\<close> of \<^verbatim>\<open>efi/badmem_parse.c\<close> and \<open>parse_hex\<close> of \<^verbatim>\<open>efi/brr-entry/main.c\<close>, are such
  readers; the value they accumulate over a formatted number is the number.
\<close>

locale hex_reader =
  fixes digit :: "u16 \<Rightarrow> u64 option"
  assumes digit_written: "digit (hex_digit v) = Some (v AND 0xf)"
begin

lemma digit_zero: "digit (ch CHR ''0'') = Some 0"
  using digit_written [of 0] by (simp add: hex_digit_def)

lemma value_hex_rev: "foldl (\<lambda>v c. push_bit 4 v OR the (digit c)) 0 (rev (hex_rev w)) = w"
proof (induction w rule: hex_rev.induct)
  case (1 w)
  show ?case
  proof (cases "w = 0")
    case True
    then show ?thesis by (simp add: hex_rev.simps)
  next
    case False
    then have "hex_rev w = hex_digit w # hex_rev (drop_bit 4 w)" by (subst hex_rev.simps) simp
    with 1 [OF False] show ?thesis by (simp add: digit_written push_low_digit)
  qed
qed

lemma value_formatted: "foldl (\<lambda>v c. push_bit 4 v OR the (digit c)) 0 (efi_fmt_hex w n) = w"
proof -
  have zeros: "foldl (\<lambda>v c. push_bit 4 v OR the (digit c)) 0 (replicate k (ch CHR ''0'') @ p) =
      foldl (\<lambda>v c. push_bit 4 v OR the (digit c)) 0 p" for k p
    by (induction k) (simp_all add: digit_zero [simplified])
  show ?thesis
    using value_hex_rev [of w] zeros [of _ "[]"] by (cases "w = 0") (simp_all add: efi_fmt_hex_def Let_def zeros [simplified] digit_zero [simplified])
qed

lemma digits_hex_rev: "list_all (\<lambda>c. digit c \<noteq> None) (hex_rev w)"
proof (induction w rule: hex_rev.induct)
  case (1 w)
  then show ?case by (subst hex_rev.simps) (simp add: digit_written)
qed

lemma digits_formatted: "list_all (\<lambda>c. digit c \<noteq> None) (efi_fmt_hex w n)"
  using digits_hex_rev [of w]
  by (auto simp: efi_fmt_hex_def Let_def list_all_iff digit_zero [simplified] simp del: hex_rev.simps)

end

text \<open>A digit is one of sixteen: a reader is checked on each of them.\<close>

lemma hex_digit_cases:
  assumes "list_all (\<lambda>n. P (hex_digit (of_nat n)) (of_nat n)) [0..<16]"
  shows "P (hex_digit v) (v AND 0xf)"
proof -
  have "unat (v AND 0xf) < 16"
    using unat_and_mask [of v 4] mod_less_divisor [of 16 "unat v"] by (simp add: mask_numeral)
  then obtain n where v: "v AND 0xf = of_nat n" and n: "n \<in> set [0..<16]"
    using that [of "unat (v AND 0xf)"] by simp
  have "list_all (\<lambda>n. (of_nat n :: u64) AND 0xf = of_nat n) [0..<16]" by code_simp
  with n have "(of_nat n :: u64) AND 0xf = of_nat n" by (simp only: list_all_iff)
  then have "hex_digit v = hex_digit (of_nat n)" by (simp only: hex_digit_def v)
  then show ?thesis using assms n by (simp only: list_all_iff v)
qed

lemma efi_fmt_hex_ne [simp]: "efi_fmt_hex v n \<noteq> []"
  by (simp add: efi_fmt_hex_def Let_def) (subst hex_rev.simps; simp)

end
