(* ===== verification/Badmem_Parse.thy ===== *)
theory Badmem_Parse
  imports Efi_Text
begin

text \<open>
  \<^verbatim>\<open>efi/badmem_parse.c\<close>: the parser of \<^verbatim>\<open>badmem.txt\<close>. A pointer \<open>p\<close> with its \<open>end\<close> is the list
  of the bytes still to be read; a tokenizer that advances \<open>*pp\<close> returns the rest, one
  that fails leaves the caller's pointer alone and returns \<open>None\<close>. The output arrays are
  lists, their counts the lengths.

  The theory defines the parser as the code has it, and then shows that it is the
  line-by-line reading its documentation describes (\<open>badmem_parse_full_lines\<close>).
\<close>

abbreviation NL :: "'a::len word" where "NL \<equiv> 0x0A"
abbreviation CR :: "'a::len word" where "CR \<equiv> 0x0D"
abbreviation TAB :: "'a::len word" where "TAB \<equiv> 0x09"
abbreviation SP :: "'a::len word" where "SP \<equiv> 0x20"

definition BADMEM_MAX_RANGES :: nat where "BADMEM_MAX_RANGES = 4096"
definition BADMEM_MAX_CHIPS :: nat where "BADMEM_MAX_CHIPS = 32"
definition BADMEM_DESIG_MAX :: nat where "BADMEM_DESIG_MAX = 16"

record badmem_range =
  rg_start :: u64
  rg_len :: u64

record badmem_chip =
  bc_designator :: "u8 list"
  bc_channel :: u8
  bc_rank :: u8
  bc_byte_lane :: u8
  bc_resolved :: bool

record badmem_result =
  br_ranges :: "badmem_range list"
  br_chips :: "badmem_chip list"

section \<open>Tokenizers\<close>

definition ascii_lower :: "u8 \<Rightarrow> u8" where
  "ascii_lower c =
     (if ch CHR ''A'' \<le> c \<and> c \<le> ch CHR ''Z''
      then c + (ch CHR ''a'' - ch CHR ''A'') else c)"

fun skip_sp :: "u8 list \<Rightarrow> u8 list" where
  "skip_sp [] = []"
| "skip_sp (c # p) = (if c = SP \<or> c = TAB then skip_sp p else c # p)"

fun skip_line :: "u8 list \<Rightarrow> u8 list" where
  "skip_line [] = []"
| "skip_line (c # p) = (if c \<noteq> NL then skip_line p else p)"

definition hex_dig :: "u8 \<Rightarrow> u8 option" where
  "hex_dig c =
     (if ch CHR ''0'' \<le> c \<and> c \<le> ch CHR ''9'' then Some (c - ch CHR ''0'')
      else if ch CHR ''a'' \<le> c \<and> c \<le> ch CHR ''f'' then Some (c - ch CHR ''a'' + 10)
      else if ch CHR ''A'' \<le> c \<and> c \<le> ch CHR ''F'' then Some (c - ch CHR ''A'' + 10)
      else None)"

definition is_dec :: "u8 \<Rightarrow> bool" where
  "is_dec c \<longleftrightarrow> ch CHR ''0'' \<le> c \<and> c \<le> ch CHR ''9''"

text \<open>The two digit loops of \<open>parse_u64\<close>; the state is \<open>(val, ok)\<close> and the pointer.\<close>

fun hex_run :: "u64 \<Rightarrow> bool \<Rightarrow> u8 list \<Rightarrow> u64 \<times> bool \<times> u8 list" where
  "hex_run val ok [] = (val, ok, [])"
| "hex_run val ok (c # p) =
     (case hex_dig c of
        None \<Rightarrow> (val, ok, c # p)
      | Some d \<Rightarrow> hex_run (push_bit 4 val OR ucast d) True p)"

fun dec_run :: "u64 \<Rightarrow> bool \<Rightarrow> u8 list \<Rightarrow> u64 \<times> bool \<times> u8 list" where
  "dec_run val ok [] = (val, ok, [])"
| "dec_run val ok (c # p) =
     (if is_dec c then dec_run (val * 10 + ucast (c - ch CHR ''0'')) True p
      else (val, ok, c # p))"

definition hex_prefixed :: "u8 list \<Rightarrow> bool" where
  "hex_prefixed p \<longleftrightarrow>
     1 < length p \<and> p ! 0 = ch CHR ''0'' \<and> (p ! 1 = ch CHR ''x'' \<or> p ! 1 = ch CHR ''X'')"

definition parse_u64 :: "u8 list \<Rightarrow> (u64 \<times> u8 list) option" where
  "parse_u64 p =
     (if p = [] then None
      else
        let (val, ok, q) =
          (if hex_prefixed p then hex_run 0 False (drop 2 p)
           else if is_dec (hd p) then dec_run 0 False p
           else (0, False, p))
        in if ok then Some (val, q) else None)"

text \<open>\<open>match_chip_keyword\<close>: the five characters of the keyword, case-insensitively.\<close>

fun match_kw :: "u8 list \<Rightarrow> u8 list \<Rightarrow> u8 list option" where
  "match_kw [] p = Some p"
| "match_kw (k # kw) [] = None"
| "match_kw (k # kw) (c # p) = (if ascii_lower c \<noteq> k then None else match_kw kw p)"

definition match_chip_keyword :: "u8 list \<Rightarrow> u8 list option" where
  "match_chip_keyword p = match_kw (str ''chip:'') p"

definition is_desig :: "u8 \<Rightarrow> bool" where
  "is_desig c \<longleftrightarrow>
     (ch CHR ''A'' \<le> c \<and> c \<le> ch CHR ''Z'') \<or> (ch CHR ''a'' \<le> c \<and> c \<le> ch CHR ''z'') \<or>
     (ch CHR ''0'' \<le> c \<and> c \<le> ch CHR ''9'') \<or> c = ch CHR ''_'' \<or> c = ch CHR ''-''"

fun desig_run :: "nat \<Rightarrow> nat \<Rightarrow> u8 list \<Rightarrow> (u8 list \<times> u8 list) option" where
  "desig_run n dest_max [] = Some ([], [])"
| "desig_run n dest_max (c # p) =
     (if is_desig c
      then (if n + 1 \<ge> dest_max then None
            else map_option (\<lambda>(d, q). (c # d, q)) (desig_run (n + 1) dest_max p))
      else Some ([], c # p))"

definition parse_designator :: "u8 list \<Rightarrow> nat \<Rightarrow> (u8 list \<times> u8 list) option" where
  "parse_designator p dest_max =
     (case desig_run 0 dest_max p of
        None \<Rightarrow> None
      | Some (d, q) \<Rightarrow> if d = [] then None else Some (d, q))"

section \<open>The parser\<close>

text \<open>The page-aligned range of a line: address down, length up, at least one page.\<close>

definition align_range :: "u64 \<Rightarrow> u64 \<Rightarrow> badmem_range" where
  "align_range addr len =
     (let aligned_start = addr AND PAGE_MASK;
          offset = addr - aligned_start;
          aligned_len = (len + offset + PAGE_SIZE - 1) AND PAGE_MASK;
          aligned_len = (if aligned_len = 0 then PAGE_SIZE else aligned_len)
      in \<lparr>rg_start = aligned_start, rg_len = aligned_len\<rparr>)"

definition add_range :: "badmem_result \<Rightarrow> badmem_range \<Rightarrow> badmem_result" where
  "add_range out r = out\<lparr>br_ranges := br_ranges out @ [r]\<rparr>"

definition new_chip :: "u8 list \<Rightarrow> badmem_chip" where
  "new_chip d =
     \<lparr>bc_designator = d, bc_channel = 0, bc_rank = 0, bc_byte_lane = 0, bc_resolved = False\<rparr>"

definition add_chip :: "badmem_result \<Rightarrow> u8 list \<Rightarrow> badmem_result" where
  "add_chip out d = out\<lparr>br_chips := br_chips out @ [new_chip d]\<rparr>"

text \<open>A \<^verbatim>\<open>#\<close> line: a chip directive, or a comment.\<close>

definition parse_hash :: "nat \<Rightarrow> u8 list \<Rightarrow> badmem_result \<Rightarrow> u8 list \<times> badmem_result" where
  "parse_hash chip_max p out =
     (let p = skip_sp p in
      case match_chip_keyword p of
        None \<Rightarrow> (skip_line p, out)
      | Some after_kw \<Rightarrow>
          if length (br_chips out) < chip_max then
            (let p = skip_sp after_kw in
             case parse_designator p BADMEM_DESIG_MAX of
               None \<Rightarrow> (skip_line p, out)
             | Some (d, q) \<Rightarrow> (skip_line q, add_chip out d))
          else (skip_line p, out))"

text \<open>A region line \<^verbatim>\<open>ADDR,LEN\<close>.\<close>

definition parse_region :: "nat \<Rightarrow> u8 list \<Rightarrow> badmem_result \<Rightarrow> u8 list \<times> badmem_result" where
  "parse_region range_max p out =
     (if length (br_ranges out) \<ge> range_max then (skip_line p, out)
      else case parse_u64 p of
        None \<Rightarrow> (skip_line p, out)
      | Some (addr, p) \<Rightarrow>
         (let p = skip_sp p in
          if p = [] \<or> hd p \<noteq> ch CHR '','' then (skip_line p, out)
          else
            let p = skip_sp (tl p) in
            case parse_u64 p of
              None \<Rightarrow> (skip_line p, out)
            | Some (len, p) \<Rightarrow>
               (let p = skip_sp p in
                if p \<noteq> [] \<and> hd p \<noteq> CR \<and> hd p \<noteq> NL \<and> hd p \<noteq> ch CHR ''#''
                then (skip_line p, out)
                else (skip_line p, add_range out (align_range addr len)))))"

text \<open>One iteration of the loop \<^verbatim>\<open>while (p < end)\<close>; its \<open>break\<close> leaves the empty rest.\<close>

definition parse_step ::
  "nat \<Rightarrow> nat \<Rightarrow> u8 list \<Rightarrow> badmem_result \<Rightarrow> u8 list \<times> badmem_result" where
  "parse_step range_max chip_max p out =
     (let p = skip_sp p in
      if p = [] then ([], out)
      else if hd p = CR \<or> hd p = NL then (skip_line p, out)
      else if hd p = ch CHR ''#'' then parse_hash chip_max (tl p) out
      else parse_region range_max p out)"

text \<open>Every tokenizer moves forward, so does every iteration.\<close>

lemma length_skip_sp: "length (skip_sp p) \<le> length p"
  by (induction p) auto

lemma length_skip_line: "length (skip_line p) \<le> length p"
  by (induction p) auto

lemma length_hex_run: "hex_run v ok p = (v', ok', q) \<Longrightarrow> length q \<le> length p"
  by (induction v ok p rule: hex_run.induct) (fastforce split: option.splits)+

lemma length_dec_run: "dec_run v ok p = (v', ok', q) \<Longrightarrow> length q \<le> length p"
  by (induction v ok p rule: dec_run.induct) (fastforce split: if_splits)+

lemma length_match_kw: "match_kw kw p = Some q \<Longrightarrow> length q \<le> length p"
  by (induction kw p rule: match_kw.induct) (fastforce split: if_splits)+

lemma length_desig_run: "desig_run n m p = Some (d, q) \<Longrightarrow> length q \<le> length p"
  by (induction n m p arbitrary: d rule: desig_run.induct) (fastforce split: if_splits)+

lemma length_parse_u64: "parse_u64 p = Some (v, q) \<Longrightarrow> length q \<le> length p"
  using length_hex_run [of 0 False "drop 2 p"] length_dec_run [of 0 False p]
  by (fastforce simp: parse_u64_def Let_def split: if_splits prod.splits)

lemma length_parse_designator: "parse_designator p m = Some (d, q) \<Longrightarrow> length q \<le> length p"
  using length_desig_run [of 0 m p]
  by (auto simp: parse_designator_def split: option.splits if_splits)

lemmas token_lengths =
  length_skip_sp length_skip_line length_match_kw length_parse_u64 length_parse_designator

lemma skip_line_less: "p \<noteq> [] \<Longrightarrow> length (skip_line p) < length p"
  by (cases p) (auto simp: le_imp_less_Suc length_skip_line)

lemma skip_line_less_trans:
  "length p \<le> length p0 \<Longrightarrow> p0 \<noteq> [] \<Longrightarrow> length (skip_line p) < length p0"
  using skip_line_less [of p] by (cases p) auto

lemma le_skip_spD: "n \<le> length (skip_sp p) \<Longrightarrow> n \<le> length p"
  using length_skip_sp [of p] by linarith

lemma le_skip_commaD: "n \<le> length (skip_sp (tl (skip_sp p))) \<Longrightarrow> n \<le> length p"
  using length_skip_sp [of p] length_skip_sp [of "tl (skip_sp p)"] by simp

lemma skip_sp_le: "length p \<le> n \<Longrightarrow> length (skip_sp p) \<le> n"
  using length_skip_sp [of p] by linarith

lemma skip_line_le: "length p \<le> n \<Longrightarrow> length (skip_line p) \<le> n"
  using length_skip_line [of p] by linarith

lemmas token_le =
  length_match_kw length_parse_u64 length_parse_designator le_skip_spD le_skip_commaD

lemma length_parse_hash: "length (fst (parse_hash m p out)) \<le> length p"
  unfolding parse_hash_def Let_def match_chip_keyword_def
  by (auto split: option.splits intro!: skip_line_le skip_sp_le dest!: token_le)

lemma length_parse_region:
  assumes "p \<noteq> []"
  shows "length (fst (parse_region m p out)) < length p"
proof -
  note less = skip_line_less_trans [OF _ assms]
  have le: "length (tl (skip_sp q)) \<le> n" if "length q \<le> n" for q :: "u8 list" and n
    using that length_skip_sp [of q] by simp
  show ?thesis
    using assms unfolding parse_region_def Let_def
    by (auto split: option.splits simp del: length_tl
        intro!: less le skip_sp_le dest!: token_le)
qed

lemma length_parse_step:
  assumes "p \<noteq> []"
  shows "length (fst (parse_step rm cm p out)) < length p"
proof (cases "skip_sp p")
  case Nil
  with assms show ?thesis by (simp add: parse_step_def)
next
  case (Cons c q)
  have le: "length (c # q) \<le> length p" using length_skip_sp [of p] Cons by simp
  with Cons show ?thesis
    using skip_line_less [of "c # q"] length_parse_region [of "c # q" rm out]
      length_parse_hash [of cm q out]
    by (auto simp: parse_step_def Let_def)
qed

function parse_loop :: "nat \<Rightarrow> nat \<Rightarrow> u8 list \<Rightarrow> badmem_result \<Rightarrow> badmem_result" where
  "parse_loop range_max chip_max p out =
     (if p = [] then out
      else let (p', out') = parse_step range_max chip_max p out
           in parse_loop range_max chip_max p' out')"
  by pat_completeness auto
termination
  by (relation "measure (\<lambda>(rm, cm, p, out). length p)")
     (auto simp: length_parse_step split_def)

declare parse_loop.simps [simp del]

definition badmem_parse_full :: "u8 list \<Rightarrow> nat \<Rightarrow> nat \<Rightarrow> badmem_result" where
  "badmem_parse_full buf range_max chip_max =
     parse_loop range_max chip_max buf \<lparr>br_ranges = [], br_chips = []\<rparr>"

text \<open>The older entry point: the region entries only.\<close>

definition badmem_parse :: "u8 list \<Rightarrow> nat \<Rightarrow> badmem_range list" where
  "badmem_parse buf out_max = br_ranges (badmem_parse_full buf out_max BADMEM_MAX_CHIPS)"

section \<open>Line by line\<close>

text \<open>
  The documented reading of the file: it is cut at newlines, and each line is a region, a
  chip directive or nothing, whatever the other lines are. \<open>apply_item\<close> appends within the
  capacities.
\<close>

datatype line_item = Ignored | Region u64 u64 | Chip "u8 list"

definition classify_region :: "u8 list \<Rightarrow> line_item" where
  "classify_region l =
     (case parse_u64 l of
        None \<Rightarrow> Ignored
      | Some (addr, l) \<Rightarrow>
          (case skip_sp l of
             [] \<Rightarrow> Ignored
           | c # l \<Rightarrow>
               if c \<noteq> ch CHR '','' then Ignored
               else (case parse_u64 (skip_sp l) of
                       None \<Rightarrow> Ignored
                     | Some (len, l) \<Rightarrow>
                         if skip_sp l = [] \<or> hd (skip_sp l) \<in> {CR, ch CHR ''#''}
                         then Region addr len else Ignored)))"

definition classify_hash :: "u8 list \<Rightarrow> line_item" where
  "classify_hash l =
     (case match_chip_keyword (skip_sp l) of
        None \<Rightarrow> Ignored
      | Some l \<Rightarrow> (case parse_designator (skip_sp l) BADMEM_DESIG_MAX of
                     None \<Rightarrow> Ignored
                   | Some (d, _) \<Rightarrow> Chip d))"

definition classify_line :: "u8 list \<Rightarrow> line_item" where
  "classify_line l =
     (case skip_sp l of
        [] \<Rightarrow> Ignored
      | c # l' \<Rightarrow>
          if c = CR then Ignored
          else if c = ch CHR ''#'' then classify_hash l'
          else classify_region (c # l'))"

definition apply_item :: "nat \<Rightarrow> nat \<Rightarrow> line_item \<Rightarrow> badmem_result \<Rightarrow> badmem_result" where
  "apply_item range_max chip_max it out =
     (case it of
        Ignored \<Rightarrow> out
      | Region addr len \<Rightarrow>
          if length (br_ranges out) < range_max then add_range out (align_range addr len) else out
      | Chip d \<Rightarrow> if length (br_chips out) < chip_max then add_chip out d else out)"

function file_lines :: "u8 list \<Rightarrow> u8 list list" where
  "file_lines p = (if p = [] then [] else takeWhile (\<lambda>c. c \<noteq> NL) p # file_lines (skip_line p))"
  by pat_completeness auto
termination
  by (relation "measure length") (auto simp: skip_line_less)

declare file_lines.simps [simp del]

text \<open>
  A text \<open>l @ r\<close> is cut at the end of a line when \<open>l\<close> holds no newline and \<open>r\<close> is empty or
  starts with one. On such a text every tokenizer works on \<open>l\<close> alone.
\<close>

definition eol :: "u8 list \<Rightarrow> bool" where
  "eol r \<longleftrightarrow> r = [] \<or> hd r = NL"

named_theorems line_local

lemma eol_simps [simp]: "eol []" "eol (c # r) \<longleftrightarrow> c = NL"
  by (auto simp: eol_def)

lemma skip_sp_local [line_local]: "eol r \<Longrightarrow> skip_sp (l @ r) = skip_sp l @ r"
  by (induction l) (cases r, auto)

lemma skip_line_local [line_local]: "NL \<notin> set l \<Longrightarrow> eol r \<Longrightarrow> skip_line (l @ r) = tl r"
  by (induction l) (cases r, auto)

lemma skip_line_whole [line_local]: "NL \<notin> set l \<Longrightarrow> skip_line l = []"
  by (induction l) auto

lemma NL_not_hex: "hex_dig NL = None"
  by (simp add: hex_dig_def)

lemma hex_run_local:
  "eol r \<Longrightarrow> hex_run v ok (l @ r) = (case hex_run v ok l of (v', ok', q) \<Rightarrow> (v', ok', q @ r))"
proof (induction v ok l rule: hex_run.induct)
  case (1 v ok)
  then show ?case by (cases r) (auto simp: NL_not_hex)
qed (auto split: option.split)

lemma NL_not_dec: "\<not> is_dec NL"
  by (simp add: is_dec_def)

lemma dec_run_local:
  "eol r \<Longrightarrow> dec_run v ok (l @ r) = (case dec_run v ok l of (v', ok', q) \<Rightarrow> (v', ok', q @ r))"
proof (induction v ok l rule: dec_run.induct)
  case (1 v ok)
  then show ?case by (cases r) (auto simp: NL_not_dec)
qed auto

lemma hex_prefixed_local: "eol r \<Longrightarrow> hex_prefixed (l @ r) = hex_prefixed l"
  by (cases l; cases "tl l"; cases r) (auto simp: hex_prefixed_def nth_append)

lemma parse_u64_local [line_local]:
  assumes "eol r"
  shows "parse_u64 (l @ r) = map_option (\<lambda>(v, q). (v, q @ r)) (parse_u64 l)"
proof (cases "l = []")
  case True
  with assms show ?thesis
    by (cases r) (auto simp: parse_u64_def hex_prefixed_def NL_not_dec Let_def)
next
  case False
  define run where "run p =
    (if hex_prefixed p then hex_run 0 False (drop 2 p)
     else if is_dec (hd p) then dec_run 0 False p else (0, False, p))" for p
  have drop: "drop (2 - length l) r = r" if "hex_prefixed l"
    using that by (simp add: hex_prefixed_def)
  have "run (l @ r) = (case run l of (v, ok, q) \<Rightarrow> (v, ok, q @ r))"
    using False assms
    by (simp add: run_def hex_prefixed_local hex_run_local dec_run_local drop)
  with False show ?thesis
    by (simp add: parse_u64_def Let_def flip: run_def split: prod.split)
qed

lemma match_kw_local [line_local]:
  "NL \<notin> set kw \<Longrightarrow> eol r \<Longrightarrow> match_kw kw (l @ r) = map_option (\<lambda>q. q @ r) (match_kw kw l)"
proof (induction kw l rule: match_kw.induct)
  case (2 k kw)
  then show ?case by (cases r) (auto simp: ascii_lower_def)
qed auto

lemma match_chip_keyword_local [line_local]:
  "eol r \<Longrightarrow> match_chip_keyword (l @ r) = map_option (\<lambda>q. q @ r) (match_chip_keyword l)"
  by (simp add: match_chip_keyword_def match_kw_local)

lemma desig_run_local:
  "eol r \<Longrightarrow> desig_run n m (l @ r) = map_option (\<lambda>(d, q). (d, q @ r)) (desig_run n m l)"
proof (induction n m l rule: desig_run.induct)
  case (1 n m)
  then show ?case by (cases r) (auto simp: is_desig_def)
next
  case (2 n m c p)
  then show ?case by (auto simp: option.map_comp o_def split_def)
qed

lemma parse_designator_local [line_local]:
  "eol r \<Longrightarrow> parse_designator (l @ r) m = map_option (\<lambda>(d, q). (d, q @ r)) (parse_designator l m)"
  by (auto simp: parse_designator_def desig_run_local split: option.split)

text \<open>What the tokenizers leave of a line holds no newline either.\<close>

lemma set_skip_sp: "set (skip_sp l) \<subseteq> set l"
  by (induction l) auto

lemma set_hex_run: "hex_run v ok l = (v', ok', q) \<Longrightarrow> set q \<subseteq> set l"
  by (induction v ok l rule: hex_run.induct) (fastforce split: option.splits)+

lemma set_dec_run: "dec_run v ok l = (v', ok', q) \<Longrightarrow> set q \<subseteq> set l"
  by (induction v ok l rule: dec_run.induct) (fastforce split: if_splits)+

lemma set_parse_u64: "parse_u64 l = Some (v, q) \<Longrightarrow> set q \<subseteq> set l"
  using set_hex_run [of 0 False "drop 2 l"] set_dec_run [of 0 False l] set_drop_subset [of 2 l]
  by (fastforce simp: parse_u64_def Let_def split: if_splits prod.splits)

lemma set_match_kw: "match_kw kw l = Some q \<Longrightarrow> set q \<subseteq> set l"
  by (induction kw l rule: match_kw.induct) (auto split: if_splits)

lemma set_desig_run: "desig_run n m l = Some (d, q) \<Longrightarrow> set q \<subseteq> set l"
  by (induction n m l arbitrary: d rule: desig_run.induct) (fastforce split: if_splits)+

lemma set_parse_designator: "parse_designator l m = Some (d, q) \<Longrightarrow> set q \<subseteq> set l"
  using set_desig_run [of 0 m l] by (auto simp: parse_designator_def split: option.splits if_splits)

lemma NL_kept:
  "NL \<notin> set l \<Longrightarrow> NL \<notin> set (skip_sp l)"
  "NL \<notin> set l \<Longrightarrow> NL \<notin> set (tl l)"
  "NL \<notin> set l \<Longrightarrow> parse_u64 l = Some (v, q) \<Longrightarrow> NL \<notin> set q"
  "NL \<notin> set l \<Longrightarrow> match_chip_keyword l = Some q \<Longrightarrow> NL \<notin> set q"
  "NL \<notin> set l \<Longrightarrow> parse_designator l m = Some (d, q) \<Longrightarrow> NL \<notin> set q"
  using set_skip_sp [of l] set_parse_u64 [of l v q] set_match_kw [of "str ''chip:''" l q]
    set_parse_designator [of l m d q]
  by (cases l; auto simp: match_chip_keyword_def)+

declare NL_kept(1,2) [line_local]

text \<open>One iteration on a line reads the line, applies its item and stops after its newline.\<close>

lemma parse_hash_line:
  assumes "NL \<notin> set l" "eol r"
  shows "parse_hash cm (l @ r) out = (tl r, apply_item rm cm (classify_hash l) out)"
proof (cases "match_chip_keyword (skip_sp l)")
  case None
  with assms show ?thesis
    by (simp add: parse_hash_def classify_hash_def line_local apply_item_def)
next
  case (Some m)
  have m: "NL \<notin> set m" using assms Some by (metis NL_kept(1,4))
  show ?thesis
  proof (cases "parse_designator (skip_sp m) BADMEM_DESIG_MAX")
    case None
    with Some m assms show ?thesis
      by (simp add: parse_hash_def classify_hash_def line_local apply_item_def)
  next
    case (Some dq)
    obtain d q where dq: "dq = (d, q)" by fastforce
    have q: "NL \<notin> set q" using m Some dq by (metis NL_kept(1,5))
    show ?thesis
      using \<open>match_chip_keyword (skip_sp l) = Some m\<close> Some dq m q assms
      by (simp add: parse_hash_def classify_hash_def line_local apply_item_def)
  qed
qed

lemma parse_region_line:
  assumes "NL \<notin> set l" "eol r"
  shows "parse_region rm (l @ r) out = (tl r, apply_item rm cm (classify_region l) out)"
proof (cases "length (br_ranges out) \<ge> rm")
  case True
  with assms show ?thesis
    by (auto simp: parse_region_def line_local apply_item_def split: line_item.split)
      (auto simp: classify_region_def split: option.splits list.splits if_splits)
next
  case room: False
  show ?thesis
  proof (cases "parse_u64 l")
    case None
    with room assms show ?thesis
      by (simp add: parse_region_def classify_region_def line_local apply_item_def)
  next
    case (Some aq)
    obtain a q where aq: "aq = (a, q)" by fastforce
    have q: "NL \<notin> set (skip_sp q)" using assms Some aq by (metis NL_kept(1,3))
    note ctx = Some aq room assms parse_region_def classify_region_def
    show ?thesis
    proof (cases "skip_sp q")
      case Nil
      with ctx show ?thesis
        by (cases r) (auto simp: line_local apply_item_def)
    next
      case (Cons c l2)
      with q have l2: "NL \<notin> set l2" "NL \<notin> set (skip_sp l2)" by (auto simp: line_local)
      show ?thesis
      proof (cases "parse_u64 (skip_sp l2)")
        case None
        with Cons ctx q l2 show ?thesis
          by (auto simp: line_local apply_item_def Let_def)
      next
        case (Some lq)
        obtain len l3 where lq: "lq = (len, l3)" by fastforce
        have l3: "NL \<notin> set l3" "NL \<notin> set (skip_sp l3)"
          using l2 Some lq by (metis NL_kept(1,3))+
        then have hd: "skip_sp l3 \<noteq> [] \<Longrightarrow> hd (skip_sp l3) \<noteq> NL"
          by (cases "skip_sp l3") auto
        show ?thesis
          using Some lq Cons ctx q l2 l3 hd
          by (cases r; cases "skip_sp l3")
            (auto simp: line_local apply_item_def Let_def)
      qed
    qed
  qed
qed

lemma parse_step_line:
  assumes "NL \<notin> set l" "eol r"
  shows "parse_step rm cm (l @ r) out = (tl r, apply_item rm cm (classify_line l) out)"
proof (cases "skip_sp l")
  case Nil
  with assms show ?thesis
    by (cases r) (auto simp: parse_step_def classify_line_def apply_item_def line_local)
next
  case (Cons c l')
  have "NL \<notin> set (c # l')" using assms Cons by (metis NL_kept(1))
  with assms Cons show ?thesis
    using parse_region_line [of "c # l'" r rm out cm] parse_hash_line [of l' r cm out rm]
      skip_line_local [of "c # l'" r]
    by (auto simp: parse_step_def classify_line_def line_local Let_def apply_item_def)
qed

lemma split_line:
  obtains l r where "p = l @ r" "NL \<notin> set l" "eol r" "takeWhile (\<lambda>c. c \<noteq> NL) p = l" "skip_line p = tl r"
proof -
  define l where "l = takeWhile (\<lambda>c. c \<noteq> NL) p"
  define r where "r = dropWhile (\<lambda>c. c \<noteq> NL) p"
  have p: "p = l @ r" by (simp add: l_def r_def)
  moreover have l: "NL \<notin> set l" using set_takeWhileD by (force simp: l_def)
  moreover have r: "eol r" using hd_dropWhile [of "\<lambda>c. c \<noteq> NL" p] by (auto simp: r_def eol_def)
  moreover have "skip_line p = tl r" unfolding p using l r by (simp add: line_local)
  ultimately show ?thesis using that l_def by metis
qed

lemma parse_loop_lines:
  "parse_loop rm cm p out = fold (\<lambda>l. apply_item rm cm (classify_line l)) (file_lines p) out"
proof (induction "length p" arbitrary: p out rule: less_induct)
  case less
  show ?case
  proof (cases "p = []")
    case True
    then show ?thesis by (simp add: parse_loop.simps file_lines.simps)
  next
    case False
    obtain l r where p: "p = l @ r" and l: "NL \<notin> set l" "eol r"
      and tw: "takeWhile (\<lambda>c. c \<noteq> NL) p = l" and sk: "skip_line p = tl r"
      by (rule split_line)
    have "length (tl r) < length p" using skip_line_less [OF False] sk by simp
    from less [OF this] have IH: "parse_loop rm cm (tl r) out' =
      fold (\<lambda>l. apply_item rm cm (classify_line l)) (file_lines (tl r)) out'" for out' .
    have "parse_loop rm cm p out = parse_loop rm cm (tl r) (apply_item rm cm (classify_line l) out)"
      using False parse_step_line [OF l, of rm cm out]
      by (subst parse_loop.simps) (simp only: p if_False prod.case Let_def split_conv)
    also have "\<dots> = fold (\<lambda>l. apply_item rm cm (classify_line l)) (l # file_lines (tl r)) out"
      by (simp add: IH)
    also have "l # file_lines (tl r) = file_lines p"
      using False by (subst (2) file_lines.simps) (simp add: tw sk)
    finally show ?thesis .
  qed
qed

text \<open>C22: reading \<^verbatim>\<open>badmem.txt\<close> with the pointer-walking parser is reading it line by line: the
  result of \<open>badmem_parse_full\<close> is the fold over the file's lines, each of them classified on its own as a
  region, a chip directive or nothing, and appended while its table has room.\<close>

theorem badmem_parse_full_lines:
  "badmem_parse_full buf range_max chip_max =
     fold (\<lambda>l. apply_item range_max chip_max (classify_line l)) (file_lines buf)
       \<lparr>br_ranges = [], br_chips = []\<rparr>"
  by (simp add: badmem_parse_full_def parse_loop_lines)

section \<open>What the parser promises of its result\<close>

definition range_wf :: "badmem_range \<Rightarrow> bool" where
  "range_wf r \<longleftrightarrow> page_aligned (rg_start r) \<and> page_aligned (rg_len r) \<and> rg_len r \<noteq> 0"

definition chip_wf :: "badmem_chip \<Rightarrow> bool" where
  "chip_wf c \<longleftrightarrow> bc_designator c \<noteq> [] \<and> length (bc_designator c) < BADMEM_DESIG_MAX \<and>
     list_all is_desig (bc_designator c) \<and> \<not> bc_resolved c"

definition result_wf :: "nat \<Rightarrow> nat \<Rightarrow> badmem_result \<Rightarrow> bool" where
  "result_wf range_max chip_max out \<longleftrightarrow>
     length (br_ranges out) \<le> range_max \<and> list_all range_wf (br_ranges out) \<and>
     length (br_chips out) \<le> chip_max \<and> list_all chip_wf (br_chips out)"

lemma range_wf_align: "range_wf (align_range addr len)"
  by (simp add: range_wf_def align_range_def Let_def)
    (simp add: PAGE_SIZE_def page_aligned_def)

lemma desig_run_wf:
  "desig_run n m p = Some (d, q) \<Longrightarrow> n < m \<Longrightarrow> list_all is_desig d \<and> n + length d < m"
  by (induction n m p arbitrary: d rule: desig_run.induct) (fastforce split: if_splits)+

lemma parse_designator_wf:
  assumes "parse_designator p BADMEM_DESIG_MAX = Some (d, q)"
  shows "chip_wf (new_chip d)"
  using assms desig_run_wf [of 0 BADMEM_DESIG_MAX p d q]
  by (auto simp: parse_designator_def chip_wf_def new_chip_def BADMEM_DESIG_MAX_def
      split: option.splits if_splits)

lemma classify_line_chip: "classify_line l = Chip d \<Longrightarrow> chip_wf (new_chip d)"
  by (auto simp: classify_line_def classify_hash_def classify_region_def parse_designator_wf
      split: list.splits if_splits option.splits)

lemma result_wf_apply_item:
  assumes "result_wf rm cm out"
  shows "result_wf rm cm (apply_item rm cm (classify_line l) out)"
  using assms classify_line_chip [of l]
  by (cases "classify_line l")
    (auto simp: apply_item_def result_wf_def add_range_def add_chip_def range_wf_align)

lemma result_wf_fold:
  "result_wf rm cm out \<Longrightarrow>
   result_wf rm cm (fold (\<lambda>l. apply_item rm cm (classify_line l)) ls out)"
  by (induction ls arbitrary: out) (simp_all add: result_wf_apply_item)

text \<open>C23: whatever the bytes of the file, the parser fills no table beyond its capacity; every
  range it returns is page aligned and not empty, and every chip designator is a non-empty
  identifier that fits its 16-byte field with the terminator.\<close>

theorem badmem_parse_full_wf:
  "result_wf range_max chip_max (badmem_parse_full buf range_max chip_max)"
  using result_wf_fold [of range_max chip_max "\<lparr>br_ranges = [], br_chips = []\<rparr>" "file_lines buf"]
  by (simp add: badmem_parse_full_def parse_loop_lines result_wf_def)

text \<open>Away from the top of the address space, the aligned range of a region line covers every
  byte the line names and less than two pages more.\<close>

theorem align_range_covers:
  assumes "unat addr + unat len + 4095 < 2 ^ 64"
  shows "unat (rg_start (align_range addr len)) \<le> unat addr \<and>
    unat addr + unat len
      \<le> unat (rg_start (align_range addr len)) + unat (rg_len (align_range addr len)) \<and>
    unat (rg_len (align_range addr len)) < unat len + 2 * 4096"
proof -
  define s where "s = addr AND PAGE_MASK"
  note sb = page_mask_bounds [of addr, folded s_def]
  have off: "unat (addr - s) = unat addr - unat s"
    using page_mask_le [of addr, folded s_def] by (simp add: unat_sub)
  have sum: "unat (len + (addr - s)) + unat s = unat len + unat addr"
    using assms sb by (subst unat_add_nowrap) (simp_all add: off)
  have small: "unat (len + (addr - s)) + 4095 < 2 ^ 64"
    using assms sb sum by linarith
  note cb = page_ceil_bounds [OF small]
  have len: "rg_len (align_range addr len) =
      (if page_ceil (len + (addr - s)) = 0 then PAGE_SIZE else page_ceil (len + (addr - s)))"
    by (simp add: align_range_def s_def page_ceil_def Let_def)
  have start: "rg_start (align_range addr len) = s" by (simp add: align_range_def s_def Let_def)
  show ?thesis
  proof (cases "page_ceil (len + (addr - s)) = 0")
    case True
    then have "unat (len + (addr - s)) = 0" using cb by simp
    with True sb sum show ?thesis by (simp add: len start PAGE_SIZE_def)
  next
    case False
    with sb sum cb show ?thesis by (auto simp: len start)
  qed
qed

theorem align_range_covers_witness:
  "unat (0x12345 :: u64) + unat (0x2000 :: u64)
     \<le> unat (rg_start (align_range 0x12345 0x2000)) + unat (rg_len (align_range 0x12345 0x2000))"
  using align_range_covers [of "0x12345" "0x2000"] by simp

text \<open>The bound is needed: a length that rounds up past \<open>2^64\<close> becomes a single page.\<close>

lemma align_range_wraps: "rg_len (align_range 0 0xFFFFFFFFFFFFFFFF) = 4096"
  by (simp add: align_range_def PAGE_SIZE_def PAGE_MASK_def)

section \<open>Numbers are read back\<close>

lemma hex_run_append:
  "hex_run v ok (p @ q) = (case hex_run v ok p of
     (v', ok', []) \<Rightarrow> hex_run v' ok' q | (v', ok', c # r) \<Rightarrow> (v', ok', c # r @ q))"
  by (induction v ok p rule: hex_run.induct) (auto split: option.split)

lemma dec_run_append:
  "dec_run v ok (p @ q) = (case dec_run v ok p of
     (v', ok', []) \<Rightarrow> dec_run v' ok' q | (v', ok', c # r) \<Rightarrow> (v', ok', c # r @ q))"
  by (induction v ok p rule: dec_run.induct) auto

interpretation file_hex: hex_reader "\<lambda>c. map_option ucast (hex_dig (ucast c))"
proof unfold_locales
  fix v
  have "list_all (\<lambda>n. map_option ucast (hex_dig (ucast (hex_digit (of_nat n)))) = Some (of_nat n :: u64)) [0..<16]"
    by code_simp
  then show "map_option ucast (hex_dig (ucast (hex_digit v))) = Some (v AND 0xf)"
    by (rule hex_digit_cases)
qed

lemma dec_digit:
  defines "d \<equiv> (\<lambda>v :: u64. ucast (ch CHR ''0'' + ucast (v mod 10) :: u16) :: u8)"
  shows "is_dec (d v) \<and> ucast (d v - ch CHR ''0'') = v mod 10"
proof -
  have "unat (v mod 10) < 10" by (simp add: unat_mod)
  then obtain n where v: "v mod 10 = of_nat n" and n: "n \<in> set [0..<10]"
    using that [of "unat (v mod 10)"] by simp
  have "list_all (\<lambda>n. let c = ucast (ch CHR ''0'' + ucast (of_nat n :: u64) :: u16) in
      is_dec c \<and> ucast (c - ch CHR ''0'') = (of_nat n :: u64)) [0..<10]"
    by code_simp
  with n show ?thesis by (simp only: list_all_iff d_def v Let_def)
qed

lemma hex_digits_step: "push_bit 4 (drop_bit 4 v) OR ucast (ucast (v AND 0xf) :: u8) = (v :: u64)"
proof -
  have v: "v AND 0xf = take_bit 4 v" by (simp add: take_bit_eq_mask mask_eq_exp_minus_1)
  have "(ucast (ucast (v AND 0xf) :: u8) :: u64) = v AND 0xf"
    unfolding v by (rule bit_word_eqI) (auto simp: bit_simps)
  then show ?thesis by (simp only: push_low_digit)
qed

lemma hex_run_digits:
  "list_all (\<lambda>c. hex_dig (ucast c) \<noteq> None) p \<Longrightarrow> hex_run v ok (map ucast p) =
    (foldl (\<lambda>v c. push_bit 4 v OR the (map_option ucast (hex_dig (ucast c)))) v p, ok \<or> p \<noteq> [], [])"
  by (induction p arbitrary: v ok) auto

lemma dec_run_rev:
  "dec_run 0 ok (map ucast (rev (dec_rev w))) = (w, ok \<or> w \<noteq> 0, [])"
proof (induction w rule: dec_rev.induct)
  case (1 w)
  show ?case
  proof (cases "w = 0")
    case True
    then show ?thesis by (simp add: dec_rev.simps)
  next
    case False
    then have "dec_rev w = (ch CHR ''0'' + ucast (w mod 10)) # dec_rev (w div 10)"
      by (subst dec_rev.simps) simp
    with 1 [OF False] False dec_digit [of w] show ?thesis
      by (simp add: dec_run_append div_mult_mod_eq)
  qed
qed

text \<open>A number ends at the end of the text or at a character that continues no number.\<close>

definition num_end :: "u8 list \<Rightarrow> bool" where
  "num_end r \<longleftrightarrow> r = [] \<or> hex_dig (hd r) = None \<and> hd r \<noteq> ch CHR ''x'' \<and> hd r \<noteq> ch CHR ''X''"

lemma num_end_run:
  assumes "num_end r"
  shows "hex_run v ok r = (v, ok, r)" "dec_run v ok r = (v, ok, r)"
  using assms by (cases r; auto simp: num_end_def hex_dig_def is_dec_def split: if_splits)+

lemma rev_efi_fmt_hex:
  "hex_run 0 False (map ucast (efi_fmt_hex w n)) = (w, True, [])"
  using hex_run_digits [of "efi_fmt_hex w n" 0 False] file_hex.digits_formatted [of w n]
    file_hex.value_formatted [of w n]
  by simp

text \<open>A number written by the programs' own formatting routines is read back by the parser: the
  hexadecimal text of \<open>efi_fmt_hex\<close> behind \<^verbatim>\<open>0x\<close>, with any padding, and the decimal text of
  \<open>efi_fmt_dec\<close>, for every 64-bit value, up to the separator that follows.\<close>

theorem parse_u64_formatted:
  assumes "num_end r"
  shows "parse_u64 (str ''0x'' @ map ucast (efi_fmt_hex v n) @ r) = Some (v, r) \<and>
    parse_u64 (map ucast (efi_fmt_dec v) @ r) = Some (v, r)"
proof
  show "parse_u64 (str ''0x'' @ map ucast (efi_fmt_hex v n) @ r) = Some (v, r)"
    using rev_efi_fmt_hex [of v n]
    by (simp add: parse_u64_def hex_prefixed_def hex_run_append num_end_run [OF assms])
next
  have run: "dec_run 0 False (map ucast (efi_fmt_dec v)) = (v, True, [])"
    using dec_run_rev [of False v] by (simp add: efi_fmt_dec_def is_dec_def)
  have digits: "list_all is_dec (map ucast (dec_rev w))" for w
  proof (induction w rule: dec_rev.induct)
    case (1 w)
    then show ?case using dec_digit [of w] by (subst dec_rev.simps) simp
  qed
  then have dec: "list_all is_dec (map ucast (efi_fmt_dec v))"
    using digits [of v] by (simp add: efi_fmt_dec_def is_dec_def flip: rev_map)
  have ne: "efi_fmt_dec v \<noteq> []"
    by (simp add: efi_fmt_dec_def) (subst dec_rev.simps; simp)
  have "\<not> hex_prefixed (map ucast (efi_fmt_dec v) @ r)"
    using dec assms ne
    by (cases "efi_fmt_dec v"; cases "tl (efi_fmt_dec v)"; cases r)
      (auto simp: hex_prefixed_def num_end_def is_dec_def)
  moreover have "is_dec (hd (map ucast (efi_fmt_dec v) @ r))"
    using dec ne by (cases "efi_fmt_dec v") auto
  ultimately show "parse_u64 (map ucast (efi_fmt_dec v) @ r) = Some (v, r)"
    using run ne by (simp add: parse_u64_def dec_run_append num_end_run [OF assms])
qed

theorem parse_u64_formatted_witness:
  "parse_u64 (str ''0x'' @ map ucast (efi_fmt_hex 0x12340000 8) @ str '',0x1000'')
     = Some (0x12340000, str '',0x1000'')"
  using parse_u64_formatted [of "str '',0x1000''" "0x12340000" 8]
  by (simp add: num_end_def hex_dig_def)

end
