(* ===== verification/Rows_Blob.thy ===== *)
theory Rows_Blob
  imports Prelude
begin

text \<open>
  \<^verbatim>\<open>badmem_parse_rows_blob\<close> of \<^verbatim>\<open>efi/badmem_parse.c\<close>: the reader of the \<^verbatim>\<open>BrrBadRows\<close> NVRAM
  variable, a packed little-endian structure of a header and eight-byte tuples. The buffer is
  the list of its bytes, a NULL pointer \<open>None\<close>. The lemmas show that the layout the source
  documents is read back exactly and that a damaged blob yields no row.
\<close>

definition BADMEM_MAX_ROWS :: nat where "BADMEM_MAX_ROWS = 256"

record badmem_row =
  row_channel :: u8
  row_rank :: u8
  row_bank_group :: u8
  row_bank :: u8
  row_row :: u32

definition badrows_hdr_size :: nat where "badrows_hdr_size = 8"
definition badrows_tuple_size :: nat where "badrows_tuple_size = 8"

text \<open>The tuple at index \<open>i\<close> of the array behind the header.\<close>

definition badrows_tuple :: "u8 list \<Rightarrow> nat \<Rightarrow> badmem_row" where
  "badrows_tuple blob i =
     (let t = drop (badrows_hdr_size + i * badrows_tuple_size) blob in
      \<lparr>row_channel = t ! 0, row_rank = t ! 1, row_bank_group = t ! 2, row_bank = t ! 3,
       row_row = of_le (take 4 (drop 4 t))\<rparr>)"

definition badmem_parse_rows_blob :: "u8 list option \<Rightarrow> bool \<Rightarrow> nat \<Rightarrow> badmem_row list" where
  "badmem_parse_rows_blob blob out_given out_max =
     (case blob of
        None \<Rightarrow> []
      | Some blob \<Rightarrow>
          if length blob < badrows_hdr_size \<or> \<not> out_given \<or> out_max = 0 then []
          else if (of_le (take 4 blob) :: u32) \<noteq> 1 then []
          else
            let count = unat (of_le (take 4 (drop 4 blob)) :: u32) in
            if count = 0 then []
            else
              let count = (if count > BADMEM_MAX_ROWS then BADMEM_MAX_ROWS else count);
                  expected = badrows_hdr_size + count * badrows_tuple_size
              in if length blob < expected then []
                 else map (badrows_tuple blob) [0..<(if count < out_max then count else out_max)])"

text \<open>The documented layout.\<close>

definition row_bytes :: "badmem_row \<Rightarrow> u8 list" where
  "row_bytes r =
     [row_channel r, row_rank r, row_bank_group r, row_bank r] @ to_le 4 (row_row r)"

definition rows_blob :: "badmem_row list \<Rightarrow> u8 list" where
  "rows_blob rs =
     to_le 4 (1 :: u32) @ to_le 4 (of_nat (length rs) :: u32) @ concat (map row_bytes rs)"

lemma length_row_bytes [simp]: "length (row_bytes r) = badrows_tuple_size"
  by (simp add: row_bytes_def badrows_tuple_size_def)

lemma length_rows_concat [simp]:
  "length (concat (map row_bytes rs)) = length rs * badrows_tuple_size"
  by (rule length_records) simp

lemma drop_rows:
  "i < length rs \<Longrightarrow> drop (i * badrows_tuple_size) (concat (map row_bytes rs) @ junk) =
     row_bytes (rs ! i) @ drop (Suc i * badrows_tuple_size) (concat (map row_bytes rs) @ junk)"
  by (rule drop_records) simp

lemma badrows_tuple_blob:
  assumes "i < length rs"
  shows "badrows_tuple (rows_blob rs @ junk) i = rs ! i"
proof -
  have "drop (badrows_hdr_size + i * badrows_tuple_size) (rows_blob rs @ junk) =
      drop (i * badrows_tuple_size) (concat (map row_bytes rs) @ junk)"
    by (simp add: rows_blob_def badrows_hdr_size_def flip: drop_drop)
  also note drop_rows [OF assms]
  finally show ?thesis
    by (simp add: badrows_tuple_def Let_def row_bytes_def)
qed

lemma rows_blob_hdr:
  assumes "length rs < 2 ^ 32"
  shows "of_le (take 4 (rows_blob rs @ junk)) = (1 :: u32)"
    "unat (of_le (take 4 (drop 4 (rows_blob rs @ junk))) :: u32) = length rs"
proof -
  show "of_le (take 4 (rows_blob rs @ junk)) = (1 :: u32)" by (simp add: rows_blob_def)
  have "unat (of_nat (length rs) :: u32) = length rs"
    using assms by (simp add: unat_of_nat)
  then show "unat (of_le (take 4 (drop 4 (rows_blob rs @ junk))) :: u32) = length rs"
    by (simp add: rows_blob_def)
qed

lemma length_rows_blob [simp]:
  "length (rows_blob rs) = badrows_hdr_size + length rs * badrows_tuple_size"
  by (simp add: rows_blob_def badrows_hdr_size_def)

lemma rows_blob_read:
  assumes "length rs < 2 ^ 32"
  shows "badmem_parse_rows_blob (Some (rows_blob rs @ junk)) True out_max =
    take (min out_max BADMEM_MAX_ROWS) rs"
proof (cases "rs = [] \<or> out_max = 0")
  case True
  then show ?thesis
    using rows_blob_hdr [OF assms, of junk]
    by (auto simp: badmem_parse_rows_blob_def)
next
  case False
  define n where "n = min (min out_max BADMEM_MAX_ROWS) (length rs)"
  have all: "take (min k (length rs)) rs = take k rs" for k by (simp add: min_def)
  have "badmem_parse_rows_blob (Some (rows_blob rs @ junk)) True out_max =
      map (badrows_tuple (rows_blob rs @ junk)) [0..<n]"
    using False rows_blob_hdr [OF assms, of junk]
    by (auto simp: badmem_parse_rows_blob_def n_def min_def Let_def badrows_tuple_size_def)
  also have "\<dots> = map ((!) rs) [0..<n]"
    by (rule map_cong) (auto simp: badrows_tuple_blob n_def)
  also have "\<dots> = take n rs" by (rule nth_equalityI) (simp_all add: n_def)
  finally show ?thesis unfolding n_def all .
qed

text \<open>C24: a \<^verbatim>\<open>BrrBadRows\<close> blob in the documented layout, whatever follows it in the buffer, is read
  back tuple by tuple, up to the caller's capacity and the 256 rows the format allows.\<close>

theorem rows_blob_roundtrip:
  assumes "length rs < 2 ^ 32"
  shows "badmem_parse_rows_blob (Some (rows_blob rs @ junk)) True out_max =
    take (min out_max BADMEM_MAX_ROWS) rs"
  using assms by (rule rows_blob_read)

theorem rows_blob_roundtrip_witness:
  "badmem_parse_rows_blob
     (Some (rows_blob [\<lparr>row_channel = 1, row_rank = 0, row_bank_group = 3, row_bank = 2,
                        row_row = 0x1F345\<rparr>] @ [0xFF])) True 256 =
   [\<lparr>row_channel = 1, row_rank = 0, row_bank_group = 3, row_bank = 2, row_row = 0x1F345\<rparr>]"
  by (subst rows_blob_roundtrip) (simp_all add: BADMEM_MAX_ROWS_def)

text \<open>A blob that was cut short, by however little, yields no row at all.\<close>

theorem rows_blob_truncated:
  assumes "length rs \<le> BADMEM_MAX_ROWS" "n < length (rows_blob rs)"
  shows "badmem_parse_rows_blob (Some (take n (rows_blob rs))) True out_max = []"
proof (cases "n < badrows_hdr_size")
  case True
  then show ?thesis by (simp add: badmem_parse_rows_blob_def)
next
  case False
  then have n: "8 \<le> n" by (simp add: badrows_hdr_size_def)
  have len: "length rs < 2 ^ 32" using assms(1) by (simp add: BADMEM_MAX_ROWS_def)
  have "take 4 (take n (rows_blob rs)) = take 4 (rows_blob rs)"
    "take 4 (drop 4 (take n (rows_blob rs))) = take 4 (drop 4 (rows_blob rs))"
    using n by (simp_all add: drop_take min_def)
  then show ?thesis
    using rows_blob_hdr [OF len, of "[]"] assms by (auto simp: badmem_parse_rows_blob_def Let_def)
qed

theorem rows_blob_truncated_witness:
  "badmem_parse_rows_blob
     (Some (take 15 (rows_blob [\<lparr>row_channel = 0, row_rank = 0, row_bank_group = 1, row_bank = 2,
                                 row_row = 77\<rparr>]))) True 256 = []"
  by (rule rows_blob_truncated)
    (simp_all add: BADMEM_MAX_ROWS_def badrows_hdr_size_def badrows_tuple_size_def)

end
