(* ===== verification/Imc_Config.thy ===== *)
theory Imc_Config
  imports Prelude
begin

text \<open>
  The memory-controller configuration of \<^verbatim>\<open>src/imc/cfl_skl_kbl.c\<close> (structures of
  \<^verbatim>\<open>src/imc_dispatch.h\<close>): CPU detection, the MCHBAR base, the decoding of the \<^verbatim>\<open>MAD_DIMM\<close>
  registers and the cached configuration.

  What the code takes from memtest86+ and the processor is the parameter \<open>hw\<close>: the CPUID
  record, the PCI configuration space as an abstract state with its read and write functions,
  \<^verbatim>\<open>map_region\<close> and the value of a memory-mapped 32-bit register. A register read has no side
  effect in the model.
\<close>

record 'p hardware =
  cpuid_vendor :: "u8 list"
  cpuid_family :: u32
  cpuid_model :: u32
  cpuid_ext_model :: u32
  pci_read32 :: "u8 \<Rightarrow> u8 \<Rightarrow> u8 \<Rightarrow> u8 \<Rightarrow> 'p \<Rightarrow> u32"
  pci_write32 :: "u8 \<Rightarrow> u8 \<Rightarrow> u8 \<Rightarrow> u8 \<Rightarrow> u32 \<Rightarrow> 'p \<Rightarrow> 'p"
  map_region :: "u64 \<Rightarrow> u64 \<Rightarrow> bool \<Rightarrow> u64"
  mmio_read32 :: "u64 \<Rightarrow> u32"

section \<open>Data\<close>

record mc_dimm =
  dimm_populated :: bool
  dimm_ranks :: u8
  dimm_width :: u8
  dimm_size_mb :: u32

record mc_channel =
  chan_populated :: bool
  chan_dimm :: "mc_dimm list"
  chan_mad_dimm_raw :: u32

record mc_config =
  mc_valid :: bool
  mc_channels_populated :: u8
  mc_chip_width :: u8
  mc_mchbar_base :: u64
  mc_channel :: "mc_channel list"
  mc_mad_chnl :: u32
  mc_chan_hash :: u32
  mc_chan_ehash :: u32
  mc_mad_intra_ch0 :: u32
  mc_mad_intra_ch1 :: u32

text \<open>The file-scope state of the module, with the PCI configuration space it writes to.\<close>

record 'p imc_state =
  g_config :: mc_config
  g_config_cached :: bool
  pci_space :: 'p

definition MCHBAR_LO_REG :: u8 where "MCHBAR_LO_REG = 0x48"
definition MCHBAR_HI_REG :: u8 where "MCHBAR_HI_REG = 0x4C"
definition MCHBAR_ENABLE :: u32 where "MCHBAR_ENABLE = 1"
definition MCHBAR_MASK :: u64 where "MCHBAR_MASK = 0x7FFFFF8000"
definition MCHBAR_WINDOW :: u64 where "MCHBAR_WINDOW = push_bit 15 1"

definition MCHBAR_MAD_CHNL :: u64 where "MCHBAR_MAD_CHNL = 0x5000"
definition MCHBAR_MAD_INTRA_CH0 :: u64 where "MCHBAR_MAD_INTRA_CH0 = 0x5004"
definition MCHBAR_MAD_INTRA_CH1 :: u64 where "MCHBAR_MAD_INTRA_CH1 = 0x5008"
definition MCHBAR_MAD_DIMM_CH0 :: u64 where "MCHBAR_MAD_DIMM_CH0 = 0x500C"
definition MCHBAR_MAD_DIMM_CH1 :: u64 where "MCHBAR_MAD_DIMM_CH1 = 0x5010"
definition MCHBAR_CHANNEL_HASH :: u64 where "MCHBAR_CHANNEL_HASH = 0x5024"
definition MCHBAR_CHANNEL_EHASH :: u64 where "MCHBAR_CHANNEL_EHASH = 0x5028"

section \<open>Operations\<close>

definition cfl_skl_detect :: "'p hardware \<Rightarrow> bool" where
  "cfl_skl_detect hw =
     (if cpuid_vendor hw ! 0 \<noteq> ch CHR ''G'' then False
      else if cpuid_family hw \<noteq> 6 then False
      else
        let model = cpuid_model hw OR push_bit 4 (cpuid_ext_model hw)
        in model = 0x8E \<or> model = 0x9E)"

definition read_mchbar_base :: "'p hardware \<Rightarrow> 'p \<Rightarrow> u64 \<times> 'p" where
  "read_mchbar_base hw p =
     (let base = (\<lambda>lo p.
            let hi = pci_read32 hw 0 0 0 MCHBAR_HI_REG p
            in ((push_bit 32 (ucast hi) OR ucast lo) AND MCHBAR_MASK, p));
          lo = pci_read32 hw 0 0 0 MCHBAR_LO_REG p
      in
        if lo AND MCHBAR_ENABLE = 0 then
          let p = pci_write32 hw 0 0 0 MCHBAR_LO_REG (lo OR MCHBAR_ENABLE) p;
              lo = pci_read32 hw 0 0 0 MCHBAR_LO_REG p
          in if lo AND MCHBAR_ENABLE = 0 then (0, p) else base lo p
        else base lo p)"

definition mch_read32 :: "'p hardware \<Rightarrow> u64 \<Rightarrow> u64 \<Rightarrow> u32" where
  "mch_read32 hw mch off = mmio_read32 hw (mch + off)"

text \<open>One DIMM of a \<^verbatim>\<open>MAD_DIMM\<close> register: its size field in GB, its rank code and width bit.\<close>

definition mad_dimm :: "u32 \<Rightarrow> nat \<Rightarrow> nat \<Rightarrow> u32 \<Rightarrow> mc_dimm" where
  "mad_dimm raw size_shift ranks_shift width_bit =
     (let size = drop_bit size_shift raw AND 0x3F;
          rnk = drop_bit ranks_shift raw AND 0x3
      in \<lparr>dimm_populated = 0 < size,
          dimm_ranks = ucast (push_bit (unat rnk) (1 :: u32)),
          dimm_width = (if raw AND width_bit \<noteq> 0 then 16 else 8),
          dimm_size_mb = size * 1024\<rparr>)"

definition decode_mad_dimm :: "u32 \<Rightarrow> mc_channel" where
  "decode_mad_dimm raw =
     (let a = mad_dimm raw 0 8 (push_bit 10 1);
          b = mad_dimm raw 16 12 (push_bit 11 1)
      in \<lparr>chan_populated = dimm_populated a \<or> dimm_populated b,
          chan_dimm = [a, b],
          chan_mad_dimm_raw = raw\<rparr>)"

definition cfl_skl_config_refresh :: "'p imc_state \<Rightarrow> 'p imc_state" where
  "cfl_skl_config_refresh st = st\<lparr>g_config_cached := False\<rparr>"

text \<open>The counting loop of \<open>cfl_skl_config\<close> over channels and DIMMs.\<close>

definition count_dimm :: "mc_dimm \<Rightarrow> u8 \<times> u32 \<times> u32 \<Rightarrow> u8 \<times> u32 \<times> u32" where
  "count_dimm dd s =
     (let (pop, x8, x16) = s in
      if \<not> dimm_populated dd then s
      else (pop, if dimm_width dd = 8 then x8 + 1 else x8,
            if dimm_width dd = 16 then x16 + 1 else x16))"

definition count_channel :: "mc_channel \<Rightarrow> u8 \<times> u32 \<times> u32 \<Rightarrow> u8 \<times> u32 \<times> u32" where
  "count_channel c s =
     (let (pop, x8, x16) = s
      in fold count_dimm (chan_dimm c) (if chan_populated c then pop + 1 else pop, x8, x16))"

definition count_dimms :: "mc_channel list \<Rightarrow> u8 \<times> u32 \<times> u32" where
  "count_dimms channels = fold count_channel channels (0, 0, 0)"

definition read_config :: "'p hardware \<Rightarrow> u64 \<Rightarrow> u64 \<Rightarrow> mc_config \<Rightarrow> mc_config" where
  "read_config hw base mch g =
     (let channels = [decode_mad_dimm (mch_read32 hw mch MCHBAR_MAD_DIMM_CH0),
                      decode_mad_dimm (mch_read32 hw mch MCHBAR_MAD_DIMM_CH1)];
          (pop, votes_x8, votes_x16) = count_dimms channels
      in g\<lparr>mc_mchbar_base := base,
           mc_mad_chnl := mch_read32 hw mch MCHBAR_MAD_CHNL,
           mc_mad_intra_ch0 := mch_read32 hw mch MCHBAR_MAD_INTRA_CH0,
           mc_mad_intra_ch1 := mch_read32 hw mch MCHBAR_MAD_INTRA_CH1,
           mc_chan_hash := mch_read32 hw mch MCHBAR_CHANNEL_HASH,
           mc_chan_ehash := mch_read32 hw mch MCHBAR_CHANNEL_EHASH,
           mc_channel := channels,
           mc_channels_populated := pop,
           mc_chip_width := (if votes_x16 > votes_x8 then 16 else 8),
           mc_valid := 0 < pop\<rparr>)"

definition cfl_skl_config ::
  "'p hardware \<Rightarrow> 'p imc_state \<Rightarrow> mc_config option \<times> 'p imc_state" where
  "cfl_skl_config hw st =
     (if g_config_cached st
      then (if mc_valid (g_config st) then Some (g_config st) else None, st)
      else
        let st = st\<lparr>g_config_cached := True, g_config := g_config st\<lparr>mc_valid := False\<rparr>\<rparr> in
        if \<not> cfl_skl_detect hw then (None, st)
        else
          let (base, p) = read_mchbar_base hw (pci_space st);
              st = st\<lparr>pci_space := p\<rparr> in
          if base = 0 then (None, st)
          else
            let mch = map_region hw base MCHBAR_WINDOW False in
            if mch = 0 then (None, st)
            else
              let st = st\<lparr>g_config := read_config hw base mch (g_config st)\<rparr>
              in (if mc_valid (g_config st) then Some (g_config st) else None, st))"

section \<open>The configuration is cached, and what it holds was decoded from the registers\<close>

definition mc_wf :: "mc_config \<Rightarrow> bool" where
  "mc_wf mc \<longleftrightarrow>
     mc_valid mc \<and> length (mc_channel mc) = 2 \<and>
     list_all (\<lambda>c. c = decode_mad_dimm (chan_mad_dimm_raw c)) (mc_channel mc) \<and>
     unat (mc_channels_populated mc) = length (filter chan_populated (mc_channel mc)) \<and>
     0 < mc_channels_populated mc \<and>
     (mc_chip_width mc = 8 \<or> mc_chip_width mc = 16)"

definition imc_inv :: "'p imc_state \<Rightarrow> bool" where
  "imc_inv st \<longleftrightarrow> (g_config_cached st \<and> mc_valid (g_config st) \<longrightarrow> mc_wf (g_config st))"

lemma decode_mad_dimm_raw [simp]: "chan_mad_dimm_raw (decode_mad_dimm raw) = raw"
  by (simp add: decode_mad_dimm_def Let_def)

lemma chan_dimm_decode:
  "chan_dimm (decode_mad_dimm raw) =
     [mad_dimm raw 0 8 (push_bit 10 1), mad_dimm raw 16 12 (push_bit 11 1)]"
  by (simp add: decode_mad_dimm_def Let_def)

lemma chan_populated_decode:
  "chan_populated (decode_mad_dimm raw) = list_ex dimm_populated (chan_dimm (decode_mad_dimm raw))"
  by (simp add: decode_mad_dimm_def Let_def)

lemma fst_fold_count_dimm: "fst (fold count_dimm ds s) = fst s"
  by (induction ds arbitrary: s) (auto simp: count_dimm_def split_def Let_def)

lemma fst_count_channel:
  "fst (count_channel c s) = fst s + (if chan_populated c then 1 else 0)"
  by (simp add: count_channel_def fst_fold_count_dimm split_def Let_def)

lemma fst_count_dimms:
  "fst (count_dimms cs) = of_nat (length (filter chan_populated cs))"
proof -
  have "fst (fold count_channel cs s) = fst s + of_nat (length (filter chan_populated cs))" for s
    by (induction cs arbitrary: s) (simp_all add: fst_count_channel)
  then show ?thesis by (simp add: count_dimms_def)
qed

lemma read_config_wf: "mc_valid (read_config hw base mch g) \<Longrightarrow> mc_wf (read_config hw base mch g)"
proof -
  define cs where "cs = [decode_mad_dimm (mch_read32 hw mch MCHBAR_MAD_DIMM_CH0),
    decode_mad_dimm (mch_read32 hw mch MCHBAR_MAD_DIMM_CH1)]"
  obtain pop x8 x16 where cnt: "count_dimms cs = (pop, x8, x16)" by (cases "count_dimms cs")
  have "unat pop = length (filter chan_populated cs)"
  proof -
    have "pop = of_nat (length (filter chan_populated cs))"
      using fst_count_dimms [of cs] cnt by simp
    moreover have "length (filter chan_populated cs) \<le> 2"
      using length_filter_le [of chan_populated cs] by (simp add: cs_def)
    ultimately show ?thesis by (simp add: unat_of_nat)
  qed
  then show "mc_valid (read_config hw base mch g) \<Longrightarrow> ?thesis"
    using cnt by (simp add: read_config_def Let_def mc_wf_def flip: cs_def) (simp add: cs_def)
qed

lemma config_keeps_inv:
  assumes "imc_inv st"
  shows "imc_inv (snd (cfl_skl_config hw st)) \<and> pred_option mc_wf (fst (cfl_skl_config hw st))"
  using assms
  by (auto simp: cfl_skl_config_def imc_inv_def Let_def read_config_wf split: prod.split)

text \<open>C26: the configuration module keeps its invariant and every configuration it hands out is well
  formed: two channels, each the decoding of the register value it carries, at least one of them
  populated, and the populated count exact.\<close>

theorem cfl_skl_config_inv:
  assumes "imc_inv st"
  shows "imc_inv (snd (cfl_skl_config hw st)) \<and>
    pred_option mc_wf (fst (cfl_skl_config hw st))"
  using assms by (rule config_keeps_inv)

text \<open>The configuration is read once: a second request, at any later time with no refresh between
  them, returns the same configuration and changes nothing.\<close>

theorem cfl_skl_config_cached:
  "cfl_skl_config hw (snd (cfl_skl_config hw' st)) =
     (fst (cfl_skl_config hw' st), snd (cfl_skl_config hw' st))"
  by (auto simp: cfl_skl_config_def Let_def split: prod.split)

text \<open>A machine to evaluate on: a Coffee Lake mobile with \<^verbatim>\<open>0x410\<close> in both \<^verbatim>\<open>MAD_DIMM\<close> registers (one
  rank of x16 chips, 16 GB on each channel), no channel hash, MCHBAR enabled at \<^verbatim>\<open>0xFED10000\<close>.\<close>

definition a1990_hw :: "u32 \<Rightarrow> unit hardware" where
  "a1990_hw mad =
     \<lparr>cpuid_vendor = str ''GenuineIntel'', cpuid_family = 6, cpuid_model = 0xE,
      cpuid_ext_model = 9,
      pci_read32 = (\<lambda>b d f r p. if r = MCHBAR_LO_REG then 0xFED10001 else 0),
      pci_write32 = (\<lambda>b d f r v p. p),
      map_region = (\<lambda>base len once. base),
      mmio_read32 = (\<lambda>a. if a = 0xFED1500C \<or> a = 0xFED15010 then mad else 0)\<rparr>"

definition blank_config :: mc_config where
  "blank_config =
     \<lparr>mc_valid = False, mc_channels_populated = 0, mc_chip_width = 0, mc_mchbar_base = 0,
      mc_channel = [], mc_mad_chnl = 0, mc_chan_hash = 0, mc_chan_ehash = 0,
      mc_mad_intra_ch0 = 0, mc_mad_intra_ch1 = 0\<rparr>"

definition blank_imc :: "unit imc_state" where
  "blank_imc = \<lparr>g_config = blank_config, g_config_cached = False, pci_space = ()\<rparr>"

lemma imc_inv_blank: "imc_inv blank_imc"
  by (simp add: imc_inv_def blank_imc_def)

lemmas a1990_simps =
  a1990_hw_def blank_imc_def blank_config_def cfl_skl_config_def cfl_skl_detect_def
  read_mchbar_base_def read_config_def mch_read32_def decode_mad_dimm_def mad_dimm_def
  count_dimms_def count_channel_def count_dimm_def
  MCHBAR_LO_REG_def MCHBAR_HI_REG_def MCHBAR_ENABLE_def MCHBAR_MASK_def MCHBAR_WINDOW_def
  MCHBAR_MAD_CHNL_def MCHBAR_MAD_INTRA_CH0_def MCHBAR_MAD_INTRA_CH1_def MCHBAR_MAD_DIMM_CH0_def
  MCHBAR_MAD_DIMM_CH1_def MCHBAR_CHANNEL_HASH_def MCHBAR_CHANNEL_EHASH_def

lemma a1990_config:
  "fst (cfl_skl_config (a1990_hw 0x410) blank_imc) =
    Some \<lparr>mc_valid = True, mc_channels_populated = 2, mc_chip_width = 16,
          mc_mchbar_base = 0xFED10000,
          mc_channel = [decode_mad_dimm 0x410, decode_mad_dimm 0x410],
          mc_mad_chnl = 0, mc_chan_hash = 0, mc_chan_ehash = 0,
          mc_mad_intra_ch0 = 0, mc_mad_intra_ch1 = 0\<rparr>"
  by (simp add: a1990_simps Let_def)

theorem cfl_skl_config_inv_witness:
  "imc_inv (snd (cfl_skl_config (a1990_hw 0x410) blank_imc)) \<and>
   fst (cfl_skl_config (a1990_hw 0x410) blank_imc) \<noteq> None"
  using cfl_skl_config_inv [OF imc_inv_blank, of "a1990_hw 0x410"] by (simp add: a1990_config)

end
