(* ===== verification/Imc_Decode.thy ===== *)
theory Imc_Decode
  imports Imc_Config
begin

text \<open>
  The address decoder of \<^verbatim>\<open>src/imc/cfl_skl_kbl.c\<close>: channel, rank, bank group, bank, column and
  row of a physical address, the row width of the installed DIMMs, the total memory, and the
  enumeration of the pages of a row. Every operation asks for the configuration first, so it
  passes the module's state on; the lemmas describe it on a state whose configuration is read.
\<close>

record pa_decoded =
  d_valid :: bool
  d_channel :: u8
  d_rank :: u8
  d_rank_valid :: bool
  d_rank_speculative :: bool
  d_bank_group :: u8
  d_bank :: u8
  d_row :: u32
  d_col :: u16
  d_bank_row_valid :: bool
  d_bank_row_speculative :: bool

definition no_decode :: pa_decoded where
  "no_decode =
     \<lparr>d_valid = False, d_channel = 0, d_rank = 0, d_rank_valid = False, d_rank_speculative = False,
      d_bank_group = 0, d_bank = 0, d_row = 0, d_col = 0, d_bank_row_valid = False,
      d_bank_row_speculative = False\<rparr>"

section \<open>Channel and rank\<close>

function parity_loop :: "u64 \<Rightarrow> u8 \<Rightarrow> u8" where
  "parity_loop bits parity =
     (if bits \<noteq> 0 then parity_loop (drop_bit 1 bits) (parity XOR ucast (bits AND 1)) else parity)"
  by pat_completeness auto
termination
proof (relation "measure (unat \<circ> fst)")
  fix bits :: u64 and parity :: u8
  assume "bits \<noteq> 0"
  then have "0 < unat bits" by (simp add: word_unat_eq_iff)
  then show "((drop_bit 1 bits, parity XOR ucast (bits AND 1)), bits, parity) \<in> measure (unat \<circ> fst)"
    by (simp add: drop_bit_eq_div unat_div)
qed simp

declare parity_loop.simps [simp del]

definition cfl_skl_decode_channel :: "u64 \<Rightarrow> mc_config \<Rightarrow> u8" where
  "cfl_skl_decode_channel pa mc =
     (if mc_channels_populated mc = 1 then (if chan_populated (mc_channel mc ! 0) then 0 else 1)
      else if mc_chan_hash mc AND 1 = 0 then ucast (drop_bit 6 pa AND 1)
      else
        let mask = ucast (drop_bit 6 (mc_chan_hash mc) AND 0x3FFF);
            bits = drop_bit 6 pa AND mask
        in parity_loop bits 0)"

definition channel_max_ranks :: "mc_channel \<Rightarrow> u8" where
  "channel_max_ranks c =
     fold (\<lambda>d m. if \<not> dimm_populated d then m else if dimm_ranks d > m then dimm_ranks d else m)
       (chan_dimm c) 0"

definition MAD_INTRA_RANK_IL_EN_BIT :: u32 where "MAD_INTRA_RANK_IL_EN_BIT = push_bit 8 1"
definition MAD_INTRA_RANK_BIT_MASK :: u32 where "MAD_INTRA_RANK_BIT_MASK = 0x1F"
definition MAD_INTRA_RANK_BIT_MIN :: u32 where "MAD_INTRA_RANK_BIT_MIN = 6"
definition MAD_INTRA_RANK_BIT_MAX :: u32 where "MAD_INTRA_RANK_BIT_MAX = 40"

text \<open>The rank with \<open>out_valid\<close> and \<open>out_speculative\<close>.\<close>

definition cfl_skl_decode_rank :: "u64 \<Rightarrow> u8 \<Rightarrow> mc_config \<Rightarrow> u8 \<times> bool \<times> bool" where
  "cfl_skl_decode_rank pa ch_idx mc =
     (if channel_max_ranks (mc_channel mc ! unat ch_idx) \<le> 1 then (0, True, False)
      else
        let intra = (if ch_idx = 0 then mc_mad_intra_ch0 mc else mc_mad_intra_ch1 mc) in
        if intra AND MAD_INTRA_RANK_IL_EN_BIT = 0 then (0, False, False)
        else
          let rank_bit = intra AND MAD_INTRA_RANK_BIT_MASK in
          if rank_bit < MAD_INTRA_RANK_BIT_MIN \<or> rank_bit > MAD_INTRA_RANK_BIT_MAX
          then (0, False, False)
          else (ucast (drop_bit (unat rank_bit) pa AND 1), True, True))"

section \<open>Bank group, bank, column and row\<close>

definition bit_at :: "u64 \<Rightarrow> nat \<Rightarrow> u32" where
  "bit_at pa n = ucast (drop_bit n pa AND 1)"

definition cfl_skl_decode_bank_row_col :: "u64 \<Rightarrow> pa_decoded \<Rightarrow> nat \<Rightarrow> pa_decoded" where
  "cfl_skl_decode_bank_row_col pa d row_bit_count =
     d\<lparr>d_bank_group := ucast
         ((bit_at pa 7 XOR bit_at pa 14) OR
          push_bit 1 (bit_at pa 8 XOR bit_at pa 9 XOR bit_at pa 12 XOR bit_at pa 13 XOR
                      bit_at pa 18 XOR bit_at pa 19)),
       d_bank := ucast
         ((bit_at pa 15 XOR bit_at pa 18) OR push_bit 1 (bit_at pa 16 XOR bit_at pa 19)),
       d_col := ucast (drop_bit 6 pa AND 0x3FF),
       d_row := (if 0 < row_bit_count \<and> row_bit_count \<le> 20
                 then ucast (drop_bit 18 pa AND (push_bit row_bit_count 1 - 1)) else d_row d),
       d_bank_row_valid := True,
       d_bank_row_speculative := True\<rparr>"

section \<open>Geometry\<close>

text \<open>The first populated DIMM, in the order of the two nested loops.\<close>

definition first_dimm :: "mc_config \<Rightarrow> mc_dimm option" where
  "first_dimm mc = List.find dimm_populated (concat (map chan_dimm (mc_channel mc)))"

function log2_loop :: "u64 \<Rightarrow> nat \<Rightarrow> nat" where
  "log2_loop v bits = (if v > 1 then log2_loop (drop_bit 1 v) (bits + 1) else bits)"
  by pat_completeness auto
termination
proof (relation "measure (unat \<circ> fst)")
  fix v :: u64 and bits :: nat
  assume "v > 1"
  then have "0 < unat v" by (simp add: word_less_nat_alt)
  then show "((drop_bit 1 v, bits + 1), v, bits) \<in> measure (unat \<circ> fst)"
    by (simp add: drop_bit_eq_div unat_div)
qed simp

declare log2_loop.simps [simp del]

definition dimm_row_bits :: "mc_dimm \<Rightarrow> nat" where
  "dimm_row_bits dd =
     (let chips_per_rank = 64 div (ucast (dimm_width dd) :: u32);
          dimm_bytes = ucast (dimm_size_mb dd) * 1024 * 1024 :: u64;
          chip_bytes = dimm_bytes div (ucast chips_per_rank * ucast (dimm_ranks dd));
          bytes_per_row = 1024 * (ucast (dimm_width dd) div 8 :: u32);
          total_rows = chip_bytes div ucast bytes_per_row;
          rows_per_bank = total_rows div 16
      in if rows_per_bank = 0 then 0 else log2_loop rows_per_bank 0)"

definition config_row_bits :: "mc_config option \<Rightarrow> nat" where
  "config_row_bits mc =
     (case mc of
        None \<Rightarrow> 0
      | Some mc \<Rightarrow> (case first_dimm mc of None \<Rightarrow> 0 | Some dd \<Rightarrow> dimm_row_bits dd))"

definition cfl_skl_row_bits :: "'p hardware \<Rightarrow> 'p imc_state \<Rightarrow> nat \<times> 'p imc_state" where
  "cfl_skl_row_bits hw st = (let (mc, st) = cfl_skl_config hw st in (config_row_bits mc, st))"

definition config_total_memory :: "mc_config \<Rightarrow> u64" where
  "config_total_memory mc =
     fold (\<lambda>c total.
             if \<not> chan_populated c then total
             else fold (\<lambda>d total.
                          if \<not> dimm_populated d then total
                          else total + ucast (dimm_size_mb d) * 1024 * 1024)
                    (chan_dimm c) total)
       (mc_channel mc) 0"

definition cfl_skl_total_memory :: "'p hardware \<Rightarrow> 'p imc_state \<Rightarrow> u64 \<times> 'p imc_state" where
  "cfl_skl_total_memory hw st =
     (let (mc, st) = cfl_skl_config hw st in
      (case mc of None \<Rightarrow> 0 | Some mc \<Rightarrow> config_total_memory mc, st))"

section \<open>Decoding an address, enumerating a row\<close>

definition config_decode_pa :: "mc_config \<Rightarrow> nat \<Rightarrow> u64 \<Rightarrow> pa_decoded" where
  "config_decode_pa mc rb pa =
     (let chan = cfl_skl_decode_channel pa mc;
          (rank, rank_valid, rank_speculative) = cfl_skl_decode_rank pa chan mc
      in cfl_skl_decode_bank_row_col pa
           (no_decode\<lparr>d_channel := chan, d_rank := rank, d_rank_valid := rank_valid,
                      d_rank_speculative := rank_speculative, d_valid := True\<rparr>) rb)"

definition cfl_skl_decode_pa :: "'p hardware \<Rightarrow> u64 \<Rightarrow> 'p imc_state \<Rightarrow> pa_decoded \<times> 'p imc_state" where
  "cfl_skl_decode_pa hw pa st =
     (let (mc, st) = cfl_skl_config hw st in
      case mc of
        None \<Rightarrow> (no_decode, st)
      | Some mc \<Rightarrow>
         (let (rb, st) = cfl_skl_row_bits hw st in (config_decode_pa mc rb pa, st)))"

text \<open>The filter of the enumeration, its early \<open>continue\<close>s in order.\<close>

definition row_hit :: "u8 \<Rightarrow> u8 \<Rightarrow> u8 \<Rightarrow> u8 \<Rightarrow> u32 \<Rightarrow> pa_decoded \<Rightarrow> bool" where
  "row_hit chan rank bg bank row d =
     (if \<not> d_valid d \<or> \<not> d_bank_row_valid d then False
      else if d_channel d \<noteq> chan then False
      else if d_rank_valid d \<and> d_rank d \<noteq> rank then False
      else if d_bank_group d \<noteq> bg then False
      else if d_bank d \<noteq> bank then False
      else d_row d = row)"

definition cfl_skl_enumerate_row ::
  "'p hardware \<Rightarrow> u8 \<Rightarrow> u8 \<Rightarrow> u8 \<Rightarrow> u8 \<Rightarrow> u32 \<Rightarrow> bool \<Rightarrow> nat \<Rightarrow> 'p imc_state
     \<Rightarrow> (u64 list \<times> 'p imc_state) option" where
  "cfl_skl_enumerate_row hw chan rank bg bank row out_given cap st =
     (let (total, st) = cfl_skl_total_memory hw st in
      if total = 0 \<or> \<not> out_given \<or> cap = 0 then Some ([], st)
      else page_loop (\<lambda>(out, st). length out < cap)
             (\<lambda>pa (out, st).
                let (d, st) = cfl_skl_decode_pa hw pa st
                in if row_hit chan rank bg bank row d then (out @ [pa], st) else (out, st))
             0 total ([], st))"

section \<open>The two arithmetic loops\<close>

lemma and_1_bit: "w AND 1 = (if bit w 0 then 1 else (0 :: 'a::len word))"
  by (simp add: and_one_eq bit_0 mod2_eq_if)

lemma finite_bits: "finite {n. bit (w :: 'a::len word) n}"
  by (rule finite_subset [of _ "{..<LENGTH('a)}"]) (auto dest: bit_imp_le_length)

text \<open>The loop computes the parity of the number of bits that are set.\<close>

lemma parity_loop_popcount:
  "parity_loop w p = (if odd (card {n. bit w n}) then p XOR 1 else p)"
proof (induction w p rule: parity_loop.induct)
  case (1 w p)
  show ?case
  proof (cases "w = 0")
    case True
    then show ?thesis by (simp add: parity_loop.simps)
  next
    case False
    let ?B = "{n. bit (drop_bit 1 w) n}"
    have B: "{n. bit w n} = (if bit w 0 then insert 0 (Suc ` ?B) else Suc ` ?B)"
    proof (rule set_eqI)
      fix n
      show "n \<in> {n. bit w n} \<longleftrightarrow> n \<in> (if bit w 0 then insert 0 (Suc ` ?B) else Suc ` ?B)"
        by (cases n) (auto simp: bit_drop_bit_eq)
    qed
    have "card {n. bit w n} = (if bit w 0 then Suc (card ?B) else card ?B)"
      unfolding B using finite_bits [of "drop_bit 1 w"]
      by (auto simp: card_image card_insert_if)
    moreover have "parity_loop w p = parity_loop (drop_bit 1 w) (p XOR ucast (w AND 1))"
      using False by (subst parity_loop.simps) simp
    ultimately show ?thesis
      using 1 [OF False] by (cases "bit w 0") (simp_all only: and_1_bit if_True if_False, simp_all add: xor.assoc)
  qed
qed

lemma log2_loop_bounds:
  "v \<noteq> 0 \<Longrightarrow> bits \<le> log2_loop v bits \<and>
     2 ^ (log2_loop v bits - bits) \<le> unat v \<and> unat v < 2 ^ Suc (log2_loop v bits - bits)"
proof (induction v bits rule: log2_loop.induct)
  case (1 v bits)
  show ?case
  proof (cases "v > 1")
    case False
    with 1(2) have "unat v = 1" by (auto simp: word_less_nat_alt word_unat_eq_iff)
    with False show ?thesis by (simp add: log2_loop.simps)
  next
    case True
    define n where "n = log2_loop (drop_bit 1 v) (bits + 1)"
    have half: "unat (drop_bit 1 v) = unat v div 2" by (simp add: drop_bit_eq_div unat_div)
    have "2 \<le> unat v" using True by (simp add: word_less_nat_alt)
    then have "drop_bit 1 v \<noteq> 0" using half by (auto simp: word_unat_eq_iff)
    from 1(1) [OF True this] have n: "bits + 1 \<le> n" "2 ^ (n - Suc bits) \<le> unat v div 2"
      "unat v div 2 < 2 ^ Suc (n - Suc bits)"
      by (simp_all add: half half [simplified] n_def)
    moreover have "n - bits = Suc (n - Suc bits)" using n(1) by simp
    moreover have "log2_loop v bits = n" using True by (subst log2_loop.simps) (simp add: n_def)
    ultimately show ?thesis by auto
  qed
qed

lemma log2_loop0_bounds:
  "v \<noteq> 0 \<Longrightarrow> 2 ^ log2_loop v 0 \<le> unat v" "v \<noteq> 0 \<Longrightarrow> unat v < 2 ^ Suc (log2_loop v 0)"
  using log2_loop_bounds [of v 0] by auto

section \<open>DIMM geometry\<close>

text \<open>What a \<^verbatim>\<open>MAD_DIMM\<close> register can describe.\<close>

definition dimm_wf :: "mc_dimm \<Rightarrow> bool" where
  "dimm_wf dd \<longleftrightarrow>
     (dimm_ranks dd = 1 \<or> dimm_ranks dd = 2 \<or> dimm_ranks dd = 4 \<or> dimm_ranks dd = 8) \<and>
     (dimm_width dd = 8 \<or> dimm_width dd = 16) \<and>
     1024 dvd unat (dimm_size_mb dd) \<and> unat (dimm_size_mb dd) \<le> 63 * 1024 \<and>
     (dimm_populated dd \<longleftrightarrow> dimm_size_mb dd \<noteq> 0)"

lemma dimm_wf_mad_dimm: "dimm_wf (mad_dimm raw ss rs wb)"
proof -
  define size where "size = drop_bit ss raw AND 0x3F"
  define rnk where "rnk = drop_bit rs raw AND (0x3 :: u32)"
  have size: "unat size \<le> 63"
    using unat_and_mask [of "drop_bit ss raw" 6] by (simp add: size_def mask_numeral)
  then have mb: "unat (size * 1024) = unat size * 1024"
    by (simp add: unat_word_ariths)
  have "unat rnk < 4"
    using unat_and_mask [of "drop_bit rs raw" 2] by (simp add: rnk_def mask_numeral)
  then have "unat rnk = 0 \<or> unat rnk = 1 \<or> unat rnk = 2 \<or> unat rnk = 3" by linarith
  then have "(ucast (push_bit (unat rnk) (1 :: u32)) :: u8) \<in> {1, 2, 4, 8}"
    by (elim disjE; simp)
  moreover have "size * 1024 = 0 \<longleftrightarrow> size = 0" "0 < size \<longleftrightarrow> size \<noteq> 0"
    using mb by (auto simp: word_unat_eq_iff word_less_nat_alt)
  ultimately show ?thesis
    using mb size
    by (simp add: dimm_wf_def mad_dimm_def Let_def flip: size_def rnk_def)
qed

lemma dimm_wf_decode: "list_all dimm_wf (chan_dimm (decode_mad_dimm raw))"
  by (simp add: chan_dimm_decode dimm_wf_mad_dimm)

lemma dimm_wf_mc:
  assumes "mc_wf mc" "c \<in> set (mc_channel mc)" "dd \<in> set (chan_dimm c)"
  shows "dimm_wf dd"
  using assms dimm_wf_decode [of "chan_mad_dimm_raw c"]
  by (auto simp: mc_wf_def list_all_iff)

lemma first_dimm_wf:
  assumes "mc_wf mc"
  obtains dd where "first_dimm mc = Some dd" "dimm_populated dd" "dimm_wf dd"
proof -
  from assms have "0 < length (filter chan_populated (mc_channel mc))"
    by (auto simp: mc_wf_def word_less_nat_alt)
  then obtain c where c: "c \<in> set (mc_channel mc)" "chan_populated c"
    by (auto simp: filter_empty_conv)
  with assms have "c = decode_mad_dimm (chan_mad_dimm_raw c)"
    by (auto simp: mc_wf_def list_all_iff)
  with c have "list_ex dimm_populated (chan_dimm c)"
    using chan_populated_decode by metis
  with c have "first_dimm mc \<noteq> None"
    by (auto simp: first_dimm_def find_None_iff list_ex_iff)
  then obtain dd where dd: "first_dimm mc = Some dd" by blast
  then have "dimm_populated dd" "dd \<in> set (concat (map chan_dimm (mc_channel mc)))"
    by (auto simp: first_dimm_def find_Some_iff simp del: set_concat)
  with dd that dimm_wf_mc [OF assms] show ?thesis by auto
qed

text \<open>The rows of a bank: the size in units of 8 KiB rows and 16 banks, divided among the ranks.\<close>

lemma rows_per_bank_word:
  assumes "dimm_wf dd"
  defines "chips \<equiv> 64 div (ucast (dimm_width dd) :: u32)"
    and "row \<equiv> 1024 * (ucast (dimm_width dd) div 8 :: u32)"
  shows "unat (ucast (dimm_size_mb dd) * 1024 * 1024 div (ucast chips * ucast (dimm_ranks dd))
           div ucast row div 16 :: u64) = unat (dimm_size_mb dd) * 8 div unat (dimm_ranks dd)"
proof -
  have mb: "unat (dimm_size_mb dd) \<le> 63 * 1024" using assms(1) by (simp add: dimm_wf_def)
  have bytes: "unat (1048576 * ucast (dimm_size_mb dd) :: u64) = 1048576 * unat (dimm_size_mb dd)"
    using mb by (simp add: unat_word_ariths unsigned_ucast_eq take_bit_eq_mod)
  from assms(1) have "dimm_ranks dd \<in> {1, 2, 4, 8}" "dimm_width dd \<in> {8, 16}"
    by (auto simp: dimm_wf_def)
  then show ?thesis
    by (auto simp: unat_div bytes chips_def row_def simp flip: div_mult2_eq)
qed

lemma dimm_row_bits_geometry:
  assumes "dimm_wf dd" "dimm_populated dd"
  shows "2 ^ dimm_row_bits dd * unat (dimm_ranks dd) \<le> unat (dimm_size_mb dd) * 8"
    "unat (dimm_size_mb dd) * 8 < 2 ^ Suc (dimm_row_bits dd) * unat (dimm_ranks dd)"
    "10 \<le> dimm_row_bits dd" "dimm_row_bits dd \<le> 18"
proof -
  define rows :: u64 where "rows =
    ucast (dimm_size_mb dd) * 1024 * 1024
      div (ucast (64 div (ucast (dimm_width dd) :: u32)) * ucast (dimm_ranks dd))
      div ucast (1024 * (ucast (dimm_width dd) div 8 :: u32)) div 16"
  define S where "S = unat (dimm_size_mb dd)"
  define r where "r = unat (dimm_ranks dd)"
  from assms(1) have r: "r = 1 \<or> r = 2 \<or> r = 4 \<or> r = 8" by (auto simp: dimm_wf_def r_def)
  from assms have S: "1024 dvd S" "S \<le> 63 * 1024" "0 < S"
    by (auto simp: dimm_wf_def S_def word_unat_eq_iff)
  then have "1024 \<le> S" by (simp add: dvd_imp_le)
  have rows: "unat rows = S * 8 div r"
    using rows_per_bank_word [OF assms(1)] by (simp add: rows_def S_def r_def)
  have exact: "unat rows * r = S * 8"
    using r S(1) by (auto simp: rows elim!: dvdE)
  have ge: "1024 \<le> unat rows" and le: "unat rows < 2 ^ 19"
    using r \<open>1024 \<le> S\<close> S(2) by (auto simp: rows)
  then have nz: "rows \<noteq> 0" by auto
  have bits: "dimm_row_bits dd = log2_loop rows 0"
    unfolding dimm_row_bits_def Let_def rows_def [symmetric] using nz by simp
  note b = log2_loop0_bounds [OF nz, folded bits]
  have "2 ^ dimm_row_bits dd * r \<le> unat rows * r" using b(1) by (rule mult_right_mono) simp
  then show "2 ^ dimm_row_bits dd * unat (dimm_ranks dd) \<le> unat (dimm_size_mb dd) * 8"
    using exact unfolding S_def r_def by linarith
  have "unat rows * r < 2 ^ Suc (dimm_row_bits dd) * r"
    using b(2) r by (intro mult_strict_right_mono) auto
  then show "unat (dimm_size_mb dd) * 8 < 2 ^ Suc (dimm_row_bits dd) * unat (dimm_ranks dd)"
    using exact unfolding S_def r_def by linarith
  have "(2::nat) ^ 10 < 2 ^ Suc (dimm_row_bits dd)" using ge b(2) by simp
  then have "10 < Suc (dimm_row_bits dd)" by (rule power_less_imp_less_exp [rotated]) simp
  then show "10 \<le> dimm_row_bits dd" by simp
  have "(2::nat) ^ dimm_row_bits dd < 2 ^ 19" using le b(1) by linarith
  then show "dimm_row_bits dd \<le> 18" by (simp only: power_strict_increasing_iff)
qed

lemma config_row_bits_range:
  assumes "mc_wf mc"
  shows "10 \<le> config_row_bits (Some mc)" "config_row_bits (Some mc) \<le> 18"
  using first_dimm_wf [OF assms] dimm_row_bits_geometry(3,4)
  by (metis config_row_bits_def option.simps(5))+

text \<open>The row width of every configuration read from the registers is between 10 and 18 bits, and
  it is the largest width that the first populated DIMM's capacity holds: \<open>2\<close> to the row
  bits, times 16 banks of 8 KiB rows on each rank, is at most the size of the DIMM and more than
  half of it.\<close>

theorem config_row_bits_geometry:
  assumes "mc_wf mc" "first_dimm mc = Some dd"
  shows "10 \<le> config_row_bits (Some mc) \<and> config_row_bits (Some mc) \<le> 18 \<and>
    2 ^ config_row_bits (Some mc) * (16 * 8192) * unat (dimm_ranks dd)
      \<le> unat (dimm_size_mb dd) * 2 ^ 20 \<and>
    unat (dimm_size_mb dd) * 2 ^ 20
      < 2 * (2 ^ config_row_bits (Some mc) * (16 * 8192) * unat (dimm_ranks dd))"
proof -
  from assms have dd: "dimm_wf dd" "dimm_populated dd"
    using first_dimm_wf [OF assms(1)] by auto
  have "config_row_bits (Some mc) = dimm_row_bits dd"
    by (simp add: config_row_bits_def assms(2))
  then show ?thesis using dimm_row_bits_geometry [OF dd] by (simp add: mult_ac)
qed

theorem config_row_bits_geometry_witness:
  "config_row_bits (fst (cfl_skl_config (a1990_hw 0x410) blank_imc)) = 17 \<and>
   config_row_bits (fst (cfl_skl_config (a1990_hw 0x410) blank_imc)) \<le> 18"
proof -
  have wf: "mc_wf (the (fst (cfl_skl_config (a1990_hw 0x410) blank_imc)))"
    by (simp add: a1990_config mc_wf_def decode_mad_dimm_def mad_dimm_def)
  have dd: "first_dimm (the (fst (cfl_skl_config (a1990_hw 0x410) blank_imc))) =
      Some (mad_dimm 0x410 0 8 (push_bit 10 1))"
    by (simp add: a1990_config first_dimm_def decode_mad_dimm_def mad_dimm_def)
  show ?thesis
    using config_row_bits_geometry [OF wf dd]
    by (simp add: a1990_config config_row_bits_def first_dimm_def decode_mad_dimm_def mad_dimm_def
        dimm_row_bits_def log2_loop.simps)
qed

section \<open>On a configuration that is read\<close>

definition imc_ready :: "mc_config \<Rightarrow> 'p imc_state \<Rightarrow> bool" where
  "imc_ready mc st \<longleftrightarrow> g_config_cached st \<and> g_config st = mc \<and> mc_wf mc"

lemma imc_ready_config: "imc_ready mc st \<Longrightarrow> cfl_skl_config hw st = (Some mc, st)"
  by (simp add: imc_ready_def cfl_skl_config_def mc_wf_def)

lemma cfl_skl_config_ready:
  "imc_inv st \<Longrightarrow> cfl_skl_config hw st = (Some mc, st') \<Longrightarrow> imc_ready mc st'"
  using config_keeps_inv [of st hw]
  by (auto simp: imc_ready_def cfl_skl_config_def Let_def split: if_splits prod.splits)

lemma imc_ready_ops:
  assumes "imc_ready mc st"
  shows "cfl_skl_row_bits hw st = (config_row_bits (Some mc), st)"
    "cfl_skl_total_memory hw st = (config_total_memory mc, st)"
    "cfl_skl_decode_pa hw pa st = (config_decode_pa mc (config_row_bits (Some mc)) pa, st)"
  using imc_ready_config [OF assms]
  by (simp_all add: cfl_skl_row_bits_def cfl_skl_total_memory_def cfl_skl_decode_pa_def)

lemma page_aligned_total_memory: "page_aligned (config_total_memory mc)"
proof -
  have mb: "page_aligned (x * 1024 * 1024)" for x
    using page_aligned_mult [of 1048576 x] by (simp add: page_aligned_def mult.assoc)
  have dimms: "page_aligned t \<Longrightarrow> page_aligned (fold (\<lambda>d total.
      if \<not> dimm_populated d then total else total + ucast (dimm_size_mb d) * 1024 * 1024) ds t)"
    for t and ds :: "mc_dimm list"
    by (induction ds arbitrary: t) (simp_all add: page_aligned_add mb [simplified])
  have "page_aligned t \<Longrightarrow> page_aligned (fold (\<lambda>c total. if \<not> chan_populated c then total
      else fold (\<lambda>d total. if \<not> dimm_populated d then total
              else total + ucast (dimm_size_mb d) * 1024 * 1024) (chan_dimm c) total) cs t)"
    for t and cs :: "mc_channel list"
    by (induction cs arbitrary: t) (simp_all add: dimms)
  then show ?thesis by (simp add: config_total_memory_def)
qed

definition row_pages :: "mc_config \<Rightarrow> u8 \<Rightarrow> u8 \<Rightarrow> u8 \<Rightarrow> u8 \<Rightarrow> u32 \<Rightarrow> u64 list" where
  "row_pages mc chan rank bg bank row =
     filter (\<lambda>pa. row_hit chan rank bg bank row
               (config_decode_pa mc (config_row_bits (Some mc)) pa))
       (pages_between 0 (config_total_memory mc))"

lemma enumerate_row_ready:
  assumes "imc_ready mc st"
  shows "cfl_skl_enumerate_row hw chan rank bg bank row True cap st =
    Some (take cap (row_pages mc chan rank bg bank row), st)"
proof (cases "config_total_memory mc = 0 \<or> cap = 0")
  case True
  then show ?thesis
    using imc_ready_ops(2) [OF assms, of hw] pages_between_Nil [of 0 "0 :: u64"]
    by (auto simp: cfl_skl_enumerate_row_def row_pages_def)
next
  case False
  let ?hit = "\<lambda>pa. row_hit chan rank bg bank row
    (config_decode_pa mc (config_row_bits (Some mc)) pa)"
  let ?body = "\<lambda>pa (out, st). case cfl_skl_decode_pa hw pa st of (d, st) \<Rightarrow>
    if row_hit chan rank bg bank row d then (out @ [pa], st) else (out, st)"
  have body: "fold_while (\<lambda>(out, st). length out < cap) ?body ps (out, st) =
      fold_while (\<lambda>(out, st). length out < cap)
        (\<lambda>pa (out, st). if ?hit pa then (out @ [pa], st) else (out, st)) ps (out, st)" for ps out
    by (induction ps arbitrary: out) (auto simp: imc_ready_ops(3) [OF assms])
  show ?thesis
    using False imc_ready_ops(2) [OF assms, of hw]
    by (auto simp: cfl_skl_enumerate_row_def page_loop_eq page_aligned_total_memory body
        fold_while_collect_st row_pages_def)
qed

section \<open>What a decoded address tells\<close>

lemma bit_at_of_bool: "bit_at pa n = of_bool (bit pa n)"
  by (cases "bit pa n") (simp_all add: bit_at_def and_1_bit bit_drop_bit_eq)

lemma of_bool_xor: "of_bool a XOR of_bool b = (of_bool (a \<noteq> b) :: u32)"
  by (cases a; cases b) simp_all

text \<open>Two address bits packed into a field of two bits.\<close>

definition two_bits :: "bool \<Rightarrow> bool \<Rightarrow> u8" where
  "two_bits x y = (if x then 1 else 0) + (if y then 2 else 0)"

lemma two_bits_pack: "ucast (of_bool x OR push_bit 1 (of_bool y) :: u32) = two_bits x y"
  by (cases x; cases y) (simp_all add: two_bits_def)

lemma two_bits_eq [simp]: "two_bits x y = two_bits x' y' \<longleftrightarrow> x = x' \<and> y = y'"
  by (cases x; cases y; cases x'; cases y') (simp_all add: two_bits_def)

lemma two_bits_less [simp]: "two_bits x y < 4"
  by (cases x; cases y) (simp_all add: two_bits_def)

definition bg1_parity :: "u64 \<Rightarrow> bool" where
  "bg1_parity pa \<longleftrightarrow>
     bit pa 8 \<noteq> (bit pa 9 \<noteq> (bit pa 12 \<noteq> (bit pa 13 \<noteq> (bit pa 18 \<noteq> bit pa 19))))"

lemma config_decode_pa_fields:
  "d_valid (config_decode_pa mc rb pa)"
  "d_bank_row_valid (config_decode_pa mc rb pa)"
  "d_channel (config_decode_pa mc rb pa) = cfl_skl_decode_channel pa mc"
  "d_bank_group (config_decode_pa mc rb pa) =
     two_bits (bit pa 7 \<noteq> bit pa 14)
       (bg1_parity pa)"
  "d_bank (config_decode_pa mc rb pa) =
     two_bits (bit pa 15 \<noteq> bit pa 18) (bit pa 16 \<noteq> bit pa 19)"
  "d_col (config_decode_pa mc rb pa) = ucast (take_bit 10 (drop_bit 6 pa))"
  "0 < rb \<Longrightarrow> rb \<le> 20 \<Longrightarrow>
     d_row (config_decode_pa mc rb pa) = ucast (take_bit rb (drop_bit 18 pa))"
proof -
  have col: "drop_bit 6 pa AND 0x3FF = take_bit 10 (drop_bit 6 pa)"
    by (simp add: take_bit_eq_mask mask_eq_exp_minus_1)
  have row: "x AND (2 ^ rb - 1) = take_bit rb x" for x :: u64
    by (simp add: take_bit_eq_mask mask_eq_exp_minus_1)
  note defs = config_decode_pa_def cfl_skl_decode_bank_row_col_def no_decode_def Let_def
  show "d_valid (config_decode_pa mc rb pa)" "d_bank_row_valid (config_decode_pa mc rb pa)"
    "d_channel (config_decode_pa mc rb pa) = cfl_skl_decode_channel pa mc"
    by (simp_all add: defs split: prod.split)
  have bg: "ucast ((bit_at pa 7 XOR bit_at pa 14) OR
      push_bit 1 (bit_at pa 8 XOR bit_at pa 9 XOR bit_at pa 12 XOR bit_at pa 13 XOR
                  bit_at pa 18 XOR bit_at pa 19)) =
    two_bits (bit pa 7 \<noteq> bit pa 14) (bg1_parity pa)"
    by (simp only: bit_at_of_bool of_bool_xor two_bits_pack bg1_parity_def)
  have ba: "ucast ((bit_at pa 15 XOR bit_at pa 18) OR push_bit 1 (bit_at pa 16 XOR bit_at pa 19)) =
    two_bits (bit pa 15 \<noteq> bit pa 18) (bit pa 16 \<noteq> bit pa 19)"
    by (simp only: bit_at_of_bool of_bool_xor two_bits_pack)
  show "d_bank_group (config_decode_pa mc rb pa) = two_bits (bit pa 7 \<noteq> bit pa 14)
      (bg1_parity pa)"
    unfolding bg [symmetric] by (simp add: defs split: prod.split)
  show "d_bank (config_decode_pa mc rb pa) =
      two_bits (bit pa 15 \<noteq> bit pa 18) (bit pa 16 \<noteq> bit pa 19)"
    unfolding ba [symmetric] by (simp add: defs split: prod.split)
  show "d_col (config_decode_pa mc rb pa) = ucast (take_bit 10 (drop_bit 6 pa))"
    by (simp add: defs col split: prod.split)
  show "0 < rb \<Longrightarrow> rb \<le> 20 \<Longrightarrow>
      d_row (config_decode_pa mc rb pa) = ucast (take_bit rb (drop_bit 18 pa))"
    by (simp add: defs row split: prod.split)
qed

lemma enumerate_row_take:
  assumes "imc_inv st" "cfl_skl_config hw st = (Some mc, st')"
  shows "cfl_skl_enumerate_row hw chan rank bg bank row True cap st =
    Some (take cap (row_pages mc chan rank bg bank row), st')"
proof -
  note ready = cfl_skl_config_ready [OF assms]
  have "cfl_skl_total_memory hw st = cfl_skl_total_memory hw st'"
    using assms(2) imc_ready_config [OF ready, of hw] by (simp add: cfl_skl_total_memory_def)
  then have "cfl_skl_enumerate_row hw chan rank bg bank row True cap st =
      cfl_skl_enumerate_row hw chan rank bg bank row True cap st'"
    by (simp add: cfl_skl_enumerate_row_def)
  then show ?thesis by (simp add: enumerate_row_ready [OF ready])
qed

text \<open>C25: from any state of the module that yields a configuration, the row enumeration returns, in
  ascending order, the first \<open>cap\<close> page addresses of the installed memory whose decoding passes
  the row filter; the configuration is read at most once.\<close>

theorem cfl_skl_enumerate_row_pages:
  assumes "imc_inv st" "cfl_skl_config hw st = (Some mc, st')"
  shows "cfl_skl_enumerate_row hw chan rank bg bank row True cap st =
    Some (take cap (filter (\<lambda>pa. row_hit chan rank bg bank row (fst (cfl_skl_decode_pa hw pa st')))
                      (pages_between 0 (config_total_memory mc))), st')"
  by (simp add: enumerate_row_take [OF assms] row_pages_def imc_ready_ops(3) [OF cfl_skl_config_ready [OF assms]])

text \<open>What a client of an enumeration relies on, for both implementations: on a state it accepts, the
  enumeration of a key returns the first \<open>cap\<close> pages of an ascending list of hits.\<close>

locale row_enumerator =
  fixes ok :: "'s \<Rightarrow> bool"
    and enum :: "'s \<Rightarrow> 'k \<Rightarrow> nat \<Rightarrow> u64 list option"
    and hits :: "'s \<Rightarrow> 'k \<Rightarrow> u64 list"
  assumes enum_take: "ok s \<Longrightarrow> enum s k cap = Some (take cap (hits s k))"
    and hits_sorted: "ok s \<Longrightarrow> sorted_wrt (<) (hits s k)"
begin

lemma returns: "ok s \<Longrightarrow> \<exists>ps. enum s k cap = Some ps \<and> length ps \<le> cap"
  by (simp add: enum_take)

lemma ascending: "ok s \<Longrightarrow> enum s k cap = Some ps \<Longrightarrow> sorted_wrt (<) ps"
  by (auto simp: enum_take hits_sorted sorted_wrt_take)

lemma complete: "ok s \<Longrightarrow> enum s k cap = Some ps \<Longrightarrow> length ps < cap \<Longrightarrow> ps = hits s k"
  by (auto simp: enum_take)

lemma sound: "ok s \<Longrightarrow> enum s k cap = Some ps \<Longrightarrow> set ps \<subseteq> set (hits s k)"
  by (auto simp: enum_take dest: in_set_takeD)

end

lemma sorted_row_pages: "sorted_wrt (<) (row_pages mc chan rank bg bank row)"
  by (simp add: row_pages_def sorted_wrt_filter sorted_pages_between page_aligned_total_memory)

interpretation memtest_rows: row_enumerator
  "\<lambda>(hw, st). imc_inv st \<and> fst (cfl_skl_config hw st) \<noteq> None"
  "\<lambda>(hw, st) (chan, rank, bg, bank, row) cap.
     map_option fst (cfl_skl_enumerate_row hw chan rank bg bank row True cap st)"
  "\<lambda>(hw, st) (chan, rank, bg, bank, row).
     row_pages (the (fst (cfl_skl_config hw st))) chan rank bg bank row"
proof unfold_locales
  fix s :: "'p hardware \<times> 'p imc_state" and k :: "u8 \<times> u8 \<times> u8 \<times> u8 \<times> u32" and cap
  obtain hw st where s: "s = (hw, st)" by fastforce
  obtain chan rank bg bank row where k: "k = (chan, rank, bg, bank, row)" by (cases k)
  assume "case s of (hw, st) \<Rightarrow> imc_inv st \<and> fst (cfl_skl_config hw st) \<noteq> None"
  then obtain mc st' where inv: "imc_inv st" and conf: "cfl_skl_config hw st = (Some mc, st')"
    by (auto simp: s prod_eq_iff)
  show "(case s of (hw, st) \<Rightarrow> \<lambda>(chan, rank, bg, bank, row) cap.
      map_option fst (cfl_skl_enumerate_row hw chan rank bg bank row True cap st)) k cap =
    Some (take cap ((case s of (hw, st) \<Rightarrow> \<lambda>(chan, rank, bg, bank, row).
      row_pages (the (fst (cfl_skl_config hw st))) chan rank bg bank row) k))"
    by (simp add: s k conf enumerate_row_take [OF inv conf])
  show "sorted_wrt (<) ((case s of (hw, st) \<Rightarrow> \<lambda>(chan, rank, bg, bank, row).
      row_pages (the (fst (cfl_skl_config hw st))) chan rank bg bank row) k)"
    by (simp add: s k sorted_row_pages)
qed

text \<open>Within a page only the address bits 6 to 11 vary: bank and row are those of the page, the
  bank group is not where bit 7 is set or bits 8 and 9 differ.\<close>

lemma bit_page_mask: "bit (pa AND PAGE_MASK) n \<longleftrightarrow> bit pa n \<and> 12 \<le> n"
  by (auto simp: PAGE_MASK_mask bit_simps dest: bit_imp_le_length)

lemma page_base_bank_row:
  assumes "0 < rb" "rb \<le> 20"
  shows "d_bank (config_decode_pa mc rb (pa AND PAGE_MASK)) = d_bank (config_decode_pa mc rb pa)"
    "d_row (config_decode_pa mc rb (pa AND PAGE_MASK)) = d_row (config_decode_pa mc rb pa)"
proof -
  show "d_bank (config_decode_pa mc rb (pa AND PAGE_MASK)) = d_bank (config_decode_pa mc rb pa)"
    by (simp add: config_decode_pa_fields bit_page_mask)
  have "drop_bit 18 (pa AND PAGE_MASK) = drop_bit 18 pa"
    by (rule bit_word_eqI) (simp only: bit_drop_bit_eq bit_page_mask o_apply, simp)
  then show "d_row (config_decode_pa mc rb (pa AND PAGE_MASK)) = d_row (config_decode_pa mc rb pa)"
    by (simp add: config_decode_pa_fields assms)
qed

lemma page_base_bank_group:
  "d_bank_group (config_decode_pa mc rb (pa AND PAGE_MASK)) = d_bank_group (config_decode_pa mc rb pa)
     \<longleftrightarrow> \<not> bit pa 7 \<and> (bit pa 8 \<longleftrightarrow> bit pa 9)"
  unfolding config_decode_pa_fields two_bits_eq bg1_parity_def bit_page_mask
  by simp blast

text \<open>Without the channel hash the channel is address bit 6, which is 0 in a page address.\<close>

lemma page_base_channel:
  assumes "page_aligned a" "mc_channels_populated mc \<noteq> 1" "mc_chan_hash mc AND 1 = 0"
  shows "cfl_skl_decode_channel a mc = 0"
proof -
  have "\<not> bit a 6" using bit_page_mask [of a 6] page_mask_aligned [OF assms(1)] by simp
  then have "drop_bit 6 a AND 1 = 0" by (simp add: and_1_bit bit_drop_bit_eq)
  then show ?thesis by (simp add: cfl_skl_decode_channel_def assms(2,3))
qed

lemma set_row_pages:
  "p \<in> set (row_pages mc chan rank bg bank row) \<longleftrightarrow>
     page_aligned p \<and> p < config_total_memory mc \<and>
     row_hit chan rank bg bank row (config_decode_pa mc (config_row_bits (Some mc)) p)"
  using set_pages_between [of 0 "config_total_memory mc" p]
  by (auto simp: row_pages_def page_aligned_total_memory)

text \<open>
  A page is known from its decoding, its bits 12 and 17, and the block of \<open>2\<close> to the \<open>18 + rb\<close>
  bytes it lies in: bits 13 to 16 follow from bank and bank group, the bits from 18 on from the row.
\<close>

lemma page_of_row_determined:
  assumes "0 < rb" "rb \<le> 20" "page_aligned p" "page_aligned q"
    and bg: "d_bank_group (config_decode_pa mc rb p) = d_bank_group (config_decode_pa mc rb q)"
    and bank: "d_bank (config_decode_pa mc rb p) = d_bank (config_decode_pa mc rb q)"
    and row: "d_row (config_decode_pa mc rb p) = d_row (config_decode_pa mc rb q)"
    and free: "bit p 12 = bit q 12" "bit p 17 = bit q 17"
    and block: "drop_bit (18 + rb) p = drop_bit (18 + rb) q"
  shows "p = q"
proof (rule bit_word_eqI)
  fix n assume "n < LENGTH(64)"
  have low: "\<not> bit p i" "\<not> bit q i" if "i < 12" for i
    using that bit_page_mask [of p i] bit_page_mask [of q i] page_mask_aligned [OF assms(3)]
      page_mask_aligned [OF assms(4)] by auto
  have high: "bit p i = bit q i" if "18 \<le> i" for i
  proof (cases "i < 18 + rb")
    case True
    have "bit (ucast (take_bit rb (drop_bit 18 p)) :: u32) (i - 18) =
        bit (ucast (take_bit rb (drop_bit 18 q)) :: u32) (i - 18)"
      using row by (simp add: config_decode_pa_fields(7) [OF assms(1,2)])
    moreover have "i - 18 < rb" "i - 18 < 32" using True that assms(2) by auto
    ultimately show ?thesis using that by (simp add: bit_unsigned_iff bit_take_bit_iff bit_drop_bit_eq)
  next
    case False
    then have "bit (drop_bit (18 + rb) p) (i - (18 + rb)) = bit (drop_bit (18 + rb) q) (i - (18 + rb))"
      by (simp add: block)
    then show ?thesis using False by (simp add: bit_drop_bit_eq)
  qed
  have mid: "bit p 14 = bit q 14" "bit p 13 = bit q 13" "bit p 15 = bit q 15" "bit p 16 = bit q 16"
    using bg bank low [of 7] low [of 8] low [of 9] high [of 18] high [of 19] free(1)
    by (auto simp: config_decode_pa_fields(4,5) bg1_parity_def)
  consider "n < 12" | "n = 12" | "n = 13" | "n = 14" | "n = 15" | "n = 16" | "n = 17" | "18 \<le> n" by linarith
  then show "bit p n = bit q n" using low high mid free by cases auto
qed

lemma row_hit_fields:
  "row_hit chan rank bg bank row d \<Longrightarrow> d_bank_group d = bg \<and> d_bank d = bank \<and> d_row d = row"
  by (simp add: row_hit_def split: if_splits)

text \<open>So a row has at most four pages in every block.\<close>

lemma length_row_pages:
  assumes "mc_wf mc" "unat (config_total_memory mc) \<le> blocks * 2 ^ (18 + config_row_bits (Some mc))"
  shows "length (row_pages mc chan rank bg bank row) \<le> 4 * blocks"
proof -
  define rb where "rb = config_row_bits (Some mc)"
  have rb: "0 < rb" "rb \<le> 20" using config_row_bits_range [OF assms(1)] by (simp_all add: rb_def)
  let ?ps = "row_pages mc chan rank bg bank row"
  let ?f = "\<lambda>p. (bit p 12, bit p 17, unat p div 2 ^ (18 + rb))"
  have inj: "inj_on ?f (set ?ps)"
  proof (rule inj_onI)
    fix p q assume "p \<in> set ?ps" "q \<in> set ?ps" and eq: "?f p = ?f q"
    then have al: "page_aligned p" "page_aligned q"
      and hit: "row_hit chan rank bg bank row (config_decode_pa mc rb p)"
        "row_hit chan rank bg bank row (config_decode_pa mc rb q)"
      by (simp_all add: set_row_pages rb_def)
    have block: "drop_bit (18 + rb) p = drop_bit (18 + rb) q"
      using eq by (simp add: word_unat_eq_iff unat_drop_bit_eq) (simp add: drop_bit_eq_div)
    from hit [THEN row_hit_fields] eq show "p = q"
      by (intro page_of_row_determined [OF rb al _ _ _ _ _ block, of mc]) simp_all
  qed
  have "?f ` set ?ps \<subseteq> UNIV \<times> UNIV \<times> {..<blocks}"
  proof -
    have "unat p div 2 ^ (18 + rb) < blocks" if "p \<in> set ?ps" for p
    proof -
      have "unat p < unat (config_total_memory mc)" using that by (simp add: set_row_pages word_less_nat_alt)
      then show ?thesis using assms(2) unfolding rb_def by (intro less_mult_imp_div_less) linarith
    qed
    then show ?thesis by blast
  qed
  from card_inj_on_le [OF inj this] have "card (set ?ps) \<le> card ((UNIV :: bool set) \<times> (UNIV :: bool set) \<times> {..<blocks})"
    by simp
  moreover have "distinct ?ps" by (simp add: row_pages_def distinct_pages_between page_aligned_total_memory)
  ultimately show ?thesis by (simp add: distinct_card card_cartesian_product card_UNIV_bool)
qed

text \<open>C28: no page of a row is missed for want of room: every block of \<open>2\<close> to the (18 + row bits) bytes holds at
  most four pages of a row, so that an enumeration with room for four pages in each block of the
  installed memory returns all of them, whichever row is asked for.\<close>

theorem enumerate_row_complete:
  assumes "imc_inv st" "cfl_skl_config hw st = (Some mc, st')"
    and "unat (config_total_memory mc) \<le> blocks * 2 ^ (18 + config_row_bits (Some mc))" "4 * blocks \<le> cap"
  shows "\<exists>pages. cfl_skl_enumerate_row hw chan rank bg bank row True cap st = Some (pages, st') \<and>
    length pages \<le> 4 * blocks \<and>
    (\<forall>p. p \<in> set pages \<longleftrightarrow> page_aligned p \<and> p < config_total_memory mc \<and>
       row_hit chan rank bg bank row (fst (cfl_skl_decode_pa hw p st')))"
proof -
  note ready = cfl_skl_config_ready [OF assms(1,2)]
  then have "length (row_pages mc chan rank bg bank row) \<le> 4 * blocks"
    using length_row_pages [OF _ assms(3)] by (simp add: imc_ready_def)
  then show ?thesis
    using assms(4) by (simp add: enumerate_row_take [OF assms(1,2)] set_row_pages imc_ready_ops(3) [OF ready])
qed

text \<open>C31: whether the pages enumerated for the row of an address contain the page of that address. The
  walk looks at page addresses only, so an address whose channel, rank or bank group differs
  from that of its page is missed: with bit 7 set, or bits 8 and 9 different, always.\<close>

theorem enumerate_row_own_page:
  assumes inv: "imc_inv st" and conf: "cfl_skl_config hw st = (Some mc, st')"
    and pa: "pa < config_total_memory mc"
    and d: "d = fst (cfl_skl_decode_pa hw pa st')"
    and b: "b = fst (cfl_skl_decode_pa hw (pa AND PAGE_MASK) st')"
    and enum: "cfl_skl_enumerate_row hw (d_channel d) (d_rank d) (d_bank_group d) (d_bank d)
      (d_row d) True cap st = Some (pages, st'')"
    and room: "length pages < cap"
  shows "pa AND PAGE_MASK \<in> set pages \<longleftrightarrow>
    \<not> bit pa 7 \<and> (bit pa 8 \<longleftrightarrow> bit pa 9) \<and> d_channel b = d_channel d \<and>
    (d_rank_valid b \<longrightarrow> d_rank b = d_rank d)"
proof -
  define rb where "rb = config_row_bits (Some mc)"
  note ready = cfl_skl_config_ready [OF inv conf]
  then have rb: "0 < rb" "rb \<le> 20"
    using config_row_bits_range [of mc] by (auto simp: imc_ready_def rb_def)
  have db: "d = config_decode_pa mc rb pa" "b = config_decode_pa mc rb (pa AND PAGE_MASK)"
    by (simp_all add: d b imc_ready_ops(3) [OF ready] rb_def)
  let ?row = "row_pages mc (d_channel d) (d_rank d) (d_bank_group d) (d_bank d) (d_row d)"
  have "pages = take cap ?row"
    using enum by (simp add: enumerate_row_take [OF inv conf])
  with room have "pages = ?row" by simp
  moreover have "pa AND PAGE_MASK < config_total_memory mc"
    using pa page_mask_le [of pa] by simp
  ultimately show ?thesis
    using page_base_bank_row [OF rb, of mc pa] page_base_bank_group [of mc rb pa]
    by (simp add: set_row_pages row_hit_def db config_decode_pa_fields(1,2) flip: rb_def)
qed

definition a1990_mc :: mc_config where
  "a1990_mc = the (fst (cfl_skl_config (a1990_hw 0x410) blank_imc))"

lemma a1990_read:
  "cfl_skl_config (a1990_hw 0x410) blank_imc =
     (Some a1990_mc, snd (cfl_skl_config (a1990_hw 0x410) blank_imc))"
  by (simp add: a1990_mc_def a1990_config prod_eq_iff)

lemma a1990_total: "config_total_memory a1990_mc = 0x800000000"
  by (simp add: a1990_mc_def a1990_config config_total_memory_def decode_mad_dimm_def mad_dimm_def)

lemma a1990_row_bits: "config_row_bits (Some a1990_mc) = 17"
  by (simp add: a1990_mc_def a1990_config config_row_bits_def first_dimm_def decode_mad_dimm_def
      mad_dimm_def dimm_row_bits_def log2_loop.simps)

theorem cfl_skl_enumerate_row_pages_witness:
  "cfl_skl_enumerate_row (a1990_hw 0x410) 0 0 0 0 0 True 1 blank_imc =
    Some ([0], snd (cfl_skl_config (a1990_hw 0x410) blank_imc))"
proof -
  note ops = imc_ready_ops(3) [OF cfl_skl_config_ready [OF imc_inv_blank a1990_read]]
  have "row_hit 0 0 0 0 0 (config_decode_pa a1990_mc 17 0)"
    by (simp add: config_decode_pa_def cfl_skl_decode_channel_def cfl_skl_decode_rank_def
        a1990_mc_def a1990_config channel_max_ranks_def decode_mad_dimm_def mad_dimm_def
        no_decode_def cfl_skl_decode_bank_row_col_def bit_at_def row_hit_def)
  then have "fst (cfl_skl_decode_pa (a1990_hw 0x410) 0
      (snd (cfl_skl_config (a1990_hw 0x410) blank_imc))) = config_decode_pa a1990_mc 17 0"
    "row_hit 0 0 0 0 0 (config_decode_pa a1990_mc 17 0)"
    by (simp_all only: ops a1990_row_bits fst_conv)
  moreover have "pages_between 0 (config_total_memory a1990_mc) =
      0 # pages_between (0 + 4096) (config_total_memory a1990_mc)"
    by (rule pages_between_Cons) (simp_all add: a1990_total page_aligned_def)
  ultimately show ?thesis
    unfolding cfl_skl_enumerate_row_pages [OF imc_inv_blank a1990_read]
    by (simp only: filter.simps if_True take_Suc_Cons take_0 One_nat_def)
qed

lemma a1990_decode_80:
  "fst (cfl_skl_decode_pa (a1990_hw 0x410) 0x80 (snd (cfl_skl_config (a1990_hw 0x410) blank_imc))) =
    \<lparr>d_valid = True, d_channel = 0, d_rank = 0, d_rank_valid = True, d_rank_speculative = False,
     d_bank_group = 1, d_bank = 0, d_row = 0, d_col = 2, d_bank_row_valid = True,
     d_bank_row_speculative = True\<rparr>"
  by (simp add: imc_ready_ops(3) [OF cfl_skl_config_ready [OF imc_inv_blank a1990_read]]
      a1990_row_bits)
    (simp add: config_decode_pa_def cfl_skl_decode_channel_def cfl_skl_decode_rank_def a1990_mc_def
      a1990_config channel_max_ranks_def decode_mad_dimm_def mad_dimm_def no_decode_def
      cfl_skl_decode_bank_row_col_def bit_at_def)

lemma bit_0x80: "bit (0x80 :: u64) 7"
  by simp

theorem enumerate_row_own_page_witness:
  "\<exists>pages st. cfl_skl_enumerate_row (a1990_hw 0x410) 0 0 1 0 0 True 0x800001 blank_imc =
      Some (pages, st) \<and> 0x80 AND PAGE_MASK \<notin> set pages"
proof -
  define pages where "pages = take 0x800001 (row_pages a1990_mc 0 0 1 0 0)"
  have enum: "cfl_skl_enumerate_row (a1990_hw 0x410) 0 0 1 0 0 True 0x800001 blank_imc =
      Some (pages, snd (cfl_skl_config (a1990_hw 0x410) blank_imc))"
    unfolding pages_def by (rule enumerate_row_take [OF imc_inv_blank a1990_read])
  have "length pages \<le> length (pages_between 0 (config_total_memory a1990_mc))"
    unfolding pages_def length_take row_pages_def by (rule min.coboundedI1 [OF length_filter_le])
  also have "\<dots> = 0x800000" unfolding length_pages_between a1990_total by simp
  finally have room: "length pages < 0x800001" by linarith
  have "0x80 < config_total_memory a1990_mc" unfolding a1990_total by simp
  from enumerate_row_own_page [OF imc_inv_blank a1990_read this refl refl _ room]
  have "0x80 AND PAGE_MASK \<notin> set pages"
    unfolding a1990_decode_80 pa_decoded.simps
    using enum by (metis bit_0x80)
  with enum show ?thesis by blast
qed

theorem enumerate_row_complete_witness:
  "\<exists>pages st. cfl_skl_enumerate_row (a1990_hw 0x410) 0 0 0 0 0 True 2048 blank_imc = Some (pages, st) \<and>
    length pages \<le> 4"
proof -
  have "unat (config_total_memory a1990_mc) \<le> 1 * 2 ^ (18 + config_row_bits (Some a1990_mc))"
    by (simp add: a1990_total a1990_row_bits)
  from enumerate_row_complete [OF imc_inv_blank a1990_read this, of 2048] show ?thesis by fastforce
qed

end
