(* ===== verification/Imc_Dispatch.thy ===== *)
theory Imc_Dispatch
  imports Imc_Decode
begin

text \<open>
  \<^verbatim>\<open>src/imc_dispatch.c\<close>: the table of memory-controller families, the cached choice of the
  active one, and the wrappers that forward to it. A family is a record of its operations over
  the module state \<open>'s\<close>; an entry that may be NULL is an option. The register dumps of
  \<^verbatim>\<open>src/imc/cfl_skl_kbl.c\<close> come first; a dump is the rows it prints.
\<close>

section \<open>The register dumps\<close>

text \<open>An offset and the four registers from there on.\<close>

type_synonym dump_row = "u32 \<times> u32 list"

definition mchbar_row :: "'p hardware \<Rightarrow> u64 \<Rightarrow> u32 \<Rightarrow> dump_row" where
  "mchbar_row hw mch off = (off, map (\<lambda>k. mch_read32 hw mch (ucast off + k)) [0, 4, 8, 12])"

function mchbar_rows :: "'p hardware \<Rightarrow> u64 \<Rightarrow> u32 \<Rightarrow> dump_row list" where
  "mchbar_rows hw mch off =
     (if off < 0x5100 then mchbar_row hw mch off # mchbar_rows hw mch (off + 16) else [])"
  by pat_completeness auto
termination
  by (relation "measure (\<lambda>(_, _, off). 0x5100 - unat off)")
    (auto simp: word_less_nat_alt unat_word_ariths)

function mchbar_rows_at :: "'p hardware \<Rightarrow> u64 \<Rightarrow> u32 \<Rightarrow> int \<Rightarrow> int \<Rightarrow> (int \<times> dump_row) list" where
  "mchbar_rows_at hw mch off r row_last =
     (if off < 0x5100 \<and> r \<le> row_last
      then (r, mchbar_row hw mch off) # mchbar_rows_at hw mch (off + 16) (r + 1) row_last else [])"
  by pat_completeness auto
termination
  by (relation "measure (\<lambda>(_, _, off, _, _). 0x5100 - unat off)")
    (auto simp: word_less_nat_alt unat_word_ariths)

declare mchbar_rows.simps [simp del] mchbar_rows_at.simps [simp del]

definition cfl_skl_dump_mchbar :: "'p hardware \<Rightarrow> 'p imc_state \<Rightarrow> dump_row list \<times> 'p imc_state" where
  "cfl_skl_dump_mchbar hw st =
     (let (mc, st) = cfl_skl_config hw st in
      case mc of
        None \<Rightarrow> ([], st)
      | Some mc \<Rightarrow>
          let mch = map_region hw (mc_mchbar_base mc) MCHBAR_WINDOW False
          in if mch = 0 then ([], st) else (mchbar_rows hw mch 0x5000, st))"

definition cfl_skl_dump_mchbar_at ::
  "'p hardware \<Rightarrow> int \<Rightarrow> int \<Rightarrow> 'p imc_state \<Rightarrow> (int \<times> dump_row) list \<times> 'p imc_state" where
  "cfl_skl_dump_mchbar_at hw row_first row_last st =
     (let (mc, st) = cfl_skl_config hw st in
      case mc of
        None \<Rightarrow> ([], st)
      | Some mc \<Rightarrow>
          let mch = map_region hw (mc_mchbar_base mc) MCHBAR_WINDOW False
          in if mch = 0 then ([], st) else (mchbar_rows_at hw mch 0x5000 row_first row_last, st))"

section \<open>The table of families\<close>

record 's imc_ops =
  ops_detect :: "bool option"
  ops_config :: "('s \<Rightarrow> mc_config option \<times> 's) option"
  ops_config_refresh :: "('s \<Rightarrow> 's) option"
  ops_decode_pa :: "(u64 \<Rightarrow> 's \<Rightarrow> pa_decoded \<times> 's) option"
  ops_row_bits :: "('s \<Rightarrow> nat \<times> 's) option"
  ops_enumerate_row ::
    "(u8 \<Rightarrow> u8 \<Rightarrow> u8 \<Rightarrow> u8 \<Rightarrow> u32 \<Rightarrow> bool \<Rightarrow> nat \<Rightarrow> 's \<Rightarrow> (u64 list \<times> 's) option) option"
  ops_total_memory :: "('s \<Rightarrow> u64 \<times> 's) option"
  ops_dump_mchbar :: "('s \<Rightarrow> dump_row list \<times> 's) option"
  ops_dump_mchbar_at :: "(int \<Rightarrow> int \<Rightarrow> 's \<Rightarrow> (int \<times> dump_row) list \<times> 's) option"

definition cfl_skl_kbl_ops :: "'p hardware \<Rightarrow> 'p imc_state imc_ops" where
  "cfl_skl_kbl_ops hw =
     \<lparr>ops_detect = Some (cfl_skl_detect hw),
      ops_config = Some (cfl_skl_config hw),
      ops_config_refresh = Some cfl_skl_config_refresh,
      ops_decode_pa = Some (cfl_skl_decode_pa hw),
      ops_row_bits = Some (cfl_skl_row_bits hw),
      ops_enumerate_row = Some (cfl_skl_enumerate_row hw),
      ops_total_memory = Some (cfl_skl_total_memory hw),
      ops_dump_mchbar = Some (cfl_skl_dump_mchbar hw),
      ops_dump_mchbar_at = Some (cfl_skl_dump_mchbar_at hw)\<rparr>"

definition g_families :: "'p hardware \<Rightarrow> 'p imc_state imc_ops list" where
  "g_families hw = [cfl_skl_kbl_ops hw]"

text \<open>The dispatcher's own state, and the state of the families behind it. The active family is its
  index in the table.\<close>

record 's dispatch =
  g_active :: "nat option"
  g_detected :: bool
  family_state :: 's

fun first_detected :: "'s imc_ops list \<Rightarrow> nat \<Rightarrow> nat option" where
  "first_detected [] i = None"
| "first_detected (f # fs) i =
     (if ops_detect f = Some True then Some i else first_detected fs (i + 1))"

definition imc_active :: "'s imc_ops list \<Rightarrow> 's dispatch \<Rightarrow> 's imc_ops option \<times> 's dispatch" where
  "imc_active families ds =
     (let ds = (if g_detected ds then ds
                else ds\<lparr>g_detected := True, g_active := first_detected families 0\<rparr>)
      in (map_option (\<lambda>i. families ! i) (g_active ds), ds))"

definition imc_config :: "'s imc_ops list \<Rightarrow> 's dispatch \<Rightarrow> mc_config option \<times> 's dispatch" where
  "imc_config families ds =
     (let (ops, ds) = imc_active families ds in
      case Option.bind ops ops_config of
        None \<Rightarrow> (None, ds)
      | Some config \<Rightarrow>
          (let (mc, s) = config (family_state ds) in (mc, ds\<lparr>family_state := s\<rparr>)))"

definition imc_decode_pa ::
  "'s imc_ops list \<Rightarrow> u64 \<Rightarrow> 's dispatch \<Rightarrow> pa_decoded \<times> 's dispatch" where
  "imc_decode_pa families pa ds =
     (let (ops, ds) = imc_active families ds in
      case Option.bind ops ops_decode_pa of
        None \<Rightarrow> (no_decode, ds)
      | Some decode \<Rightarrow>
          (let (d, s) = decode pa (family_state ds) in (d, ds\<lparr>family_state := s\<rparr>)))"

definition imc_config_refresh :: "'s imc_ops list \<Rightarrow> 's dispatch \<Rightarrow> 's dispatch" where
  "imc_config_refresh families ds =
     (let (ops, ds) = imc_active families ds in
      case Option.bind ops ops_config_refresh of
        None \<Rightarrow> ds
      | Some refresh \<Rightarrow> ds\<lparr>family_state := refresh (family_state ds)\<rparr>)"

definition imc_dump_mchbar :: "'s imc_ops list \<Rightarrow> 's dispatch \<Rightarrow> dump_row list \<times> 's dispatch" where
  "imc_dump_mchbar families ds =
     (let (ops, ds) = imc_active families ds in
      case Option.bind ops ops_dump_mchbar of
        None \<Rightarrow> ([], ds)
      | Some dump \<Rightarrow> (let (rows, s) = dump (family_state ds) in (rows, ds\<lparr>family_state := s\<rparr>)))"

definition imc_dump_mchbar_at ::
  "'s imc_ops list \<Rightarrow> int \<Rightarrow> int \<Rightarrow> 's dispatch \<Rightarrow> (int \<times> dump_row) list \<times> 's dispatch" where
  "imc_dump_mchbar_at families row_first row_last ds =
     (let (ops, ds) = imc_active families ds in
      case Option.bind ops ops_dump_mchbar_at of
        None \<Rightarrow> ([], ds)
      | Some dump \<Rightarrow>
          (let (rows, s) = dump row_first row_last (family_state ds) in (rows, ds\<lparr>family_state := s\<rparr>)))"

text \<open>A dump between two rows of the screen shows as many of the sixteen lines as there are rows.\<close>

lemma mchbar_rows_at_zip:
  "mchbar_rows_at hw mch off r row_last = zip [r..row_last] (mchbar_rows hw mch off)"
proof (induction hw mch off r row_last rule: mchbar_rows_at.induct)
  case (1 hw mch off r row_last)
  show ?case
  proof (cases "off < 0x5100 \<and> r \<le> row_last")
    case True
    then show ?thesis
      using 1
      by (simp add: mchbar_rows_at.simps [of hw mch off] mchbar_rows.simps [of hw mch off] upto.simps [of r])
  next
    case False
    then show ?thesis
      by (auto simp: mchbar_rows_at.simps [of hw mch off] mchbar_rows.simps [of hw mch off])
  qed
qed

section \<open>Dispatching is forwarding to the detected family\<close>

definition dispatch_inv :: "'s imc_ops list \<Rightarrow> 's dispatch \<Rightarrow> bool" where
  "dispatch_inv families ds \<longleftrightarrow>
     (g_detected ds \<longrightarrow> g_active ds = first_detected families 0)"

lemma first_detected_cfl:
  "first_detected (g_families hw) 0 = (if cfl_skl_detect hw then Some 0 else None)"
  by (simp add: g_families_def cfl_skl_kbl_ops_def)

lemma imc_active_inv:
  "dispatch_inv families ds \<Longrightarrow>
   imc_active families ds =
     (map_option (\<lambda>i. families ! i) (first_detected families 0),
      ds\<lparr>g_detected := True, g_active := first_detected families 0\<rparr>)"
  by (auto simp: imc_active_def dispatch_inv_def Let_def)

lemma imc_active_cfl:
  "dispatch_inv (g_families hw) ds \<Longrightarrow> cfl_skl_detect hw \<Longrightarrow>
   imc_active (g_families hw) ds =
     (Some (cfl_skl_kbl_ops hw), ds\<lparr>g_detected := True, g_active := Some 0\<rparr>)"
  by (simp add: imc_active_inv first_detected_cfl) (simp add: g_families_def)

text \<open>The dispatcher decodes an address exactly as the Coffee Lake family does on that family's
  state where the CPU is one of its models, and as nothing on every other CPU; it keeps the
  choice it made, and touches nothing else.\<close>

theorem imc_decode_pa_forwards:
  assumes "dispatch_inv (g_families hw) ds"
  shows "imc_decode_pa (g_families hw) pa ds =
    (if cfl_skl_detect hw
     then (fst (cfl_skl_decode_pa hw pa (family_state ds)),
           ds\<lparr>g_detected := True, g_active := Some 0,
              family_state := snd (cfl_skl_decode_pa hw pa (family_state ds))\<rparr>)
     else (no_decode, ds\<lparr>g_detected := True, g_active := None\<rparr>)) \<and>
    dispatch_inv (g_families hw) (snd (imc_decode_pa (g_families hw) pa ds))"
  using imc_active_inv [OF assms]
  by (auto simp: imc_decode_pa_def first_detected_cfl g_families_def cfl_skl_kbl_ops_def
      dispatch_inv_def split: prod.split)

theorem imc_decode_pa_forwards_witness:
  "fst (imc_decode_pa (g_families ((a1990_hw 0x410)\<lparr>cpuid_family := 15\<rparr>)) 0x1234
     \<lparr>g_active = None, g_detected = False, family_state = blank_imc\<rparr>) = no_decode"
  by (subst imc_decode_pa_forwards)
    (simp_all add: dispatch_inv_def cfl_skl_detect_def a1990_hw_def)

text \<open>A refresh makes the next request read the registers again: after it, the configuration
  returned is that of the registers at that time, whatever was cached before.\<close>

theorem imc_config_refreshed:
  assumes "dispatch_inv (g_families hw) ds" "cfl_skl_detect hw"
  shows "fst (imc_config (g_families hw) (imc_config_refresh (g_families hw) ds)) =
    fst (cfl_skl_config hw ((family_state ds)\<lparr>g_config_cached := False\<rparr>))"
proof -
  have "imc_config_refresh (g_families hw) ds =
      ds\<lparr>g_detected := True, g_active := Some 0,
         family_state := cfl_skl_config_refresh (family_state ds)\<rparr>"
    using imc_active_inv [OF assms(1)] assms(2)
    by (simp add: imc_config_refresh_def first_detected_cfl g_families_def cfl_skl_kbl_ops_def)
  then show ?thesis
    by (simp add: imc_config_def imc_active_def g_families_def cfl_skl_kbl_ops_def
        cfl_skl_config_refresh_def Let_def split: prod.split)
qed

theorem imc_config_refreshed_witness:
  "fst (imc_config (g_families (a1990_hw 0x410)) (imc_config_refresh (g_families (a1990_hw 0x410))
     \<lparr>g_active = None, g_detected = False, family_state = blank_imc\<lparr>g_config_cached := True\<rparr>\<rparr>))
   = Some a1990_mc"
  by (subst imc_config_refreshed)
    (simp_all add: dispatch_inv_def cfl_skl_detect_def a1990_hw_def,
     simp add: a1990_mc_def flip: a1990_hw_def, simp add: a1990_simps)

end
