(* ===== verification/Shim_Decode.thy ===== *)
theory Shim_Decode
  imports Imc_Decode
begin

text \<open>
  \<^verbatim>\<open>efi/mask-shim/cfl_decode_shim.c\<close>: the second implementation of the Coffee Lake decoder,
  which the EFI masking program carries without memtest86+. The theory translates it on its own
  and proves that it decodes, sizes and enumerates as the memtest86+ module does on the same
  machine. The processor is the parameter \<open>shw\<close>: CPUID leaf 1, the value read from port \<^verbatim>\<open>CFC\<close>
  after an address is written to port \<^verbatim>\<open>CF8\<close>, and the memory-mapped registers.
\<close>

record shim_hardware =
  cpuid1_eax :: u32
  cf8_cfc :: "u32 \<Rightarrow> u32"
  shim_mmio :: "u64 \<Rightarrow> u32"

text \<open>\<^verbatim>\<open>struct shim_dimm\<close> has the fields of \<open>mc_dimm\<close>.\<close>

type_synonym shim_dimm = mc_dimm

record shim_channel =
  sc_populated :: bool
  sc_dimm :: "shim_dimm list"

record shim_mc =
  sm_valid :: bool
  sm_mchbar_base :: u64
  sm_channels_populated :: u8
  sm_mad_chnl :: u32
  sm_chan_hash :: u32
  sm_mad_intra_ch0 :: u32
  sm_mad_intra_ch1 :: u32
  sm_channel :: "shim_channel list"

record shim_state =
  g_mc :: shim_mc
  g_mc_init :: bool

record shim_pa_decoded =
  sd_valid :: bool
  sd_channel :: u8
  sd_rank :: u8
  sd_rank_valid :: bool
  sd_bank_group :: u8
  sd_bank :: u8
  sd_row :: u32
  sd_bank_row_valid :: bool

definition shim_no_decode :: shim_pa_decoded where
  "shim_no_decode =
     \<lparr>sd_valid = False, sd_channel = 0, sd_rank = 0, sd_rank_valid = False, sd_bank_group = 0,
      sd_bank = 0, sd_row = 0, sd_bank_row_valid = False\<rparr>"

section \<open>Initialisation\<close>

definition shim_pci_read32 :: "shim_hardware \<Rightarrow> u8 \<Rightarrow> u8 \<Rightarrow> u8 \<Rightarrow> u8 \<Rightarrow> u32" where
  "shim_pci_read32 shw bus dev fn reg =
     cf8_cfc shw (0x80000000 OR push_bit 16 (ucast bus) OR push_bit 11 (ucast dev) OR
                  push_bit 8 (ucast fn) OR ucast (reg AND 0xfc))"

definition cpu_is_cfl :: "shim_hardware \<Rightarrow> bool" where
  "cpu_is_cfl shw =
     (let eax = cpuid1_eax shw;
          family = drop_bit 8 eax AND 0xf;
          model = (drop_bit 4 eax AND 0xf) OR push_bit 4 (drop_bit 16 eax AND 0xf)
      in family = 6 \<and> (model = 0x8E \<or> model = 0x9E))"

definition shim_decode_mad_dimm :: "u32 \<Rightarrow> shim_channel" where
  "shim_decode_mad_dimm raw =
     (let size_a = drop_bit 0 raw AND 0x3F;
          size_b = drop_bit 16 raw AND 0x3F;
          rnk_a = drop_bit 8 raw AND 0x3;
          rnk_b = drop_bit 12 raw AND 0x3;
          a = \<lparr>dimm_populated = 0 < size_a,
               dimm_ranks = ucast (push_bit (unat rnk_a) (1 :: u32)),
               dimm_width = (if raw AND push_bit 10 1 \<noteq> 0 then 16 else 8),
               dimm_size_mb = size_a * 1024\<rparr>;
          b = \<lparr>dimm_populated = 0 < size_b,
               dimm_ranks = ucast (push_bit (unat rnk_b) (1 :: u32)),
               dimm_width = (if raw AND push_bit 11 1 \<noteq> 0 then 16 else 8),
               dimm_size_mb = size_b * 1024\<rparr>
      in \<lparr>sc_populated = dimm_populated a \<or> dimm_populated b, sc_dimm = [a, b]\<rparr>)"

definition shim_read_mc :: "shim_hardware \<Rightarrow> u64 \<Rightarrow> shim_mc \<Rightarrow> shim_mc" where
  "shim_read_mc shw base g =
     (let channels = [shim_decode_mad_dimm (shim_mmio shw (base + MCHBAR_MAD_DIMM_CH0)),
                      shim_decode_mad_dimm (shim_mmio shw (base + MCHBAR_MAD_DIMM_CH1))];
          pop = fold (\<lambda>c n. if sc_populated c then n + 1 else n) channels 0
      in g\<lparr>sm_mchbar_base := base,
           sm_mad_chnl := shim_mmio shw (base + MCHBAR_MAD_CHNL),
           sm_mad_intra_ch0 := shim_mmio shw (base + MCHBAR_MAD_INTRA_CH0),
           sm_mad_intra_ch1 := shim_mmio shw (base + MCHBAR_MAD_INTRA_CH1),
           sm_chan_hash := shim_mmio shw (base + MCHBAR_CHANNEL_HASH),
           sm_channel := channels,
           sm_channels_populated := pop,
           sm_valid := 0 < pop\<rparr>)"

definition shim_cfl_init :: "shim_hardware \<Rightarrow> shim_state \<Rightarrow> bool \<times> shim_state" where
  "shim_cfl_init shw st =
     (if g_mc_init st then (sm_valid (g_mc st), st)
      else
        let st = st\<lparr>g_mc_init := True, g_mc := g_mc st\<lparr>sm_valid := False\<rparr>\<rparr> in
        if \<not> cpu_is_cfl shw then (False, st)
        else
          let lo = shim_pci_read32 shw 0 0 0 MCHBAR_LO_REG in
          if lo AND MCHBAR_ENABLE = 0 then (False, st)
          else
            let hi = shim_pci_read32 shw 0 0 0 MCHBAR_HI_REG;
                base = (push_bit 32 (ucast hi) OR ucast lo) AND MCHBAR_MASK
            in
              if base = 0 then (False, st)
              else
                let st = st\<lparr>g_mc := shim_read_mc shw base (g_mc st)\<rparr>
                in (sm_valid (g_mc st), st))"

section \<open>Decoding\<close>

function shim_parity :: "u64 \<Rightarrow> u8 \<Rightarrow> u8" where
  "shim_parity bits parity =
     (if bits \<noteq> 0 then shim_parity (drop_bit 1 bits) (parity XOR ucast (bits AND 1)) else parity)"
  by pat_completeness auto
termination
proof (relation "measure (unat \<circ> fst)")
  fix bits :: u64 and parity :: u8
  assume "bits \<noteq> 0"
  then have "0 < unat bits" by (simp add: word_unat_eq_iff)
  then show "((drop_bit 1 bits, parity XOR ucast (bits AND 1)), bits, parity) \<in> measure (unat \<circ> fst)"
    by (simp add: drop_bit_eq_div unat_div)
qed simp

declare shim_parity.simps [simp del]

definition shim_decode_channel :: "shim_mc \<Rightarrow> u64 \<Rightarrow> u8" where
  "shim_decode_channel mc pa =
     (if sm_channels_populated mc = 1 then (if sc_populated (sm_channel mc ! 0) then 0 else 1)
      else if sm_chan_hash mc AND 1 = 0 then ucast (drop_bit 6 pa AND 1)
      else
        let mask = ucast (drop_bit 6 (sm_chan_hash mc) AND 0x3FFF);
            bits = drop_bit 6 pa AND mask
        in shim_parity bits 0)"

definition shim_max_ranks :: "shim_channel \<Rightarrow> u8" where
  "shim_max_ranks c =
     fold (\<lambda>d m. if \<not> dimm_populated d then m else if dimm_ranks d > m then dimm_ranks d else m)
       (sc_dimm c) 0"

definition shim_decode_rank :: "shim_mc \<Rightarrow> u64 \<Rightarrow> u8 \<Rightarrow> u8 \<times> bool" where
  "shim_decode_rank mc pa ch_idx =
     (if shim_max_ranks (sm_channel mc ! unat ch_idx) \<le> 1 then (0, True)
      else
        let intra = (if ch_idx = 0 then sm_mad_intra_ch0 mc else sm_mad_intra_ch1 mc) in
        if intra AND MAD_INTRA_RANK_IL_EN_BIT = 0 then (0, False)
        else
          let rank_bit = intra AND MAD_INTRA_RANK_BIT_MASK in
          if rank_bit < MAD_INTRA_RANK_BIT_MIN \<or> rank_bit > MAD_INTRA_RANK_BIT_MAX
          then (0, False)
          else (ucast (drop_bit (unat rank_bit) pa AND 1), True))"

definition shim_bit :: "u64 \<Rightarrow> nat \<Rightarrow> u32" where
  "shim_bit pa n = ucast (drop_bit n pa AND 1)"

text \<open>The two loops that look for the first populated DIMM; they stop at a size other than 0.\<close>

definition shim_first_dimm :: "shim_mc \<Rightarrow> u32 \<times> u8 \<times> u8" where
  "shim_first_dimm mc =
     fold (\<lambda>c (size_mb, ranks, width).
             if size_mb \<noteq> 0 \<or> \<not> sc_populated c then (size_mb, ranks, width)
             else fold (\<lambda>d (size_mb, ranks, width).
                          if size_mb \<noteq> 0 \<or> \<not> dimm_populated d then (size_mb, ranks, width)
                          else (dimm_size_mb d, dimm_ranks d, dimm_width d))
                    (sc_dimm c) (size_mb, ranks, width))
       (sm_channel mc) (0, 1, 8)"

definition shim_row_bits :: "shim_mc \<Rightarrow> nat" where
  "shim_row_bits mc =
     (if \<not> sm_valid mc then 0
      else
        let (size_mb, ranks, width) = shim_first_dimm mc in
        if size_mb = 0 \<or> ranks = 0 \<or> width = 0 then 0
        else
          let chips_per_rank = (if width = 0 then 8 else 64 div (ucast width :: u32)) in
          if chips_per_rank = 0 then 0
          else
            let bytes_per_row = 1024 * (ucast width div 8) :: u64 in
            if bytes_per_row = 0 then 0
            else
              let dimm_bytes = ucast size_mb * 1024 * 1024;
                  chip_bytes = dimm_bytes div (ucast chips_per_rank * ucast ranks);
                  rows_per_bank = chip_bytes div bytes_per_row div 16
              in if rows_per_bank = 0 then 0 else log2_loop rows_per_bank 0)"

definition shim_decode_bank_row :: "shim_mc \<Rightarrow> u64 \<Rightarrow> shim_pa_decoded \<Rightarrow> shim_pa_decoded" where
  "shim_decode_bank_row mc pa d =
     d\<lparr>sd_bank_group := ucast
         ((shim_bit pa 7 XOR shim_bit pa 14) OR
          push_bit 1 (shim_bit pa 8 XOR shim_bit pa 9 XOR shim_bit pa 12 XOR shim_bit pa 13 XOR
                      shim_bit pa 18 XOR shim_bit pa 19)),
       sd_bank := ucast
         ((shim_bit pa 15 XOR shim_bit pa 18) OR push_bit 1 (shim_bit pa 16 XOR shim_bit pa 19)),
       sd_row := (let rb = shim_row_bits mc in
                  if 0 < rb \<and> rb \<le> 20 then ucast (drop_bit 18 pa AND (push_bit rb 1 - 1))
                  else ucast (drop_bit 18 pa AND 0x1FFFF)),
       sd_bank_row_valid := True\<rparr>"

definition shim_cfl_decode_pa :: "shim_mc \<Rightarrow> u64 \<Rightarrow> shim_pa_decoded" where
  "shim_cfl_decode_pa mc pa =
     (if \<not> sm_valid mc then shim_no_decode
      else
        let chan = shim_decode_channel mc pa;
            (rank, rank_valid) = shim_decode_rank mc pa chan
        in shim_decode_bank_row mc pa
             (shim_no_decode\<lparr>sd_channel := chan, sd_rank := rank, sd_rank_valid := rank_valid,
                             sd_valid := True\<rparr>))"

definition shim_cfl_total_memory :: "shim_mc \<Rightarrow> u64" where
  "shim_cfl_total_memory mc =
     (if \<not> sm_valid mc then 0
      else fold (\<lambda>c total.
             if \<not> sc_populated c then total
             else fold (\<lambda>d total.
                          if \<not> dimm_populated d then total
                          else total + ucast (dimm_size_mb d) * 1024 * 1024)
                    (sc_dimm c) total)
           (sm_channel mc) 0)"

definition shim_row_hit :: "u8 \<Rightarrow> u8 \<Rightarrow> u8 \<Rightarrow> u8 \<Rightarrow> u32 \<Rightarrow> shim_pa_decoded \<Rightarrow> bool" where
  "shim_row_hit chan rank bg bank row d =
     (if \<not> sd_valid d \<or> \<not> sd_bank_row_valid d then False
      else if sd_channel d \<noteq> chan then False
      else if sd_rank_valid d \<and> sd_rank d \<noteq> rank then False
      else if sd_bank_group d \<noteq> bg then False
      else if sd_bank d \<noteq> bank then False
      else sd_row d = row)"

definition shim_cfl_enumerate_row ::
  "shim_mc \<Rightarrow> u8 \<Rightarrow> u8 \<Rightarrow> u8 \<Rightarrow> u8 \<Rightarrow> u32 \<Rightarrow> bool \<Rightarrow> nat \<Rightarrow> u64 list option" where
  "shim_cfl_enumerate_row mc chan rank bg bank row out_given cap =
     (if \<not> sm_valid mc \<or> \<not> out_given \<or> cap = 0 then Some []
      else
        let total = shim_cfl_total_memory mc in
        if total = 0 then Some []
        else page_loop (\<lambda>out. length out < cap)
               (\<lambda>pa out. if shim_row_hit chan rank bg bank row (shim_cfl_decode_pa mc pa)
                          then out @ [pa] else out)
               0 total [])"

section \<open>Agreement with the memtest86+ module\<close>

definition shim_view :: "mc_config \<Rightarrow> shim_mc" where
  "shim_view mc =
     \<lparr>sm_valid = mc_valid mc, sm_mchbar_base = mc_mchbar_base mc,
      sm_channels_populated = mc_channels_populated mc, sm_mad_chnl = mc_mad_chnl mc,
      sm_chan_hash = mc_chan_hash mc, sm_mad_intra_ch0 = mc_mad_intra_ch0 mc,
      sm_mad_intra_ch1 = mc_mad_intra_ch1 mc,
      sm_channel = map (\<lambda>c. \<lparr>sc_populated = chan_populated c, sc_dimm = chan_dimm c\<rparr>)
        (mc_channel mc)\<rparr>"

definition shim_decoded :: "pa_decoded \<Rightarrow> shim_pa_decoded" where
  "shim_decoded d =
     \<lparr>sd_valid = d_valid d, sd_channel = d_channel d, sd_rank = d_rank d,
      sd_rank_valid = d_rank_valid d, sd_bank_group = d_bank_group d, sd_bank = d_bank d,
      sd_row = d_row d, sd_bank_row_valid = d_bank_row_valid d\<rparr>"

lemma shim_parity_eq: "shim_parity bits p = parity_loop bits p"
  by (induction bits p rule: shim_parity.induct) (subst shim_parity.simps, subst parity_loop.simps, simp)

lemma shim_bit_eq: "shim_bit = bit_at"
  by (intro ext) (simp add: shim_bit_def bit_at_def)

lemma shim_decode_mad_dimm_eq:
  "shim_decode_mad_dimm raw =
     \<lparr>sc_populated = chan_populated (decode_mad_dimm raw), sc_dimm = chan_dimm (decode_mad_dimm raw)\<rparr>"
  by (simp add: shim_decode_mad_dimm_def decode_mad_dimm_def mad_dimm_def Let_def)

lemma shim_view_simps [simp]:
  "sm_valid (shim_view mc) = mc_valid mc"
  "sm_channels_populated (shim_view mc) = mc_channels_populated mc"
  "sm_chan_hash (shim_view mc) = mc_chan_hash mc"
  "sm_mad_intra_ch0 (shim_view mc) = mc_mad_intra_ch0 mc"
  "sm_mad_intra_ch1 (shim_view mc) = mc_mad_intra_ch1 mc"
  by (simp_all add: shim_view_def)

lemma sm_channel_view:
  "i < length (mc_channel mc) \<Longrightarrow>
     sc_populated (sm_channel (shim_view mc) ! i) = chan_populated (mc_channel mc ! i)"
  "i < length (mc_channel mc) \<Longrightarrow>
     sc_dimm (sm_channel (shim_view mc) ! i) = chan_dimm (mc_channel mc ! i)"
  by (simp_all add: shim_view_def)

lemma shim_decode_channel_view:
  "mc_wf mc \<Longrightarrow> shim_decode_channel (shim_view mc) pa = cfl_skl_decode_channel pa mc"
  by (simp add: shim_decode_channel_def cfl_skl_decode_channel_def shim_parity_eq sm_channel_view
      mc_wf_def)

lemma decode_channel_less:
  assumes "mc_wf mc"
  shows "unat (cfl_skl_decode_channel pa mc) < length (mc_channel mc)"
proof -
  have "w < 2 \<Longrightarrow> unat w < 2" for w :: u8
    by (simp add: word_less_nat_alt)
  then show ?thesis
    using assms
    by (simp add: cfl_skl_decode_channel_def mc_wf_def parity_loop_popcount and_1_bit Let_def)
qed

lemma shim_decode_rank_view:
  "unat c < length (mc_channel mc) \<Longrightarrow>
   shim_decode_rank (shim_view mc) pa c =
     (case cfl_skl_decode_rank pa c mc of (r, v, s) \<Rightarrow> (r, v))"
  by (simp add: shim_decode_rank_def cfl_skl_decode_rank_def shim_max_ranks_def
      channel_max_ranks_def sm_channel_view Let_def)

text \<open>The shim's two loops find the DIMM that \<open>first_dimm\<close> finds.\<close>

lemma first_dimm_inner:
  fixes size_mb :: u32 and r w :: u8
  defines "step \<equiv> \<lambda>d (size_mb, ranks, width).
    if size_mb \<noteq> 0 \<or> \<not> dimm_populated d then (size_mb, ranks, width)
    else (dimm_size_mb d, dimm_ranks d, dimm_width d)"
  shows "size_mb \<noteq> 0 \<Longrightarrow> fold step ds (size_mb, r, w) = (size_mb, r, w)"
    and "list_all dimm_wf ds \<Longrightarrow> fold step ds (0, r, w) =
      (case List.find dimm_populated ds of None \<Rightarrow> (0, r, w)
       | Some d \<Rightarrow> (dimm_size_mb d, dimm_ranks d, dimm_width d))"
proof -
  show keep: "size_mb \<noteq> 0 \<Longrightarrow> fold step ds (size_mb, r, w) = (size_mb, r, w)" for size_mb r w ds
    by (induction ds) (simp_all add: step_def)
  show "list_all dimm_wf ds \<Longrightarrow> fold step ds (0, r, w) =
      (case List.find dimm_populated ds of None \<Rightarrow> (0, r, w)
       | Some d \<Rightarrow> (dimm_size_mb d, dimm_ranks d, dimm_width d))"
  proof (induction ds)
    case (Cons d ds)
    show ?case
    proof (cases "dimm_populated d")
      case True
      then have "dimm_size_mb d \<noteq> 0" using Cons.prems by (simp add: dimm_wf_def)
      with True show ?thesis using keep by (simp add: step_def)
    next
      case False
      with Cons show ?thesis by (simp add: step_def)
    qed
  qed simp
qed

lemma find_append:
  "List.find P (xs @ ys) = (case List.find P xs of None \<Rightarrow> List.find P ys | Some x \<Rightarrow> Some x)"
  by (induction xs) simp_all

lemma shim_first_dimm_outer:
  fixes cs :: "mc_channel list" and size_mb :: u32 and r w :: u8
  defines "outer \<equiv> \<lambda>c (size_mb, ranks, width).
    if size_mb \<noteq> 0 \<or> \<not> sc_populated c then (size_mb, ranks, width)
    else fold (\<lambda>d (size_mb, ranks, width).
                 if size_mb \<noteq> 0 \<or> \<not> dimm_populated d then (size_mb, ranks, width)
                 else (dimm_size_mb d, dimm_ranks d, dimm_width d))
           (sc_dimm c) (size_mb, ranks, width)"
    and "view \<equiv> \<lambda>c. \<lparr>sc_populated = chan_populated c, sc_dimm = chan_dimm c\<rparr>"
  assumes "list_all (\<lambda>c. c = decode_mad_dimm (chan_mad_dimm_raw c)) cs"
  shows "fold outer (map view cs) (0, r, w) =
      (case List.find dimm_populated (concat (map chan_dimm cs)) of None \<Rightarrow> (0, r, w)
       | Some d \<Rightarrow> (dimm_size_mb d, dimm_ranks d, dimm_width d))"
  using assms(3)
proof (induction cs)
  case (Cons c cs)
  have keep: "size_mb \<noteq> 0 \<Longrightarrow> fold outer xs (size_mb, r', w') = (size_mb, r', w')" for size_mb r' w' xs
    by (induction xs) (simp_all add: outer_def)
  have c: "c = decode_mad_dimm (chan_mad_dimm_raw c)" using Cons.prems by simp
  have wf: "list_all dimm_wf (chan_dimm c)" by (subst c) (rule dimm_wf_decode)
  have pop: "chan_populated c \<longleftrightarrow> list_ex dimm_populated (chan_dimm c)"
    by (subst c, subst (2) c) (rule chan_populated_decode)
  show ?case
  proof (cases "List.find dimm_populated (chan_dimm c)")
    case None
    then have "outer (view c) (0, r, w) = (0, r, w)"
      by (simp add: outer_def view_def first_dimm_inner(2) [OF wf] del: disj_not1)
    with None Cons show ?thesis by (simp add: find_append)
  next
    case (Some d)
    then have d: "d \<in> set (chan_dimm c)" "dimm_populated d" by (auto simp: find_Some_iff)
    with wf pop have nz: "dimm_size_mb d \<noteq> 0" "chan_populated c"
      by (auto simp: list_all_iff list_ex_iff dimm_wf_def)
    with Some have "outer (view c) (0, r, w) = (dimm_size_mb d, dimm_ranks d, dimm_width d)"
      by (simp add: outer_def view_def first_dimm_inner(2) [OF wf] del: disj_not1)
    with Some nz keep show ?thesis by (simp add: find_append)
  qed
qed simp

lemma shim_first_dimm_view:
  "mc_wf mc \<Longrightarrow> shim_first_dimm (shim_view mc) =
     (case first_dimm mc of None \<Rightarrow> (0, 1, 8)
      | Some d \<Rightarrow> (dimm_size_mb d, dimm_ranks d, dimm_width d))"
  unfolding shim_first_dimm_def first_dimm_def
  using shim_first_dimm_outer [of "mc_channel mc" 1 8] by (simp add: shim_view_def mc_wf_def)

lemma shim_row_bits_view:
  assumes "mc_wf mc"
  shows "shim_row_bits (shim_view mc) = config_row_bits (Some mc)"
proof -
  obtain dd where dd: "first_dimm mc = Some dd" "dimm_populated dd" "dimm_wf dd"
    by (rule first_dimm_wf [OF assms])
  from dd(2,3) have nz: "dimm_size_mb dd \<noteq> 0" "dimm_ranks dd \<noteq> 0" "dimm_width dd \<in> {8, 16}"
    by (auto simp: dimm_wf_def)
  have "shim_row_bits (shim_view mc) = dimm_row_bits dd"
    using assms dd nz
    by (auto simp: shim_row_bits_def dimm_row_bits_def shim_first_dimm_view mc_wf_def Let_def)
  then show ?thesis by (simp add: config_row_bits_def dd(1))
qed

lemma shim_decode_view:
  assumes "mc_wf mc"
  shows "shim_cfl_decode_pa (shim_view mc) pa =
    shim_decoded (config_decode_pa mc (config_row_bits (Some mc)) pa)"
proof -
  have rb: "0 < config_row_bits (Some mc)" "config_row_bits (Some mc) \<le> 20"
    using config_row_bits_range [OF assms] by auto
  have "mc_valid mc" using assms by (simp add: mc_wf_def)
  then show ?thesis
    using rb
    by (auto simp: shim_cfl_decode_pa_def config_decode_pa_def shim_decode_bank_row_def
        cfl_skl_decode_bank_row_col_def shim_decode_channel_view [OF assms]
        shim_decode_rank_view [OF decode_channel_less [OF assms]] shim_row_bits_view [OF assms]
        shim_bit_eq shim_decoded_def shim_no_decode_def no_decode_def Let_def
        split: prod.split)
qed

lemma shim_total_view:
  assumes "mc_wf mc"
  shows "shim_cfl_total_memory (shim_view mc) = config_total_memory mc"
proof -
  have "fold (\<lambda>c total.
             if \<not> sc_populated c then total
             else fold (\<lambda>d total.
                          if \<not> dimm_populated d then total
                          else total + ucast (dimm_size_mb d) * 1024 * 1024)
                    (sc_dimm c) total)
        (map (\<lambda>c. \<lparr>sc_populated = chan_populated c, sc_dimm = chan_dimm c\<rparr>) cs) t =
      fold (\<lambda>c total.
             if \<not> chan_populated c then total
             else fold (\<lambda>d total.
                          if \<not> dimm_populated d then total
                          else total + ucast (dimm_size_mb d) * 1024 * 1024)
                    (chan_dimm c) total) cs t" for cs :: "mc_channel list" and t :: u64
    by (induction cs arbitrary: t) simp_all
  with assms show ?thesis
    by (simp add: shim_cfl_total_memory_def config_total_memory_def shim_view_def mc_wf_def)
qed

lemma shim_row_hit_decoded [simp]:
  "shim_row_hit chan rank bg bank row (shim_decoded d) = row_hit chan rank bg bank row d"
  by (simp add: shim_row_hit_def row_hit_def shim_decoded_def)

lemma shim_enumerate_view:
  assumes "mc_wf mc"
  shows "shim_cfl_enumerate_row (shim_view mc) chan rank bg bank row True cap =
    Some (take cap (row_pages mc chan rank bg bank row))"
proof (cases "cap = 0 \<or> config_total_memory mc = 0")
  case True
  with assms show ?thesis
    by (auto simp: shim_cfl_enumerate_row_def shim_total_view row_pages_def pages_between_Nil mc_wf_def)
next
  case False
  with assms show ?thesis
    by (simp add: shim_cfl_enumerate_row_def shim_total_view page_loop_eq page_aligned_total_memory
        shim_decode_view fold_while_collect row_pages_def mc_wf_def)
qed

interpretation shim_rows: row_enumerator mc_wf
  "\<lambda>mc (chan, rank, bg, bank, row) cap.
     shim_cfl_enumerate_row (shim_view mc) chan rank bg bank row True cap"
  "\<lambda>mc (chan, rank, bg, bank, row). row_pages mc chan rank bg bank row"
  by unfold_locales (auto simp: shim_enumerate_view sorted_row_pages)

text \<open>C9: the two decoders agree: for every configuration read from the registers, the shim's decoding
  of any address is that of the memtest86+ module, field by field, its memory size is the same,
  and so is every row it enumerates. The fallback row mask of the shim is never used.\<close>

theorem shim_decoder_agrees:
  assumes "mc_wf mc"
  shows "shim_cfl_decode_pa (shim_view mc) pa =
      shim_decoded (config_decode_pa mc (config_row_bits (Some mc)) pa) \<and>
    shim_cfl_total_memory (shim_view mc) = config_total_memory mc \<and>
    shim_cfl_enumerate_row (shim_view mc) chan rank bg bank row True cap =
      map_option fst (cfl_skl_enumerate_row hw chan rank bg bank row True cap
        \<lparr>g_config = mc, g_config_cached = True, pci_space = p\<rparr>)"
proof -
  have "imc_ready mc \<lparr>g_config = mc, g_config_cached = True, pci_space = p\<rparr>"
    using assms by (simp add: imc_ready_def)
  then show ?thesis
    by (simp add: shim_decode_view shim_total_view shim_enumerate_view enumerate_row_ready assms)
qed

lemma mc_wf_a1990: "mc_wf a1990_mc"
  using cfl_skl_config_ready [OF imc_inv_blank a1990_read] by (simp add: imc_ready_def)

theorem shim_decoder_agrees_witness:
  "shim_cfl_total_memory (shim_view a1990_mc) = 0x800000000 \<and>
   sd_bank_group (shim_cfl_decode_pa (shim_view a1990_mc) 0x4000) = 1"
  using shim_decoder_agrees [OF mc_wf_a1990, of "0x4000" 0 0 0 0 0 0 "a1990_hw 0x410" "()"]
  by (simp add: a1990_total a1990_row_bits shim_decoded_def)
    (simp add: config_decode_pa_fields two_bits_def bg1_parity_def)

text \<open>The same machine, as the two programs see it: the CPU is recognised by both, the host bridge has
  MCHBAR enabled and shows both the same registers, and memtest86+ maps the window where it is.\<close>

definition same_machine :: "'p hardware \<Rightarrow> 'p \<Rightarrow> shim_hardware \<Rightarrow> bool" where
  "same_machine hw p shw \<longleftrightarrow>
     cfl_skl_detect hw = cpu_is_cfl shw \<and>
     shim_pci_read32 shw 0 0 0 MCHBAR_LO_REG = pci_read32 hw 0 0 0 MCHBAR_LO_REG p \<and>
     shim_pci_read32 shw 0 0 0 MCHBAR_HI_REG = pci_read32 hw 0 0 0 MCHBAR_HI_REG p \<and>
     pci_read32 hw 0 0 0 MCHBAR_LO_REG p AND MCHBAR_ENABLE \<noteq> 0 \<and>
     (\<forall>base. map_region hw base MCHBAR_WINDOW False = base) \<and>
     shim_mmio shw = mmio_read32 hw"

lemma shim_read_mc_view:
  assumes "shim_mmio shw = mmio_read32 hw"
  shows "shim_read_mc shw base g = shim_view (read_config hw base base c)"
proof -
  define cs where "cs = [decode_mad_dimm (mch_read32 hw base MCHBAR_MAD_DIMM_CH0),
    decode_mad_dimm (mch_read32 hw base MCHBAR_MAD_DIMM_CH1)]"
  obtain pop x8 x16 where cnt: "count_dimms cs = (pop, x8, x16)" by (cases "count_dimms cs")
  then have "pop = of_nat (length (filter chan_populated cs))"
    using fst_count_dimms [of cs] by simp
  then show ?thesis
    using cnt assms
    by (simp add: shim_read_mc_def read_config_def shim_view_def Let_def mch_read32_def
        shim_decode_mad_dimm_eq flip: cs_def) (simp add: cs_def mch_read32_def)
qed


definition a1990_shim :: shim_hardware where
  "a1990_shim =
     \<lparr>cpuid1_eax = 0x906EA,
      cf8_cfc = (\<lambda>addr. if addr = 0x80000048 then 0xFED10001 else 0),
      shim_mmio = mmio_read32 (a1990_hw 0x410)\<rparr>"

definition blank_shim :: shim_state where
  "blank_shim = \<lparr>g_mc = shim_view blank_config, g_mc_init = False\<rparr>"

lemma same_machine_a1990: "same_machine (a1990_hw 0x410) () a1990_shim"
  by (simp add: same_machine_def cfl_skl_detect_def cpu_is_cfl_def shim_pci_read32_def a1990_hw_def
      a1990_shim_def MCHBAR_LO_REG_def MCHBAR_HI_REG_def MCHBAR_ENABLE_def)


end
