(* ===== verification/Badmem_Log.thy ===== *)
theory Badmem_Log
  imports Badmem_Parse
begin

text \<open>
  \<^verbatim>\<open>src/badmem_log.c\<close>: the accumulators of a memtest run (bad pages, chip designators,
  bank/row tuples, skip regions) in fixed arrays, and the dump of the pages that the user
  photographs. The static arrays with their counts are the lists of the entries in use; the
  chip buffer is the list of its used bytes, its terminating NUL not counted.

  The locale \<open>bounded_log\<close> states what the three deduplicating accumulators share; its
  interpretations prove it of each.
\<close>

definition MAX_ENTRIES :: nat where "MAX_ENTRIES = 4096"
definition CHIPS_BUF_SIZE :: nat where "CHIPS_BUF_SIZE = 256"
definition SKIP_MAX :: nat where "SKIP_MAX = 64"
definition MAX_BAD_ROWS :: nat where "MAX_BAD_ROWS = 256"

record bad_row =
  br_ch :: u8
  br_rank :: u8
  br_bg :: u8
  br_bank :: u8
  br_row :: u32

record skip_range =
  sk_start :: u64
  sk_end :: u64
  sk_hits :: u32

record badmem_log =
  log_pages :: "u64 list"
  chip_buf :: "u8 list"
  skip_list :: "skip_range list"
  row_log :: "bad_row list"

definition empty_log :: badmem_log where
  "empty_log = \<lparr>log_pages = [], chip_buf = [], skip_list = [], row_log = []\<rparr>"

section \<open>Recording\<close>

definition badmem_log_record :: "u64 \<Rightarrow> badmem_log \<Rightarrow> badmem_log" where
  "badmem_log_record phys_addr s =
     (let page = phys_addr AND PAGE_MASK in
      if list_ex (\<lambda>p. p = page) (log_pages s) then s
      else if length (log_pages s) < MAX_ENTRIES then s\<lparr>log_pages := log_pages s @ [page]\<rparr>
      else s)"

definition COMMA :: u8 where "COMMA = 0x2C"

text \<open>The deduplication scan over the comma-separated entries from an offset on.\<close>

function chip_scan :: "u8 list \<Rightarrow> u8 list \<Rightarrow> bool" where
  "chip_scan rest d =
     (if rest = [] then False
      else if takeWhile (\<lambda>c. c \<noteq> COMMA) rest = d then True
      else chip_scan (tl (dropWhile (\<lambda>c. c \<noteq> COMMA) rest)) d)"
  by pat_completeness auto
termination
proof (relation "measure (length \<circ> fst)")
  fix rest d :: "u8 list"
  assume "rest \<noteq> []"
  then have "length (tl (dropWhile (\<lambda>c. c \<noteq> COMMA) rest)) < length rest"
    using length_dropWhile_le [of "\<lambda>c. c \<noteq> COMMA" "tl rest"] by (cases rest) auto
  then show "((tl (dropWhile (\<lambda>c. c \<noteq> COMMA) rest), d), rest, d) \<in> measure (length \<circ> fst)"
    by simp
qed simp

declare chip_scan.simps [simp del]

definition badmem_log_record_chip :: "u8 list option \<Rightarrow> badmem_log \<Rightarrow> badmem_log" where
  "badmem_log_record_chip designator s =
     (case designator of
        None \<Rightarrow> s
      | Some designator \<Rightarrow>
         (let d = cstr designator;
              sep = (if chip_buf s \<noteq> [] then 1 else 0 :: nat)
          in
            if d = [] then s
            else if length (chip_buf s) + sep + length d + 1 > CHIPS_BUF_SIZE then s
            else if chip_scan (chip_buf s) d then s
            else s\<lparr>chip_buf := chip_buf s @ (if sep = 1 then [COMMA] else []) @ d\<rparr>))"

definition badmem_log_record_row ::
  "u8 \<Rightarrow> u8 \<Rightarrow> u8 \<Rightarrow> u8 \<Rightarrow> u32 \<Rightarrow> badmem_log \<Rightarrow> badmem_log" where
  "badmem_log_record_row channel rank bg bank row s =
     (if list_ex (\<lambda>r. br_ch r = channel \<and> br_rank r = rank \<and> br_bg r = bg \<and> br_bank r = bank \<and>
                     br_row r = row) (row_log s) then s
      else if length (row_log s) \<ge> MAX_BAD_ROWS then s
      else s\<lparr>row_log := row_log s @
             [\<lparr>br_ch = channel, br_rank = rank, br_bg = bg, br_bank = bank, br_row = row\<rparr>]\<rparr>)"

text \<open>The first entry the new region overlaps or abuts is grown; \<open>None\<close> when there is none.\<close>

fun skip_merge :: "u64 \<Rightarrow> u64 \<Rightarrow> skip_range list \<Rightarrow> skip_range list option" where
  "skip_merge start_pa end_pa [] = None"
| "skip_merge start_pa end_pa (r # rs) =
     (if end_pa < sk_start r \<or> start_pa > sk_end r
      then map_option (\<lambda>rs'. r # rs') (skip_merge start_pa end_pa rs)
      else Some
        (\<lparr>sk_start = (if start_pa < sk_start r then start_pa else sk_start r),
          sk_end = (if end_pa > sk_end r then end_pa else sk_end r),
          sk_hits = (if sk_hits r < 0xFFFFFFFF then sk_hits r + 1 else sk_hits r)\<rparr> # rs))"

definition badmem_log_add_skip :: "u64 \<Rightarrow> u64 \<Rightarrow> badmem_log \<Rightarrow> badmem_log" where
  "badmem_log_add_skip start_pa end_pa s =
     (if end_pa \<le> start_pa then s
      else case skip_merge start_pa end_pa (skip_list s) of
        Some rs \<Rightarrow> s\<lparr>skip_list := rs\<rparr>
      | None \<Rightarrow>
          if length (skip_list s) < SKIP_MAX
          then s\<lparr>skip_list := skip_list s @
                  [\<lparr>sk_start = start_pa, sk_end = end_pa, sk_hits = 1\<rparr>]\<rparr>
          else s)"

text \<open>The accessors other modules read the log through.\<close>

definition badmem_log_entries :: "badmem_log \<Rightarrow> u64 list \<times> nat" where
  "badmem_log_entries s = (log_pages s, length (log_pages s))"

definition badmem_log_count :: "badmem_log \<Rightarrow> nat" where
  "badmem_log_count s = length (log_pages s)"

definition badmem_log_skip_list :: "badmem_log \<Rightarrow> skip_range list \<times> nat" where
  "badmem_log_skip_list s = (skip_list s, length (skip_list s))"

definition badmem_log_skip_count :: "badmem_log \<Rightarrow> nat" where
  "badmem_log_skip_count s = length (skip_list s)"

section \<open>The dump\<close>

text \<open>The hexadecimal text of an address: nibbles from the top, the leading zeros dropped.\<close>

fun dump_nibbles :: "u64 \<Rightarrow> bool \<Rightarrow> nat list \<Rightarrow> u8 list" where
  "dump_nibbles v started [] = []"
| "dump_nibbles v started (shift # shifts) =
     (let nib = ucast (drop_bit shift v AND 0xF) :: u8 in
      if \<not> started \<and> nib = 0 \<and> shift > 0 then dump_nibbles v started shifts
      else (if nib < 10 then ch CHR ''0'' + nib else ch CHR ''a'' + nib - 10)
           # dump_nibbles v True shifts)"

definition nibble_shifts :: "nat list" where
  "nibble_shifts = [60, 56, 52, 48, 44, 40, 36, 32, 28, 24, 20, 16, 12, 8, 4, 0]"

definition dump_addr :: "u64 \<Rightarrow> u8 list" where
  "dump_addr v = [ch CHR ''0'', ch CHR ''x''] @ dump_nibbles v False nibble_shifts"

datatype dump_line = Dump_blank | Dump_count nat | Dump_none | Dump_addrs "u8 list"

text \<open>The loop over the pages: the line under construction, and the lines it shows. The
  test \<^verbatim>\<open>i + 1 < log_count\<close> is that pages remain.\<close>

fun dump_pages :: "u64 list \<Rightarrow> u8 list \<Rightarrow> u8 list list" where
  "dump_pages [] line = (if line \<noteq> [] then [line] else [])"
| "dump_pages (v # vs) line =
     (let abuf = dump_addr v;
          comma = (if vs \<noteq> [] then 2 else 0 :: nat);
          sep = (if vs \<noteq> [] then [ch CHR '','', ch CHR '' ''] else [])
      in
        if length line + length abuf + comma > 60
        then line # dump_pages vs (abuf @ sep)
        else dump_pages vs (line @ abuf @ sep))"

definition badmem_log_dump :: "badmem_log \<Rightarrow> dump_line list" where
  "badmem_log_dump s =
     [Dump_blank, Dump_count (length (log_pages s))] @
     (if log_pages s = [] then [Dump_none] else map Dump_addrs (dump_pages (log_pages s) []))"

section \<open>What the deduplicating logs share\<close>

text \<open>
  A bounded log keeps the first occurrence of every key it has room for: \<open>contents\<close> reads it,
  \<open>key\<close> is what is stored of an argument (\<open>None\<close>: the argument is ignored), \<open>fits\<close> says whether
  a key can still be appended.
\<close>

locale bounded_log =
  fixes ok :: "'s \<Rightarrow> bool"
    and contents :: "'s \<Rightarrow> 'k list"
    and valid :: "'a \<Rightarrow> bool"
    and key :: "'a \<Rightarrow> 'k option"
    and fits :: "'s \<Rightarrow> 'k \<Rightarrow> bool"
    and rec :: "'a \<Rightarrow> 's \<Rightarrow> 's"
  assumes ok_rec: "ok s \<Longrightarrow> valid a \<Longrightarrow> ok (rec a s)"
    and contents_rec: "ok s \<Longrightarrow> valid a \<Longrightarrow> contents (rec a s) =
      (case key a of
         None \<Rightarrow> contents s
       | Some k \<Rightarrow> if k \<in> set (contents s) \<or> \<not> fits s k then contents s else contents s @ [k])"
begin

lemma ok_fold: "ok s \<Longrightarrow> list_all valid as \<Longrightarrow> ok (fold rec as s)"
  by (induction as arbitrary: s) (simp_all add: ok_rec)

lemma distinct_rec: "ok s \<Longrightarrow> valid a \<Longrightarrow> distinct (contents s) \<Longrightarrow> distinct (contents (rec a s))"
  by (auto simp: contents_rec split: option.split)

lemma distinct_fold:
  "ok s \<Longrightarrow> list_all valid as \<Longrightarrow> distinct (contents s) \<Longrightarrow> distinct (contents (fold rec as s))"
  by (induction as arbitrary: s) (simp_all add: ok_rec distinct_rec)

lemma prefix_fold:
  "ok s \<Longrightarrow> list_all valid as \<Longrightarrow> prefix (contents s) (contents (fold rec as s))"
proof (induction as arbitrary: s)
  case (Cons a as)
  then have "prefix (contents s) (contents (rec a s))"
    by (auto simp: contents_rec split: option.split)
  with Cons show ?case using ok_rec prefix_order.order_trans by fastforce
qed simp

lemma recorded:
  "ok s \<Longrightarrow> valid a \<Longrightarrow> key a = Some k \<Longrightarrow> fits s k \<Longrightarrow> k \<in> set (contents (rec a s))"
  by (simp add: contents_rec)

lemma rec_twice: "ok s \<Longrightarrow> valid a \<Longrightarrow> key a = Some k \<Longrightarrow> fits s k \<Longrightarrow>
    contents (rec a (rec a s)) = contents (rec a s)"
  by (simp add: contents_rec ok_rec)

end

text \<open>Keys in order of their first occurrence.\<close>

definition first_occurrences :: "'k list \<Rightarrow> 'k list" where
  "first_occurrences ks = rev (remdups (rev ks))"

lemma first_occurrences_snoc:
  "first_occurrences (ks @ [k]) =
     (if k \<in> set ks then first_occurrences ks else first_occurrences ks @ [k])"
  by (simp add: first_occurrences_def)

lemma set_first_occurrences [simp]: "set (first_occurrences ks) = set ks"
  by (simp add: first_occurrences_def)

text \<open>A log with room for a number of entries.\<close>

locale capped_log = bounded_log ok contents valid key fits rec
  for ok :: "'s \<Rightarrow> bool" and contents :: "'s \<Rightarrow> 'k list" and valid :: "'a \<Rightarrow> bool" and key :: "'a \<Rightarrow> 'k option"
    and fits :: "'s \<Rightarrow> 'k \<Rightarrow> bool" and rec :: "'a \<Rightarrow> 's \<Rightarrow> 's" +
  fixes cap :: nat
  assumes fits_cap: "ok s \<Longrightarrow> fits s k \<longleftrightarrow> length (contents s) < cap"
begin

lemma contents_fold:
  assumes "ok s" "contents s = []" "list_all valid as"
  shows "contents (fold rec as s) =
    take cap (first_occurrences (List.map_filter key as))"
  using assms(3)
proof (induction as rule: rev_induct)
  case Nil
  then show ?case by (simp add: assms(2) first_occurrences_def List.map_filter_def)
next
  case (snoc a as)
  let ?ks = "List.map_filter key as"
  have a: "valid a" "list_all valid as" using snoc.prems by simp_all
  then have ok: "ok (fold rec as s)" using assms(1) by (intro ok_fold)
  note IH = snoc.IH [OF a(2)]
  show ?case
  proof (cases "key a")
    case None
    with IH ok a show ?thesis by (simp add: contents_rec List.map_filter_def)
  next
    case (Some k)
    then have ks: "List.map_filter key (as @ [a]) = ?ks @ [k]" by (simp add: List.map_filter_def)
    have "contents (fold rec (as @ [a]) s) =
        (if k \<in> set (contents (fold rec as s)) \<or> cap \<le> length (contents (fold rec as s))
         then contents (fold rec as s) else contents (fold rec as s) @ [k])"
      using ok a Some by (simp add: contents_rec fits_cap not_less)
    also have "\<dots> = take cap (first_occurrences (?ks @ [k]))"
    proof (cases "length (first_occurrences ?ks) < cap")
      case True
      then show ?thesis by (simp add: IH first_occurrences_snoc)
    next
      case False
      then show ?thesis
        using in_set_takeD [of k cap "first_occurrences ?ks"]
        by (auto simp: IH first_occurrences_snoc min_def)
    qed
    finally show ?thesis by (simp only: ks)
  qed
qed

end

interpretation pages: capped_log "\<lambda>_. True" log_pages "\<lambda>_. True" "\<lambda>a. Some (a AND PAGE_MASK)"
  "\<lambda>s k. length (log_pages s) < MAX_ENTRIES" badmem_log_record MAX_ENTRIES
  by unfold_locales (auto simp: badmem_log_record_def Let_def list_ex_iff)

definition record_row :: "bad_row \<Rightarrow> badmem_log \<Rightarrow> badmem_log" where
  "record_row r = badmem_log_record_row (br_ch r) (br_rank r) (br_bg r) (br_bank r) (br_row r)"

lemma same_row:
  "(br_ch r = br_ch a \<and> br_rank r = br_rank a \<and> br_bg r = br_bg a \<and> br_bank r = br_bank a \<and>
    br_row r = br_row a) \<longleftrightarrow> r = (a :: bad_row)"
  by (auto intro: bad_row.equality)

interpretation rows: capped_log "\<lambda>_. True" row_log "\<lambda>_. True" Some
  "\<lambda>s k. length (row_log s) < MAX_BAD_ROWS" record_row MAX_BAD_ROWS
  by unfold_locales (auto simp: record_row_def badmem_log_record_row_def list_ex_iff same_row)

text \<open>The chip buffer holds the comma-separated text of a list of entries.\<close>

function chip_entries :: "u8 list \<Rightarrow> u8 list list" where
  "chip_entries rest =
     (if rest = [] then []
      else takeWhile (\<lambda>c. c \<noteq> COMMA) rest
             # chip_entries (tl (dropWhile (\<lambda>c. c \<noteq> COMMA) rest)))"
  by pat_completeness auto
termination
proof (relation "measure length")
  fix rest :: "u8 list"
  assume "rest \<noteq> []"
  then have "length (tl (dropWhile (\<lambda>c. c \<noteq> COMMA) rest)) < length rest"
    using length_dropWhile_le [of "\<lambda>c. c \<noteq> COMMA" "tl rest"] by (cases rest) auto
  then show "(tl (dropWhile (\<lambda>c. c \<noteq> COMMA) rest), rest) \<in> measure length"
    by simp
qed simp

declare chip_entries.simps [simp del]

lemma chip_scan_entries: "chip_scan rest d \<longleftrightarrow> d \<in> set (chip_entries rest)"
proof (induction rest d rule: chip_scan.induct)
  case (1 rest d)
  then show ?case
    by (subst chip_scan.simps, subst chip_entries.simps) (auto simp: eq_commute)
qed

lemma chip_entries_whole: "e \<noteq> [] \<Longrightarrow> COMMA \<notin> set e \<Longrightarrow> chip_entries e = [e]"
proof -
  assume e: "e \<noteq> []" "COMMA \<notin> set e"
  then have "takeWhile (\<lambda>c. c \<noteq> COMMA) e = e" "dropWhile (\<lambda>c. c \<noteq> COMMA) e = []"
    by (auto simp: takeWhile_eq_all_conv dropWhile_eq_Nil_conv)
  with e show ?thesis by (subst chip_entries.simps) (simp add: chip_entries.simps [of "[]"]
        del: dropWhile_eq_Nil_conv takeWhile_eq_all_conv)
qed

lemma chip_entries_cons:
  "COMMA \<notin> set e \<Longrightarrow> chip_entries (e @ COMMA # rest) = e # chip_entries rest"
proof -
  assume e: "COMMA \<notin> set e"
  then have "takeWhile (\<lambda>c. c \<noteq> COMMA) (e @ COMMA # rest) = e"
    "dropWhile (\<lambda>c. c \<noteq> COMMA) (e @ COMMA # rest) = COMMA # rest"
    by (induction e) auto
  then show ?thesis by (subst chip_entries.simps) simp
qed

text \<open>The invariant of the buffer: its entries are not empty, there is no comma at its end, and it fits
  with its terminator.\<close>

definition chip_ok :: "u8 list \<Rightarrow> bool" where
  "chip_ok buf \<longleftrightarrow>
     length buf < CHIPS_BUF_SIZE \<and> (buf \<noteq> [] \<longrightarrow> hd buf \<noteq> COMMA \<and> last buf \<noteq> COMMA)"

lemma chip_entries_append:
  assumes "buf \<noteq> []" "last buf \<noteq> COMMA" "d \<noteq> []" "COMMA \<notin> set d"
  shows "chip_entries (buf @ COMMA # d) = chip_entries buf @ [d]"
  using assms(1,2)
proof (induction buf rule: chip_entries.induct)
  case (1 buf)
  define e where "e = takeWhile (\<lambda>c. c \<noteq> COMMA) buf"
  define r where "r = dropWhile (\<lambda>c. c \<noteq> COMMA) buf"
  have buf: "buf = e @ r" by (simp add: e_def r_def)
  have e: "COMMA \<notin> set e" using set_takeWhileD by (fastforce simp: e_def)
  show ?case
  proof (cases r)
    case Nil
    with buf e 1(2) assms show ?thesis
      by (simp add: chip_entries_cons chip_entries_whole)
  next
    case (Cons c r')
    then have c: "c = COMMA" using hd_dropWhile [of "\<lambda>c. c \<noteq> COMMA" buf] by (simp add: r_def)
    with 1(3) Cons buf have r': "r' \<noteq> []" "last r' \<noteq> COMMA" by (auto split: if_splits)
    have "chip_entries (r' @ COMMA # d) = chip_entries r' @ [d]"
      using 1(1) [OF 1(2)] r' Cons by (simp add: r_def)
    with buf Cons c e show ?thesis by (simp add: chip_entries_cons)
  qed
qed

definition chip_valid :: "u8 list option \<Rightarrow> bool" where
  "chip_valid d \<longleftrightarrow> pred_option (\<lambda>d. COMMA \<notin> set (cstr d)) d"

definition chip_key :: "u8 list option \<Rightarrow> u8 list option" where
  "chip_key d = Option.bind d (\<lambda>d. if cstr d = [] then None else Some (cstr d))"

definition chip_fits :: "badmem_log \<Rightarrow> u8 list \<Rightarrow> bool" where
  "chip_fits s d \<longleftrightarrow>
     length (chip_buf s) + (if chip_buf s = [] then 0 else 1) + length d + 1 \<le> CHIPS_BUF_SIZE"

interpretation chips: bounded_log "\<lambda>s. chip_ok (chip_buf s)" "\<lambda>s. chip_entries (chip_buf s)"
  chip_valid chip_key chip_fits badmem_log_record_chip
proof unfold_locales
  fix s :: badmem_log and a :: "u8 list option"
  assume ok: "chip_ok (chip_buf s)" and a: "chip_valid a"
  have nil: "chip_entries [] = []" by (simp add: chip_entries.simps)
  have ends: "COMMA \<notin> set e \<Longrightarrow> e \<noteq> [] \<Longrightarrow> hd e \<noteq> COMMA \<and> last e \<noteq> COMMA" for e
    by (metis hd_in_set last_in_set)
  show "chip_ok (chip_buf (badmem_log_record_chip a s))"
    using ok a ends
    by (cases a)
      (auto simp: badmem_log_record_chip_def chip_ok_def chip_valid_def Let_def hd_append)
  show "chip_entries (chip_buf (badmem_log_record_chip a s)) =
    (case chip_key a of None \<Rightarrow> chip_entries (chip_buf s)
     | Some k \<Rightarrow> if k \<in> set (chip_entries (chip_buf s)) \<or> \<not> chip_fits s k
                 then chip_entries (chip_buf s) else chip_entries (chip_buf s) @ [k])"
    using ok a
    by (cases a)
      (auto simp: badmem_log_record_chip_def chip_ok_def chip_valid_def chip_key_def chip_fits_def
        chip_scan_entries chip_entries_append chip_entries_whole nil Let_def)
qed

text \<open>After any sequence of errors the log holds the pages of the first 4096 distinct ones, in the
  order in which they first appeared; later duplicates and pages beyond the capacity leave it as
  it is.\<close>

theorem log_pages_first_occurrences:
  "log_pages (fold badmem_log_record addrs empty_log) =
     take MAX_ENTRIES (first_occurrences (map (\<lambda>a. a AND PAGE_MASK) addrs))"
  using pages.contents_fold [of empty_log addrs]
  by (simp add: empty_log_def List.map_filter_def o_def list_all_iff)

text \<open>C29: recording a chip designator without commas in a well-formed buffer appends it as a new entry
  exactly where it is new and fits with its separator and the terminator, leaves the entries as
  they are otherwise, and keeps the buffer well formed.\<close>

theorem record_chip_entries:
  assumes "chip_ok (chip_buf s)" "d \<noteq> []" "COMMA \<notin> set d" "0 \<notin> set d"
  shows "chip_entries (chip_buf (badmem_log_record_chip (Some (d @ [0])) s)) =
      (if d \<in> set (chip_entries (chip_buf s)) \<or> \<not> chip_fits s d
       then chip_entries (chip_buf s) else chip_entries (chip_buf s) @ [d]) \<and>
    chip_ok (chip_buf (badmem_log_record_chip (Some (d @ [0])) s))"
proof -
  have "cstr (d @ [0]) = d" using assms(4) by (induction d) auto
  then have "chip_valid (Some (d @ [0]))" "chip_key (Some (d @ [0])) = Some d"
    using assms by (simp_all add: chip_valid_def chip_key_def)
  then show ?thesis
    using chips.contents_rec [OF assms(1)] chips.ok_rec [OF assms(1)] by simp
qed

theorem record_chip_entries_witness:
  "chip_entries (chip_buf (badmem_log_record_chip (Some (str ''U2310'' @ [0]))
     (empty_log\<lparr>chip_buf := str ''U2620''\<rparr>))) = [str ''U2620'', str ''U2310'']"
proof -
  have "chip_entries (str ''U2620'') = [str ''U2620'']"
    by (rule chip_entries_whole) (simp_all add: COMMA_def)
  then show ?thesis
    using record_chip_entries [of "empty_log\<lparr>chip_buf := str ''U2620''\<rparr>" "str ''U2310''"]
    by (simp add: chip_ok_def COMMA_def CHIPS_BUF_SIZE_def chip_fits_def)
qed

section \<open>The skip regions\<close>

definition in_skips :: "skip_range list \<Rightarrow> u64 \<Rightarrow> bool" where
  "in_skips rs x \<longleftrightarrow> list_ex (\<lambda>r. sk_start r \<le> x \<and> x < sk_end r) rs"

definition skips_wf :: "skip_range list \<Rightarrow> bool" where
  "skips_wf rs \<longleftrightarrow>
     list_all (\<lambda>r. sk_start r < sk_end r \<and> 0 < sk_hits r) rs \<and> length rs \<le> SKIP_MAX"

lemma skip_merge_in:
  assumes "skip_merge a b rs = Some rs'" "a < b" "list_all (\<lambda>r. sk_start r < sk_end r) rs"
  shows "in_skips rs' x \<longleftrightarrow> in_skips rs x \<or> a \<le> x \<and> x < b"
  using assms(1,3)
proof (induction rs arbitrary: rs')
  case (Cons r rs)
  show ?case
  proof (cases "b < sk_start r \<or> a > sk_end r")
    case True
    with Cons show ?thesis by (auto simp: in_skips_def)
  next
    case False
    then have ov: "sk_start r \<le> b" "a \<le> sk_end r" by auto
    have lt: "sk_start r < sk_end r" using Cons.prems by simp
    have "(if a < sk_start r then a else sk_start r) \<le> x \<and> x < (if b > sk_end r then b else sk_end r)
      \<longleftrightarrow> sk_start r \<le> x \<and> x < sk_end r \<or> a \<le> x \<and> x < b"
      using ov lt assms(2)
      by (cases "a < sk_start r"; cases "b > sk_end r") (auto simp: word_less_nat_alt word_le_nat_alt)
    with Cons.prems False show ?thesis by (auto simp: in_skips_def)
  qed
qed simp

lemma skip_merge_wf:
  assumes "skip_merge a b rs = Some rs'" "a < b" "skips_wf rs"
  shows "skips_wf rs'"
proof -
  have hits: "0 < (if h < 0xFFFFFFFF then h + 1 else h)" if "0 < h" for h :: u32
  proof (cases "h < 0xFFFFFFFF")
    case True
    then have "unat (h + 1) = unat h + 1" by (simp add: word_less_nat_alt unat_word_ariths)
    with True show ?thesis by (simp add: word_less_nat_alt)
  qed (use that in simp)
  have "list_all (\<lambda>r. sk_start r < sk_end r \<and> 0 < sk_hits r) rs' \<and> length rs' = length rs"
    if "skip_merge a b rs = Some rs'" "list_all (\<lambda>r. sk_start r < sk_end r \<and> 0 < sk_hits r) rs"
    for rs rs'
    using that
  proof (induction rs arbitrary: rs')
    case (Cons r rs)
    then show ?case
      using hits [of "sk_hits r"] assms(2) by (auto split: if_splits)
  qed simp
  with assms show ?thesis by (simp add: skips_wf_def)
qed

lemma length_skip_merge: "skip_merge a b rs = Some rs' \<Longrightarrow> length rs' = length rs"
  by (induction rs arbitrary: rs') (auto split: if_splits)

lemma add_skip_ok:
  assumes "skips_wf (skip_list s)" "a < b"
  shows "skips_wf (skip_list (badmem_log_add_skip a b s)) \<and>
    (if length (skip_list s) < SKIP_MAX \<or> skip_merge a b (skip_list s) \<noteq> None
     then \<forall>x. in_skips (skip_list (badmem_log_add_skip a b s)) x \<longleftrightarrow>
            in_skips (skip_list s) x \<or> a \<le> x \<and> x < b
     else badmem_log_add_skip a b s = s)"
proof (cases "skip_merge a b (skip_list s)")
  case None
  with assms show ?thesis
    by (auto simp: badmem_log_add_skip_def skips_wf_def in_skips_def)
next
  case (Some rs)
  moreover have "list_all (\<lambda>r. sk_start r < sk_end r) (skip_list s)"
    using assms(1) by (auto simp: skips_wf_def list_all_iff)
  ultimately show ?thesis
    using assms skip_merge_in [OF Some assms(2)] skip_merge_wf [OF Some assms(2,1)]
    by (simp add: badmem_log_add_skip_def leD)
qed

text \<open>The skip list covers exactly what was asked of it: adding a region makes the excluded
  addresses the old ones and those of the region, whether it is merged into an entry or
  appended, and only a region that touches no entry of a full list is lost; entries stay
  non-empty and at most 64.\<close>

theorem add_skip_union:
  assumes "skips_wf (skip_list s)" "a < b"
  shows "skips_wf (skip_list (badmem_log_add_skip a b s)) \<and>
    (if length (skip_list s) < SKIP_MAX \<or> skip_merge a b (skip_list s) \<noteq> None
     then \<forall>x. in_skips (skip_list (badmem_log_add_skip a b s)) x \<longleftrightarrow>
            in_skips (skip_list s) x \<or> a \<le> x \<and> x < b
     else badmem_log_add_skip a b s = s)"
  using assms by (rule add_skip_ok)

theorem add_skip_union_witness:
  "in_skips (skip_list (badmem_log_add_skip 0x200000 0x300000
     (empty_log\<lparr>skip_list := [\<lparr>sk_start = 0x100000, sk_end = 0x200000, sk_hits = 1\<rparr>]\<rparr>))) 0x2FFFFF"
  using add_skip_union [of "empty_log\<lparr>skip_list :=
      [\<lparr>sk_start = 0x100000, sk_end = 0x200000, sk_hits = 1\<rparr>]\<rparr>" "0x200000" "0x300000"]
  by (simp add: skips_wf_def SKIP_MAX_def)

text \<open>Only the first touching entry is grown, so a region that bridges two entries leaves them
  overlapping instead of coalescing them.\<close>

lemma add_skip_bridge_overlaps:
  "skip_list (fold (\<lambda>(a, b). badmem_log_add_skip a b)
     [(0, 0x100000), (0x200000, 0x300000), (0x80000, 0x280000)] empty_log) =
   [\<lparr>sk_start = 0, sk_end = 0x280000, sk_hits = 2\<rparr>,
    \<lparr>sk_start = 0x200000, sk_end = 0x300000, sk_hits = 1\<rparr>]"
  by (simp add: badmem_log_add_skip_def empty_log_def SKIP_MAX_def)

section \<open>The dump can be read back\<close>

fun shifts_below :: "nat \<Rightarrow> nat list" where
  "shifts_below 0 = []"
| "shifts_below (Suc k) = 4 * k # shifts_below k"

lemma nibble_shifts_below: "nibble_shifts = shifts_below 16"
  by (simp add: nibble_shifts_def numeral_eq_Suc)

lemma length_dump_nibbles: "length (dump_nibbles v started shifts) \<le> length shifts"
  by (induction v started shifts rule: dump_nibbles.induct) (auto simp: Let_def intro: le_SucI)

lemma length_dump_addr: "length (dump_addr v) \<le> 18"
  using length_dump_nibbles [of v False nibble_shifts] by (simp add: dump_addr_def nibble_shifts_def)

lemma nibble_digit:
  fixes w :: u64
  defines "nib \<equiv> (ucast (w AND 0xF) :: u8)"
  shows "hex_dig (if nib < 10 then ch CHR ''0'' + nib else ch CHR ''a'' + nib - 10) = Some nib"
proof -
  have "unat (w AND 0xF) < 16"
    using unat_and_mask [of w 4] by (simp add: mask_numeral)
  then obtain n where w: "w AND 0xF = of_nat n" and n: "n \<in> set [0..<16]"
    using that [of "unat (w AND 0xF)"] by simp
  have "list_all (\<lambda>n. let nib = ucast (of_nat n :: u64) :: u8 in
      hex_dig (if nib < 10 then ch CHR ''0'' + nib else ch CHR ''a'' + nib - 10) = Some nib) [0..<16]"
    by code_simp
  with n show ?thesis by (simp only: list_all_iff nib_def w Let_def)
qed

lemma hex_run_nibble:
  fixes w :: u64
  defines "nib \<equiv> (ucast (w AND 0xF) :: u8)"
  shows "hex_run (drop_bit 4 w) ok
      ((if nib < 10 then ch CHR ''0'' + nib else ch CHR ''a'' + nib - 10) # p) = hex_run w True p"
  unfolding nib_def hex_run.simps nibble_digit option.case hex_digits_step ..

lemma hex_run_nibbles_started:
  "hex_run (drop_bit (4 * k) v) ok (dump_nibbles v True (shifts_below k) @ r) =
     hex_run v (ok \<or> 0 < k) r"
proof (induction k arbitrary: ok)
  case (Suc k)
  have "drop_bit (4 * Suc k) v = drop_bit 4 (drop_bit (4 * k) v)" by (simp add: add.commute)
  then show ?case
    using Suc.IH [of True]
    by (simp only: shifts_below.simps dump_nibbles.simps Let_def not_True_eq_False simp_thms if_False
        append_Cons hex_run_nibble) simp
qed simp

lemma hex_run_nibbles:
  "drop_bit (4 * Suc k) v = 0 \<Longrightarrow>
   hex_run 0 False (dump_nibbles v False (shifts_below (Suc k)) @ r) = hex_run v True r"
proof (induction k)
  case 0
  then show ?case
    using hex_run_nibble [of v False r] by (simp add: Let_def del: hex_run.simps)
next
  case (Suc k)
  have top: "drop_bit 4 (drop_bit (4 * Suc k) v) = 0"
    using Suc.prems by (simp add: add.commute)
  show ?case
  proof (cases "ucast (drop_bit (4 * Suc k) v AND 0xF) = (0 :: u8)")
    case True
    then have "drop_bit (4 * Suc k) v = 0"
      using hex_digits_step [of "drop_bit (4 * Suc k) v"] top by simp
    with True Suc.IH show ?thesis by (simp add: Let_def del: hex_run.simps mult_Suc_right)
  next
    case False
    then show ?thesis
      using hex_run_nibble [of "drop_bit (4 * Suc k) v" False] top
        hex_run_nibbles_started [of "Suc k" v True r]
      by (simp add: Let_def del: hex_run.simps mult_Suc_right shifts_below.simps(2))
        (simp add: Let_def del: hex_run.simps mult_Suc_right)
  qed
qed

lemma drop_bit_64 [simp]: "drop_bit 64 (v :: u64) = 0"
  by (rule bit_word_eqI) (auto simp: bit_drop_bit_eq dest: bit_imp_le_length)

lemma hex_run_dump_addr:
  "hex_run 0 False (drop 2 (dump_addr v) @ r) = hex_run v True r"
  using hex_run_nibbles [of 15 v r] by (simp add: dump_addr_def nibble_shifts_below)

fun dump_text :: "u64 list \<Rightarrow> u8 list" where
  "dump_text [] = []"
| "dump_text (v # vs) =
     dump_addr v @ (if vs \<noteq> [] then [ch CHR '','', ch CHR '' ''] else []) @ dump_text vs"

lemma concat_dump_pages: "concat (dump_pages vs line) = line @ dump_text vs"
  by (induction vs line rule: dump_pages.induct) (simp_all add: Let_def)

lemma dump_pages_short:
  "length line \<le> 60 \<Longrightarrow> list_all (\<lambda>l. length l \<le> 60) (dump_pages vs line)"
proof (induction vs line rule: dump_pages.induct)
  case (2 v vs line)
  then show ?case using length_dump_addr [of v] by (auto simp: Let_def)
qed simp

text \<open>The dump fits the screen and loses nothing: every address line has at most 60 characters, so
  the 128-byte line buffer is never exceeded, and the lines together are the recorded pages in
  order, in hexadecimal, separated by a comma and a space.\<close>

theorem dump_lines:
  "list_all (\<lambda>l. length l \<le> 60) (dump_pages vs []) \<and> concat (dump_pages vs []) = dump_text vs"
  by (simp add: dump_pages_short concat_dump_pages)

end
