(* ===== verification/Skip_Prune.thy ===== *)
theory Skip_Prune
  imports Badmem_Log
begin

text \<open>
  \<^verbatim>\<open>src/skip.c\<close>: \<^verbatim>\<open>board_prune_vm_map\<close> cuts the recorded skip regions out of memtest86+'s map
  of the memory under test. The two work arrays of eight remnants are lists; an index past
  their end, which the code does not check on every path, is the error \<open>None\<close>. The number of
  segments the map can hold is memtest86+'s \<^verbatim>\<open>MAX_MEM_SEGMENTS\<close>, the parameter \<open>max_segs\<close>.
\<close>

record vm_map =
  vm_pm_base_addr :: u64
  vm_start :: u64
  vm_end :: u64
  vm_proximity_idx :: u32

type_synonym remnant = "u64 \<times> u64"

definition WORK_MAX :: nat where "WORK_MAX = 8"

text \<open>One skip range against the work list: the new work list and \<open>any_pruned\<close>.\<close>

fun cut_work ::
  "u64 \<Rightarrow> u64 \<Rightarrow> remnant list \<Rightarrow> remnant list \<Rightarrow> bool \<Rightarrow> (remnant list \<times> bool) option" where
  "cut_work sk_s sk_e [] new_work any_pruned = Some (new_work, any_pruned)"
| "cut_work sk_s sk_e ((a, b) # work) new_work any_pruned =
     (if sk_e \<le> a \<or> sk_s \<ge> b then
        if length new_work < WORK_MAX
        then cut_work sk_s sk_e work (new_work @ [(a, b)]) any_pruned
        else None
      else
        let new_work = (if sk_s > a \<and> length new_work < WORK_MAX
                        then new_work @ [(a, sk_s)] else new_work);
            new_work = (if sk_e < b \<and> length new_work < WORK_MAX
                        then new_work @ [(sk_e, b)] else new_work)
        in cut_work sk_s sk_e work new_work True)"

fun cut_segment ::
  "skip_range list \<Rightarrow> remnant list \<Rightarrow> bool \<Rightarrow> (remnant list \<times> bool) option" where
  "cut_segment [] work any_pruned = Some (work, any_pruned)"
| "cut_segment (sk # skips) work any_pruned =
     (if work = [] then Some (work, any_pruned)
      else Option.bind (cut_work (sk_start sk) (sk_end sk) work [] any_pruned)
             (\<lambda>(work, any_pruned). cut_segment skips work any_pruned))"

text \<open>The outer loop: the scratch map, which takes at most twice the segments, and the flag.\<close>

fun cut_map ::
  "nat \<Rightarrow> skip_range list \<Rightarrow> vm_map list \<Rightarrow> vm_map list \<Rightarrow> bool \<Rightarrow> (vm_map list \<times> bool) option"
where
  "cut_map max_segs skips [] scratch any_pruned = Some (scratch, any_pruned)"
| "cut_map max_segs skips (m # ms) scratch any_pruned =
     Option.bind (cut_segment skips [(vm_start m, vm_end m)] any_pruned)
       (\<lambda>(work, any_pruned).
          cut_map max_segs skips ms
            (scratch @ take (2 * max_segs - length scratch)
               (map (\<lambda>(s, e). m\<lparr>vm_start := s, vm_end := e\<rparr>) work))
            any_pruned)"

definition board_prune_vm_map ::
  "nat \<Rightarrow> skip_range list \<Rightarrow> vm_map list \<Rightarrow> vm_map list option" where
  "board_prune_vm_map max_segs skips vm =
     (if skips = [] then Some vm
      else Option.bind (cut_map max_segs skips vm [] False)
             (\<lambda>(scratch, any_pruned).
                Some (if any_pruned then take max_segs scratch else vm)))"

text \<open>
  The line printed when the skip list has grown since the last one: the number of segments and,
  as the \<open>MiB\<close> skipped, the number of regions; and the count to compare with next time.
\<close>

definition prune_notice ::
  "nat \<Rightarrow> skip_range list \<Rightarrow> vm_map list \<Rightarrow> nat \<Rightarrow> (nat \<times> nat) option \<times> nat" where
  "prune_notice max_segs skips vm last_announced =
     (if skips = [] then (None, last_announced)
      else
        (case cut_map max_segs skips vm [] False of
           None \<Rightarrow> (None, last_announced)
         | Some (scratch, any_pruned) \<Rightarrow>
             if any_pruned \<and> length skips \<noteq> last_announced
             then (Some (length (take max_segs scratch), length skips), length skips)
             else (None, last_announced)))"

definition board_current_vm_map_size :: "vm_map list \<Rightarrow> int" where
  "board_current_vm_map_size vm = int (length vm)"

definition board_skip_count_public :: "badmem_log \<Rightarrow> nat" where
  "board_skip_count_public s = badmem_log_skip_count s"

section \<open>Cutting one segment\<close>

text \<open>Remnants in order, not empty, none touching the next.\<close>

definition ordered :: "remnant list \<Rightarrow> bool" where
  "ordered work \<longleftrightarrow> list_all (\<lambda>(a, b). a < b) work \<and> sorted_wrt (\<lambda>(a, b) (c, d). b \<le> c) work"

definition in_work :: "remnant list \<Rightarrow> u64 \<Rightarrow> bool" where
  "in_work work x \<longleftrightarrow> list_ex (\<lambda>(a, b). a \<le> x \<and> x < b) work"

text \<open>The cut without the array bound.\<close>

definition pieces :: "u64 \<Rightarrow> u64 \<Rightarrow> remnant \<Rightarrow> remnant list" where
  "pieces sk_s sk_e r =
     (case r of (a, b) \<Rightarrow>
        if sk_e \<le> a \<or> sk_s \<ge> b then [(a, b)]
        else (if sk_s > a then [(a, sk_s)] else []) @ (if sk_e < b then [(sk_e, b)] else []))"

definition touched :: "u64 \<Rightarrow> u64 \<Rightarrow> remnant list \<Rightarrow> bool" where
  "touched sk_s sk_e work \<longleftrightarrow> list_ex (\<lambda>(a, b). \<not> (sk_e \<le> a \<or> sk_s \<ge> b)) work"

lemma cut_work_pieces:
  "length new_work + length (concat (map (pieces s e) work)) \<le> WORK_MAX \<Longrightarrow>
   cut_work s e work new_work p =
     Some (new_work @ concat (map (pieces s e) work), p \<or> touched s e work)"
proof (induction s e work new_work p rule: cut_work.induct)
  case (2 s e a b work new_work p)
  then show ?case
    by (auto simp: pieces_def touched_def Let_def)
qed (simp add: touched_def)

lemma pieces_right: "s < e \<Longrightarrow> e \<le> fst r \<Longrightarrow> pieces s e r = [r]"
  by (cases r) (simp add: pieces_def)

lemma pieces_none: "(\<And>q. q \<in> set work \<Longrightarrow> pieces s e q = [q]) \<Longrightarrow> concat (map (pieces s e) work) = work"
  by (induction work) simp_all

lemma length_pieces_sum:
  assumes "ordered work" "s < e"
  shows "length (concat (map (pieces s e) work)) \<le> Suc (length work)"
  using assms(1)
proof (induction work)
  case (Cons r work)
  obtain a b where r: "r = (a, b)" by fastforce
  from Cons.prems have ord: "ordered work" and lt: "a < b"
    and right: "\<And>q. q \<in> set work \<Longrightarrow> b \<le> fst q"
    by (auto simp: ordered_def r)
  show ?case
  proof (cases "e < b")
    case True
    with right have "concat (map (pieces s e) work) = work"
      using assms(2) by (intro pieces_none) (fastforce intro: pieces_right)
    moreover have "length (pieces s e r) \<le> 2" by (simp add: pieces_def split: prod.split)
    ultimately show ?thesis by simp
  next
    case False
    then have "length (pieces s e r) \<le> 1" by (simp add: pieces_def r)
    with Cons.IH [OF ord] show ?thesis by simp
  qed
qed simp

lemma in_work_pieces:
  assumes "s < e"
  shows "in_work (concat (map (pieces s e) work)) x \<longleftrightarrow> in_work work x \<and> \<not> (s \<le> x \<and> x < e)"
proof -
  have "in_work (pieces s e r) x \<longleftrightarrow> in_work [r] x \<and> \<not> (s \<le> x \<and> x < e)" for r
    using assms by (cases r) (auto simp: in_work_def pieces_def)
  then show ?thesis by (induction work) (auto simp: in_work_def)
qed

lemma pieces_within:
  assumes "q \<in> set (pieces s e (a, b))" "a < b" "s < e"
  shows "fst q < snd q \<and> a \<le> fst q \<and> snd q \<le> b"
  using assms by (auto simp: pieces_def split: if_splits)

lemma ordered_pieces:
  assumes "ordered work" "s < e"
  shows "ordered (concat (map (pieces s e) work))"
  using assms(1)
proof (induction work)
  case (Cons r work)
  obtain a b where r: "r = (a, b)" by fastforce
  from Cons.prems have ord: "ordered work" and lt: "a < b"
    and right: "\<And>c d. (c, d) \<in> set work \<Longrightarrow> b \<le> c \<and> c < d"
    by (auto simp: ordered_def r list_all_iff)
  note IH = Cons.IH [OF ord]
  have rest: "b \<le> fst q" if "q \<in> set (concat (map (pieces s e) work))" for q
  proof -
    from that obtain c d where cd: "(c, d) \<in> set work" "q \<in> set (pieces s e (c, d))" by auto
    with pieces_within [OF cd(2) _ assms(2)] right show ?thesis by fastforce
  qed
  have first: "snd q \<le> b" "fst q < snd q" if "q \<in> set (pieces s e r)" for q
    using pieces_within [OF _ lt assms(2)] that by (auto simp: r)
  have "ordered (pieces s e r)"
    using lt assms(2) by (auto simp: ordered_def pieces_def r)
  with IH show ?case
    using first rest
    by (auto simp: ordered_def sorted_wrt_append list_all_iff split_def) (meson order.trans)+
qed (simp add: ordered_def)

lemma cut_segment_ok:
  assumes "skips_wf skips" "ordered work" "length work + length skips \<le> WORK_MAX"
  shows "\<exists>work' q. cut_segment skips work p = Some (work', q) \<and> ordered work' \<and>
    length work' \<le> length work + length skips \<and>
    (\<forall>x. in_work work' x \<longleftrightarrow> in_work work x \<and> \<not> in_skips skips x) \<and> (\<not> q \<longrightarrow> \<not> p \<and> work' = work)"
  using assms
proof (induction skips arbitrary: work p)
  case Nil
  then show ?case by (simp add: in_skips_def)
next
  case (Cons sk skips)
  show ?case
  proof (cases "work = []")
    case True
    then show ?thesis by (simp add: in_work_def ordered_def)
  next
    case False
    let ?s = "sk_start sk" and ?e = "sk_end sk"
    from Cons.prems have lt: "?s < ?e" and wf: "skips_wf skips"
      by (auto simp: skips_wf_def)
    define work1 where "work1 = concat (map (pieces ?s ?e) work)"
    have len: "length work1 \<le> Suc (length work)"
      unfolding work1_def by (rule length_pieces_sum [OF Cons.prems(2) lt])
    have step: "cut_work ?s ?e work [] p = Some (work1, p \<or> touched ?s ?e work)"
      using len Cons.prems(3) by (subst cut_work_pieces) (simp_all add: work1_def)
    have same: "work1 = work" if "\<not> touched ?s ?e work"
      using that unfolding work1_def
      by (intro pieces_none) (auto simp: touched_def list_ex_iff pieces_def)
    have "length work1 + length skips \<le> WORK_MAX" using len Cons.prems(3) by simp
    from Cons.IH [OF wf _ this] ordered_pieces [OF Cons.prems(2) lt]
    obtain work' q where IH: "cut_segment skips work1 (p \<or> touched ?s ?e work) = Some (work', q)"
      "ordered work'" "length work' \<le> length work1 + length skips"
      "\<And>x. in_work work' x \<longleftrightarrow> in_work work1 x \<and> \<not> in_skips skips x"
      "\<not> q \<longrightarrow> \<not> (p \<or> touched ?s ?e work) \<and> work' = work1"
      unfolding work1_def by blast
    show ?thesis
      using False IH len same in_work_pieces [OF lt, of work]
      by (auto simp: step in_skips_def work1_def)
  qed
qed

section \<open>Pruning the map\<close>

definition vm_wf :: "vm_map list \<Rightarrow> bool" where
  "vm_wf ms \<longleftrightarrow> list_all (\<lambda>m. vm_start m < vm_end m) ms"

definition in_map :: "vm_map list \<Rightarrow> u64 \<Rightarrow> bool" where
  "in_map ms x \<longleftrightarrow> list_ex (\<lambda>m. vm_start m \<le> x \<and> x < vm_end m) ms"

lemma in_map_append [simp]: "in_map (ms @ ns) x \<longleftrightarrow> in_map ms x \<or> in_map ns x"
  by (simp add: in_map_def)

lemma cut_map_ok:
  assumes "skips_wf skips" "vm_wf ms" "Suc (length skips) \<le> WORK_MAX"
    "length scratch + length ms * Suc (length skips) \<le> 2 * max_segs"
  shows "\<exists>new q. cut_map max_segs skips ms scratch p = Some (scratch @ new, q) \<and>
    vm_wf new \<and> length new \<le> length ms * Suc (length skips) \<and>
    (\<forall>x. in_map new x \<longleftrightarrow> in_map ms x \<and> \<not> in_skips skips x) \<and> (\<not> q \<longrightarrow> \<not> p \<and> new = ms)"
  using assms(2,4)
proof (induction ms arbitrary: scratch p)
  case Nil
  then show ?case by (simp add: in_map_def vm_wf_def)
next
  case (Cons m ms)
  let ?put = "\<lambda>(s, e). m\<lparr>vm_start := s, vm_end := e\<rparr>"
  have "ordered [(vm_start m, vm_end m)]" using Cons.prems by (simp add: ordered_def vm_wf_def)
  from cut_segment_ok [OF assms(1) this, of p] assms(3)
  obtain work q where seg: "cut_segment skips [(vm_start m, vm_end m)] p = Some (work, q)"
    and work: "ordered work" "length work \<le> Suc (length skips)"
      "\<And>x. in_work work x \<longleftrightarrow> vm_start m \<le> x \<and> x < vm_end m \<and> \<not> in_skips skips x"
      "\<not> q \<longrightarrow> \<not> p \<and> work = [(vm_start m, vm_end m)]"
    by (auto simp: in_work_def)
  define new1 where "new1 = map ?put work"
  have new1: "vm_wf new1" "\<And>x. in_map new1 x \<longleftrightarrow> in_work work x"
    "length new1 \<le> Suc (length skips)"
    using work(1,2)
    by (auto simp: new1_def vm_wf_def in_map_def in_work_def ordered_def list_all_iff list_ex_iff
        split_def)
  have room: "take (2 * max_segs - length scratch) new1 = new1"
    using Cons.prems(2) new1(3) by simp
  have "length (scratch @ new1) + length ms * Suc (length skips) \<le> 2 * max_segs"
    using Cons.prems(2) new1(3) by simp
  from Cons.IH [OF _ this, of q] Cons.prems(1)
  obtain new q' where IH: "cut_map max_segs skips ms (scratch @ new1) q =
      Some ((scratch @ new1) @ new, q')" "vm_wf new" "length new \<le> length ms * Suc (length skips)"
    "\<And>x. in_map new x \<longleftrightarrow> in_map ms x \<and> \<not> in_skips skips x" "\<not> q' \<longrightarrow> \<not> q \<and> new = ms"
    by (auto simp: vm_wf_def)
  have "cut_map max_segs skips (m # ms) scratch p = Some (scratch @ (new1 @ new), q')"
    using seg IH(1) room by (simp add: new1_def)
  moreover have "vm_wf (new1 @ new)" using new1(1) IH(2) by (simp add: vm_wf_def)
  moreover have "length (new1 @ new) \<le> length (m # ms) * Suc (length skips)"
    using new1(3) IH(3) by simp
  moreover have "\<forall>x. in_map (new1 @ new) x \<longleftrightarrow> in_map (m # ms) x \<and> \<not> in_skips skips x"
    using new1(2) IH(4) work(3) by (auto simp: in_map_def)
  moreover have "\<not> q' \<longrightarrow> \<not> p \<and> new1 @ new = m # ms"
    using IH(5) work(4) by (auto simp: new1_def)
  ultimately show ?case by blast
qed

lemma prune_ok:
  assumes "skips_wf skips" "vm_wf vm" "length skips \<le> 7"
    "length vm * Suc (length skips) \<le> max_segs"
  shows "\<exists>vm'. board_prune_vm_map max_segs skips vm = Some vm' \<and> vm_wf vm' \<and>
    (\<forall>x. in_map vm' x \<longleftrightarrow> in_map vm x \<and> \<not> in_skips skips x)"
proof (cases "skips = []")
  case True
  with assms show ?thesis by (simp add: board_prune_vm_map_def in_skips_def)
next
  case False
  from cut_map_ok [OF assms(1,2), of "[]" max_segs False] assms(3,4)
  obtain new q where "cut_map max_segs skips vm [] False = Some (new, q)" "vm_wf new"
    "length new \<le> length vm * Suc (length skips)"
    "\<And>x. in_map new x \<longleftrightarrow> in_map vm x \<and> \<not> in_skips skips x" "\<not> q \<longrightarrow> new = vm"
    by (auto simp: WORK_MAX_def)
  with False assms(4) show ?thesis by (cases q) (simp_all add: board_prune_vm_map_def)
qed

text \<open>A map that holds no skipped address is left as it is.\<close>

lemma cut_segment_same:
  assumes "skips_wf skips" "a < b" "\<And>x. a \<le> x \<Longrightarrow> x < b \<Longrightarrow> \<not> in_skips skips x"
  shows "cut_segment skips [(a, b)] p = Some ([(a, b)], p)"
  using assms(1,3)
proof (induction skips)
  case (Cons sk skips)
  have lt: "sk_start sk < sk_end sk" using Cons.prems(1) by (simp add: skips_wf_def)
  have "sk_end sk \<le> a \<or> sk_start sk \<ge> b"
  proof (rule ccontr)
    assume "\<not> ?thesis"
    then have "a \<le> max a (sk_start sk)" "max a (sk_start sk) < b"
      "sk_start sk \<le> max a (sk_start sk)" "max a (sk_start sk) < sk_end sk"
      using assms(2) lt by auto
    with Cons.prems(2) [of "max a (sk_start sk)"] show False
      unfolding in_skips_def list_ex_iff by (meson list.set_intros(1))
  qed
  then have "cut_work (sk_start sk) (sk_end sk) [(a, b)] [] p = Some ([(a, b)], p)"
    by (simp add: WORK_MAX_def)
  moreover have "cut_segment skips [(a, b)] p = Some ([(a, b)], p)"
    using Cons.prems by (intro Cons.IH) (auto simp: skips_wf_def in_skips_def)
  ultimately show ?case by simp
qed simp

lemma cut_map_same:
  assumes "skips_wf skips" "vm_wf ms" "\<And>x. in_map ms x \<Longrightarrow> \<not> in_skips skips x"
  shows "\<exists>scratch'. cut_map max_segs skips ms scratch p = Some (scratch', p)"
  using assms(2,3)
proof (induction ms arbitrary: scratch)
  case (Cons m ms)
  have "cut_segment skips [(vm_start m, vm_end m)] p = Some ([(vm_start m, vm_end m)], p)"
    using Cons.prems by (intro cut_segment_same [OF assms(1)]) (auto simp: vm_wf_def in_map_def)
  moreover have "\<And>x. in_map ms x \<Longrightarrow> \<not> in_skips skips x" "vm_wf ms"
    using Cons.prems by (auto simp: in_map_def vm_wf_def)
  ultimately show ?case using Cons.IH by simp
qed simp

text \<open>C7: with at most seven skip regions and room in the map, pruning succeeds, and the memory left
  under test is exactly the memory of the map outside the regions.\<close>

theorem prune_vm_map_exact:
  assumes "skips_wf skips" "vm_wf vm" "length skips \<le> 7"
    "length vm * Suc (length skips) \<le> max_segs"
  shows "pred_option (\<lambda>vm'. vm_wf vm' \<and>
      (\<forall>x. in_map vm' x \<longleftrightarrow> in_map vm x \<and> \<not> in_skips skips x))
    (board_prune_vm_map max_segs skips vm) \<and> board_prune_vm_map max_segs skips vm \<noteq> None"
  using prune_ok [OF assms] by auto

definition one_window :: "vm_map list" where
  "one_window = [\<lparr>vm_pm_base_addr = 0, vm_start = 0x100000, vm_end = 0x4000000,
    vm_proximity_idx = 0\<rparr>]"

definition skip_mib :: "u64 \<Rightarrow> skip_range" where
  "skip_mib n = \<lparr>sk_start = n * 0x100000, sk_end = n * 0x100000 + 0x100000, sk_hits = 1\<rparr>"

theorem prune_vm_map_exact_witness:
  "board_prune_vm_map 128 [skip_mib 3] one_window \<noteq> None"
  using prune_vm_map_exact [of "[skip_mib 3]" one_window 128]
  by (simp add: skips_wf_def vm_wf_def one_window_def skip_mib_def SKIP_MAX_def)

section \<open>From the reported regions to the tested memory\<close>

definition report_skips :: "(u64 \<times> u64) list \<Rightarrow> badmem_log" where
  "report_skips regions = fold (\<lambda>(a, b). badmem_log_add_skip a b) regions empty_log"

text \<open>As long as the list has room for all of them, its entries cover the reported regions and no other
  address, in whatever order and overlap they come.\<close>

lemma report_skips_list:
  assumes "length regions \<le> SKIP_MAX" "\<forall>(a, b) \<in> set regions. a < b"
  shows "skips_wf (skip_list (report_skips regions)) \<and>
    length (skip_list (report_skips regions)) \<le> length regions \<and>
    (\<forall>x. in_skips (skip_list (report_skips regions)) x \<longleftrightarrow> (\<exists>(a, b) \<in> set regions. a \<le> x \<and> x < b))"
  using assms
proof (induction regions rule: rev_induct)
  case Nil
  show ?case by (simp add: report_skips_def empty_log_def skips_wf_def in_skips_def)
next
  case (snoc r regions)
  obtain a b where r: "r = (a, b)" by (cases r)
  have ab: "a < b" using snoc.prems(2) by (simp add: r)
  let ?s = "report_skips regions"
  have IH: "skips_wf (skip_list ?s)" "length (skip_list ?s) \<le> length regions"
    "\<And>x. in_skips (skip_list ?s) x \<longleftrightarrow> (\<exists>(a, b) \<in> set regions. a \<le> x \<and> x < b)"
    using snoc.IH snoc.prems by auto
  have last: "report_skips (regions @ [r]) = badmem_log_add_skip a b ?s" by (simp add: report_skips_def r)
  have "length (skip_list ?s) < SKIP_MAX" using IH(2) snoc.prems(1) by simp
  with add_skip_ok [OF IH(1) ab] have step: "skips_wf (skip_list (report_skips (regions @ [r])))"
    "\<And>x. in_skips (skip_list (report_skips (regions @ [r]))) x \<longleftrightarrow> in_skips (skip_list ?s) x \<or> a \<le> x \<and> x < b"
    unfolding last by simp_all
  have "length (skip_list (report_skips (regions @ [r]))) \<le> Suc (length (skip_list ?s))"
    unfolding last by (auto simp: badmem_log_add_skip_def split: option.split dest: length_skip_merge)
  then show ?case using step IH by (auto simp: r)
qed

text \<open>C6: what was reported as a region to skip is not tested, and everything else of the map is: for at
  most seven reported regions, in any order and overlap, and with room in the map, pruning with
  the list they have left succeeds, and the memory under test is the memory of the map outside
  the reported regions.\<close>

theorem reported_regions_skipped:
  assumes "length regions \<le> 7" "\<forall>(a, b) \<in> set regions. a < b" "vm_wf vm"
    and "length vm * Suc (length regions) \<le> max_segs"
  shows "\<exists>vm'. board_prune_vm_map max_segs (skip_list (report_skips regions)) vm = Some vm' \<and> vm_wf vm' \<and>
    (\<forall>x. in_map vm' x \<longleftrightarrow> in_map vm x \<and> \<not> (\<exists>(a, b) \<in> set regions. a \<le> x \<and> x < b))"
proof -
  have "length regions \<le> SKIP_MAX" using assms(1) by (simp add: SKIP_MAX_def)
  note skips = report_skips_list [OF this assms(2)]
  have "length vm * Suc (length (skip_list (report_skips regions))) \<le> length vm * Suc (length regions)"
    using skips by simp
  then have "length vm * Suc (length (skip_list (report_skips regions))) \<le> max_segs"
    using assms(4) by linarith
  moreover have "length (skip_list (report_skips regions)) \<le> 7" using skips assms(1) by linarith
  ultimately obtain vm' where vm': "board_prune_vm_map max_segs (skip_list (report_skips regions)) vm = Some vm'" "vm_wf vm'"
    "\<forall>x. in_map vm' x \<longleftrightarrow> in_map vm x \<and> \<not> in_skips (skip_list (report_skips regions)) x"
    using prune_ok [OF _ assms(3)] skips by blast
  moreover have "in_skips (skip_list (report_skips regions)) x \<longleftrightarrow> (\<exists>(a, b) \<in> set regions. a \<le> x \<and> x < b)" for x
    using skips by blast
  ultimately show ?thesis by (intro exI [of _ vm']) simp
qed

theorem reported_regions_skipped_witness:
  "\<exists>vm'. board_prune_vm_map 128 (skip_list (report_skips [(0x300000, 0x400000), (0x380000, 0x500000)])) one_window =
      Some vm' \<and> \<not> in_map vm' 0x4FFFFF \<and> in_map vm' 0x500000"
  using reported_regions_skipped [of "[(0x300000, 0x400000), (0x380000, 0x500000)]" one_window 128]
  by (force simp: one_window_def vm_wf_def in_map_def)

text \<open>Pruning is idempotent: once the regions are cut out, pruning with the same regions leaves
  the map as it is.\<close>

theorem prune_vm_map_idempotent:
  assumes "skips_wf skips" "vm_wf vm" "length skips \<le> 7"
    "length vm * Suc (length skips) \<le> max_segs"
    "board_prune_vm_map max_segs skips vm = Some vm'"
  shows "board_prune_vm_map max_segs skips vm' = Some vm'"
proof -
  have vm': "vm_wf vm'" "\<And>x. in_map vm' x \<Longrightarrow> \<not> in_skips skips x"
    using prune_ok [OF assms(1-4)] assms(5) by auto
  from cut_map_same [OF assms(1) vm', of max_segs "[]" False] show ?thesis
    by (auto simp: board_prune_vm_map_def)
qed

theorem prune_vm_map_idempotent_witness:
  "\<exists>vm. board_prune_vm_map 128 [skip_mib 3] one_window = Some vm \<and>
     board_prune_vm_map 128 [skip_mib 3] vm = Some vm"
proof -
  have ok: "skips_wf [skip_mib 3]" "vm_wf one_window" "length [skip_mib 3] \<le> 7"
    "length one_window * Suc (length [skip_mib 3]) \<le> 128"
    by (simp_all add: skips_wf_def vm_wf_def one_window_def skip_mib_def SKIP_MAX_def)
  obtain vm where "board_prune_vm_map 128 [skip_mib 3] one_window = Some vm"
    using prune_ok [OF ok] by blast
  with prune_vm_map_idempotent [OF ok] show ?thesis by blast
qed


text \<open>The notice calls the number of regions MiB, also for one region of five.\<close>

lemma notice_counts_regions:
  "prune_notice 4 [\<lparr>sk_start = 0x100000, sk_end = 0x600000, sk_hits = 5\<rparr>]
     [\<lparr>vm_pm_base_addr = 0, vm_start = 0, vm_end = 0x1000000, vm_proximity_idx = 0\<rparr>] 0 = (Some (2, 1), 1)"
  by (simp add: prune_notice_def WORK_MAX_def)

end
