(* ===== verification/Board_Topology.thy ===== *)
theory Board_Topology
  imports Efi_Text
begin

text \<open>
  \<^verbatim>\<open>src/smbios.c\<close> and \<^verbatim>\<open>src/board_topology.c\<close>: the product name from the SMBIOS table, the board
  profile it selects, and the package at a place of the board. The table of profiles is
  generated at build time and is a parameter; the SMBIOS structure that memtest86+ found is the
  list of the bytes from its header to the end of the table.
\<close>

section \<open>Data\<close>

text \<open>A designator is a pointer and the text it points to; the code compares both.\<close>

record board_package =
  bp_designator_ptr :: u64
  bp_designator :: "u8 list"
  bp_channel :: u8
  bp_rank :: u8
  bp_byte_lane :: u8
  bp_chip_width :: u8
  bp_location_hint :: "u8 list"

record board_profile =
  bf_board_id :: "u8 list"
  bf_friendly_name :: "u8 list"
  bf_products :: "u8 list option list"
  bf_num_products :: nat
  bf_package_count :: nat
  bf_chip_width :: u8
  bf_channels :: u8
  bf_ranks_per_channel :: u8
  bf_packages :: "board_package list"

definition BOARD_MAX_PACKAGES :: nat where "BOARD_MAX_PACKAGES = 16"

section \<open>The SMBIOS string table\<close>

text \<open>The \<^verbatim>\<open>do\<close> loop of \<open>tstruct_string\<close>: the pointer \<open>a\<close> as the bytes from there on, \<open>room\<close> the
  distance to \<open>maxlen\<close>, and \<open>n\<close> strings to go. The outer \<open>None\<close> is a read past the table, the
  inner one a string that is not there.\<close>

primrec tstruct_loop :: "u8 list \<Rightarrow> nat \<Rightarrow> int \<Rightarrow> u8 list option option" where
  "tstruct_loop [] room n = None"
| "tstruct_loop (c # a) room n =
     (let n' = (if c = 0 then n - 1 else n) in
      if n' = 0 \<and> c \<noteq> 0 then Some (Some (c # a))
      else if 1 < room then
        (if a = [] then None
         else if hd a = 0 \<and> c = 0 then Some None
         else tstruct_loop a (room - 1) n')
      else Some None)"

definition tstruct_string :: "u8 list \<Rightarrow> nat \<Rightarrow> nat \<Rightarrow> int \<Rightarrow> u8 list option option" where
  "tstruct_string bytes header_length maxlen n =
     (if n < 1 then Some None
      else tstruct_loop (drop header_length bytes) (maxlen - header_length) (n - 1))"

text \<open>\<open>smbios_board_id\<close>: \<open>None\<close> inside when memtest86+ found no system information. The structure is
  its bytes to the end of the table, its length byte and its product name index.\<close>

definition smbios_board_id :: "(u8 list \<times> u8 \<times> u8) option \<Rightarrow> u8 list option option" where
  "smbios_board_id dmi =
     (case dmi of
        None \<Rightarrow> Some None
      | Some (bytes, header_length, productname) \<Rightarrow>
         (let maxlen = length bytes in
          if maxlen \<le> unat header_length then Some None
          else
            let maxlen = (if maxlen > 0xFFFF then 0xFFFF else maxlen)
            in tstruct_string bytes (unat header_length) maxlen (int (unat productname))))"

section \<open>Boards and packages\<close>

definition product_matches :: "board_profile \<Rightarrow> u8 list option \<Rightarrow> bool" where
  "product_matches p product =
     (case product of
        None \<Rightarrow> False
      | Some product \<Rightarrow>
          list_ex (\<lambda>needle. case needle of None \<Rightarrow> False | Some needle \<Rightarrow> strn_exact product needle)
            (take (bf_num_products p) (bf_products p)))"

text \<open>The table of profiles may hold NULL entries.\<close>

fun first_match :: "board_profile option list \<Rightarrow> u8 list option \<Rightarrow> board_profile option" where
  "first_match [] product = None"
| "first_match (None # ps) product = first_match ps product"
| "first_match (Some p # ps) product =
     (if product_matches p product then Some p else first_match ps product)"

definition board_detect ::
  "board_profile option list \<Rightarrow> u8 list option \<Rightarrow> board_profile option" where
  "board_detect board_profiles product =
     (if product = None then None else first_match board_profiles product)"

definition package_at :: "u8 \<Rightarrow> u8 \<Rightarrow> u8 \<Rightarrow> board_package \<Rightarrow> bool" where
  "package_at channel rank byte_lane pk =
     (if bp_channel pk \<noteq> channel then False
      else if bp_rank pk \<noteq> rank then False
      else
        let lane_hi = bp_byte_lane pk + (if bp_chip_width pk = 16 then 1 else 0)
        in \<not> (byte_lane < bp_byte_lane pk \<or> byte_lane > lane_hi))"

definition board_lookup ::
  "board_profile option \<Rightarrow> u8 \<Rightarrow> u8 \<Rightarrow> u8 \<Rightarrow> board_package option" where
  "board_lookup p channel rank byte_lane =
     (case p of
        None \<Rightarrow> None
      | Some p \<Rightarrow> List.find (package_at channel rank byte_lane)
                   (take (bf_package_count p) (bf_packages p)))"

section \<open>The string table is read back\<close>

text \<open>An SMBIOS structure: the formatted part, its strings each with a NUL, and a closing NUL.\<close>

definition string_table :: "u8 list list \<Rightarrow> u8 list" where
  "string_table ss = concat (map (\<lambda>s. s @ [0]) ss) @ [0]"

definition strings_wf :: "u8 list list \<Rightarrow> bool" where
  "strings_wf ss \<longleftrightarrow> list_all (\<lambda>s. s \<noteq> [] \<and> 0 \<notin> set s) ss"

lemma tstruct_loop_found:
  "s \<noteq> [] \<Longrightarrow> 0 \<notin> set s \<Longrightarrow> tstruct_loop (s @ r) room 0 = Some (Some (s @ r))"
  by (cases s) auto

text \<open>Walking over a string that is not the one looked for, and over its terminator.\<close>

lemma tstruct_loop_skip:
  "0 \<notin> set s \<Longrightarrow> 0 < n \<Longrightarrow> length s + 1 < room \<Longrightarrow> s \<noteq> [] \<or> c \<noteq> 0 \<Longrightarrow>
   tstruct_loop (s @ 0 # c # r) room n =
     (if c = 0 then Some None else tstruct_loop (c # r) (room - length s - 1) (n - 1))"
proof (induction s arbitrary: room)
  case Nil
  then show ?case by (simp del: tstruct_loop.simps(2) add: tstruct_loop.simps(2) [of 0])
next
  case (Cons x s)
  have "tstruct_loop ((x # s) @ 0 # c # r) room n = tstruct_loop (s @ 0 # c # r) (room - 1) n"
    using Cons.prems by (cases s) auto
  then show ?case
    using Cons by (cases "s = []") (auto simp del: tstruct_loop.simps simp: tstruct_loop.simps(2) [of 0])
qed

lemma string_table_Cons: "string_table (s # ss) @ rest = s @ 0 # string_table ss @ rest"
  by (simp add: string_table_def)

lemma tstruct_loop_table:
  "strings_wf ss \<Longrightarrow> ss \<noteq> [] \<Longrightarrow> length (string_table ss) \<le> room \<Longrightarrow>
   tstruct_loop (string_table ss @ rest) room (int k) =
     Some (if k < length ss then Some (string_table (drop k ss) @ rest) else None)"
proof (induction ss arbitrary: k room)
  case (Cons s ss)
  have s: "s \<noteq> []" "0 \<notin> set s" and wf: "strings_wf ss" using Cons.prems by (auto simp: strings_wf_def)
  show ?case
  proof (cases k)
    case 0
    with s show ?thesis
      using tstruct_loop_found [OF s, of "0 # string_table ss @ rest" room]
      by (simp add: string_table_Cons)
  next
    case (Suc j)
    obtain c r where r: "string_table ss @ rest = c # r"
      by (cases ss; cases "hd ss") (auto simp: string_table_def)
    have c: "c = 0 \<longleftrightarrow> ss = []"
      using r wf by (cases ss; cases "hd ss") (auto simp: string_table_def strings_wf_def)
    have room: "length s + 1 < room" using Cons.prems(3) by (simp add: string_table_def)
    have "tstruct_loop (string_table (s # ss) @ rest) room (int k) =
        (if c = 0 then Some None else tstruct_loop (c # r) (room - length s - 1) (int k - 1))"
      unfolding string_table_Cons r
      using s room Suc by (intro tstruct_loop_skip) auto
    also have "\<dots> = Some (if k < length (s # ss) then Some (string_table (drop k (s # ss)) @ rest) else None)"
    proof (cases "ss = []")
      case True
      with c Suc show ?thesis by simp
    next
      case False
      have "length (string_table ss) \<le> room - length s - 1"
        using Cons.prems(3) by (simp add: string_table_def)
      from Cons.IH [OF wf False this, of j] show ?thesis using False c Suc r by simp
    qed
    finally show ?thesis .
  qed
qed simp

lemma cstr_string_table:
  "strings_wf ss \<Longrightarrow> k < length ss \<Longrightarrow> cstr (string_table (drop k ss) @ rest) = ss ! k"
proof (induction ss arbitrary: k)
  case (Cons s ss)
  have "0 \<notin> set s" using Cons.prems by (simp add: strings_wf_def)
  then have "cstr (s @ 0 # string_table ss @ rest) = s"
    by (simp add: cstr_idem)
  with Cons show ?case
    by (cases k) (auto simp: string_table_Cons strings_wf_def)
qed simp

text \<open>The product name is the string the SMBIOS structure names: on a structure whose
  formatted part is followed by its string table, \<open>tstruct_string\<close> returns the \<open>n\<close>-th string
  for every valid index, no string for every other, and never reads past the table.\<close>

theorem tstruct_string_nth:
  assumes "strings_wf ss" "ss \<noteq> []" "length hdr + length (string_table ss) \<le> maxlen"
  shows "map_option (map_option cstr)
      (tstruct_string (hdr @ string_table ss @ rest) (length hdr) maxlen n) =
    Some (if 1 \<le> n \<and> n \<le> int (length ss) then Some (ss ! nat (n - 1)) else None)"
proof (cases "n < 1")
  case False
  then obtain k where n: "n - 1 = int k" by (metis diff_ge_0_iff_ge linorder_not_le nonneg_int_cases)
  have "length (string_table ss) \<le> maxlen - length hdr" using assms(3) by simp
  from tstruct_loop_table [OF assms(1,2) this, of rest k] False n show ?thesis
    using cstr_string_table [OF assms(1), of k rest] by (auto simp: tstruct_string_def)
qed (simp add: tstruct_string_def)

theorem tstruct_string_nth_witness:
  "map_option (map_option cstr)
     (tstruct_string ([1, 4, 0, 2] @ string_table [str ''Apple Inc.'', str ''MacBookPro15,1''] @ [127])
        (length [1, 4, 0, 2 :: u8]) 100 2) = Some (Some (str ''MacBookPro15,1''))"
  by (subst tstruct_string_nth) (simp_all add: strings_wf_def string_table_def)

section \<open>Detection and lookup\<close>

text \<open>The product names a profile lists.\<close>

definition profile_names :: "board_profile \<Rightarrow> u8 list list" where
  "profile_names p =
     map cstr (List.map_filter (\<lambda>n. n) (take (bf_num_products p) (bf_products p)))"

lemma product_matches_names:
  "product_matches p (Some product) \<longleftrightarrow> cstr product \<in> set (profile_names p)"
  by (auto simp: product_matches_def profile_names_def List.map_filter_def list_ex_iff
      product.eq_cstr image_iff split: option.splits)

text \<open>Board detection picks the first profile of the table that lists the product name exactly;
  a name that is only a prefix of a listed one, or has one as a prefix, selects nothing.\<close>

theorem board_detect_first:
  "board_detect board_profiles (Some product) =
     List.find (\<lambda>p. cstr product \<in> set (profile_names p)) (List.map_filter (\<lambda>p. p) board_profiles)"
proof -
  have "first_match ps (Some product) =
    List.find (\<lambda>p. cstr product \<in> set (profile_names p)) (List.map_filter (\<lambda>p. p) ps)" for ps
    by (induction ps "Some product" rule: first_match.induct)
      (simp_all add: product_matches_names List.map_filter_def)
  then show ?thesis by (simp add: board_detect_def)
qed

lemma board_lookup_sound:
  "board_lookup (Some p) channel rank lane = Some pk \<Longrightarrow>
   pk \<in> set (bf_packages p) \<and> bp_channel pk = channel \<and> bp_rank pk = rank"
  by (auto simp: board_lookup_def find_Some_iff package_at_def split: if_splits
      dest: in_set_takeD nth_mem)

end
