(* ===== verification/Error_Hook.thy ===== *)
theory Error_Hook
  imports Badmem_Log Board_Topology Imc_Dispatch
begin

text \<open>
  \<^verbatim>\<open>src/error_hook.c\<close>: the fast path that logs an error during a test, and the pass that
  decodes the logged pages when a test pass has ended. The table of boards and the SMBIOS
  product name are parameters, as is the state of the memory-controller family behind the
  dispatcher. Shown lines are values.
\<close>

definition board_report_error :: "u64 \<Rightarrow> u64 \<Rightarrow> badmem_log \<Rightarrow> badmem_log" where
  "board_report_error addr xor_bits s = badmem_log_record addr s"

definition channel_ranks :: "mc_config option \<Rightarrow> u8 \<Rightarrow> u8" where
  "channel_ranks mc ch_idx =
     (case mc of
        None \<Rightarrow> 1
      | Some mc \<Rightarrow>
          if ch_idx > 1 then 1
          else
            let m = fold (\<lambda>dd m. if \<not> dimm_populated dd then m
                                else if dimm_ranks dd > m then dimm_ranks dd else m)
                      (chan_dimm (mc_channel mc ! unat ch_idx)) 0
            in if m \<noteq> 0 then m else 1)"

datatype pass_line =
    Pass_blank
  | Pass_count nat
  | Pass_suspect u64 u8 u8 "u8 list" nat
  | Pass_skip_count nat
  | Pass_skip u64 u64 u64 u32

record 's pass_state =
  ps_dispatch :: "'s dispatch"
  ps_log :: badmem_log
  ps_lines :: "pass_line list"

text \<open>One lane of one rank: look the package up, and record its designator unless it was seen on
  another lane. \<open>seen\<close> holds the designators, compared by their pointers.\<close>

definition visit_lane ::
  "board_profile option \<Rightarrow> u8 \<Rightarrow> u8 \<Rightarrow> u8 \<Rightarrow> (u64 \<times> u8 list) list \<times> badmem_log
     \<Rightarrow> (u64 \<times> u8 list) list \<times> badmem_log" where
  "visit_lane p channel r lane st =
     (let (seen, log) = st in
      case board_lookup p channel r lane of
        None \<Rightarrow> st
      | Some pk \<Rightarrow>
          if list_ex (\<lambda>e. fst e = bp_designator_ptr pk) seen then st
          else
            (if length seen < BOARD_MAX_PACKAGES
             then seen @ [(bp_designator_ptr pk, bp_designator pk)] else seen,
             badmem_log_record_chip (Some (bp_designator pk)) log))"

text \<open>The ranks from \<open>rank_lo\<close> to \<open>rank_hi\<close>; \<open>rank_hi\<close> is a decoded rank, 0 or 1, or one less than
  a byte, so the byte counter of the loop does not wrap.\<close>

definition rank_range :: "u8 \<Rightarrow> u8 \<Rightarrow> u8 list" where
  "rank_range rank_lo rank_hi = map of_nat [unat rank_lo..<Suc (unat rank_hi)]"

definition visit_packages ::
  "board_profile option \<Rightarrow> u8 \<Rightarrow> u8 \<Rightarrow> u8 \<Rightarrow> badmem_log \<Rightarrow> (u64 \<times> u8 list) list \<times> badmem_log"
where
  "visit_packages p channel rank_lo rank_hi log =
     fold (\<lambda>r. fold (visit_lane p channel r) (map of_nat [0..<8])) (rank_range rank_lo rank_hi)
       ([], log)"

definition decode_and_log_one ::
  "'s imc_ops list \<Rightarrow> board_profile option list \<Rightarrow> u8 list option \<Rightarrow> u64 \<Rightarrow> 's pass_state
     \<Rightarrow> 's pass_state" where
  "decode_and_log_one families board_profiles product addr s =
     (let (pa, ds) = imc_decode_pa families addr (ps_dispatch s);
          s = s\<lparr>ps_dispatch := ds\<rparr>
      in
        if \<not> d_valid pa then s
        else
          let s = (if d_bank_row_valid pa
                   then s\<lparr>ps_log := badmem_log_record_row (d_channel pa) (d_rank pa)
                            (d_bank_group pa) (d_bank pa) (d_row pa) (ps_log s)\<rparr>
                   else s);
              (mc, ds) = imc_config families (ps_dispatch s);
              s = s\<lparr>ps_dispatch := ds\<rparr>
          in
            case board_detect board_profiles product of
              None \<Rightarrow> s
            | Some p \<Rightarrow>
               (let ranks = channel_ranks mc (d_channel pa);
                    (rank_lo, rank_hi) =
                      (if d_rank_valid pa then (d_rank pa, d_rank pa)
                       else if ranks > 1 then (0, ranks - 1) else (0, 0));
                    (seen, log) = visit_packages (Some p) (d_channel pa) rank_lo rank_hi (ps_log s);
                    shown = (if seen = [] then []
                             else [Pass_suspect addr (d_channel pa)
                                     (if d_rank_valid pa then d_rank pa else 0)
                                     (snd (hd seen)) (length seen - 1)])
                in s\<lparr>ps_log := log, ps_lines := ps_lines s @ shown\<rparr>))"

definition skip_line_of :: "skip_range \<Rightarrow> pass_line" where
  "skip_line_of sk =
     Pass_skip (sk_start sk) (sk_end sk) (drop_bit 20 (sk_end sk - sk_start sk)) (sk_hits sk)"

definition board_decode_pass ::
  "'s imc_ops list \<Rightarrow> board_profile option list \<Rightarrow> u8 list option \<Rightarrow> 's pass_state \<Rightarrow> 's pass_state"
where
  "board_decode_pass families board_profiles product s =
     (if log_pages (ps_log s) = [] then s
      else
        let pas = log_pages (ps_log s);
            s = s\<lparr>ps_lines := ps_lines s @ [Pass_blank, Pass_count (length pas)]\<rparr>;
            s = fold (decode_and_log_one families board_profiles product) pas s;
            skips = skip_list (ps_log s)
        in if skips = [] then s
           else s\<lparr>ps_lines := ps_lines s @ Pass_skip_count (length skips) #
                    map skip_line_of skips\<rparr>)"

section \<open>What the pass records\<close>

lemma record_chip_frame [simp]:
  "log_pages (badmem_log_record_chip d s) = log_pages s"
  "skip_list (badmem_log_record_chip d s) = skip_list s"
  "row_log (badmem_log_record_chip d s) = row_log s"
  by (auto simp: badmem_log_record_chip_def Let_def split: option.split)

lemma record_row_frame [simp]:
  "log_pages (badmem_log_record_row c r g b w s) = log_pages s"
  "skip_list (badmem_log_record_row c r g b w s) = skip_list s"
  "chip_buf (badmem_log_record_row c r g b w s) = chip_buf s"
  by (auto simp: badmem_log_record_row_def)

text \<open>All of the log but its chips.\<close>

definition but_chips :: "badmem_log \<Rightarrow> u64 list \<times> skip_range list \<times> bad_row list" where
  "but_chips s = (log_pages s, skip_list s, row_log s)"

lemma visit_lane_frame: "but_chips (snd (visit_lane p c r l st)) = but_chips (snd st)"
  by (auto simp: visit_lane_def but_chips_def Let_def split: prod.split option.split)

lemma visit_packages_frame: "but_chips (snd (visit_packages p c lo hi log)) = but_chips log"
proof -
  have lanes: "but_chips (snd (fold (visit_lane p c r) ls st)) = but_chips (snd st)" for r ls st
    by (induction ls arbitrary: st) (simp_all add: visit_lane_frame)
  have "but_chips (snd (fold (\<lambda>r. fold (visit_lane p c r) ls) rs st)) = but_chips (snd st)" for rs ls st
    by (induction rs arbitrary: st) (simp_all add: lanes)
  then show ?thesis by (simp add: visit_packages_def)
qed

text \<open>The row that an address adds, on a machine whose configuration is read.\<close>

definition decoded_row :: "pa_decoded \<Rightarrow> bad_row" where
  "decoded_row d = \<lparr>br_ch = d_channel d, br_rank = d_rank d, br_bg = d_bank_group d,
     br_bank = d_bank d, br_row = d_row d\<rparr>"

definition pass_ready :: "'p hardware \<Rightarrow> mc_config \<Rightarrow> 'p imc_state pass_state \<Rightarrow> bool" where
  "pass_ready hw mc s \<longleftrightarrow>
     cfl_skl_detect hw \<and> dispatch_inv (g_families hw) (ps_dispatch s) \<and>
     imc_ready mc (family_state (ps_dispatch s))"

lemma decode_and_log_one_ready:
  fixes addr :: u64 and profiles :: "board_profile option list" and product :: "u8 list option"
  assumes "pass_ready hw mc s"
  defines "s' \<equiv> decode_and_log_one (g_families hw) profiles product addr s"
    and "d \<equiv> config_decode_pa mc (config_row_bits (Some mc)) addr"
  shows "pass_ready hw mc s' \<and> but_chips (ps_log s') = but_chips (record_row (decoded_row d) (ps_log s))"
proof -
  note ready = assms(1) [unfolded pass_ready_def]
  have ops: "cfl_skl_decode_pa hw addr (family_state (ps_dispatch s)) =
      (d, family_state (ps_dispatch s))"
    using ready imc_ready_ops(3) by (auto simp: d_def)
  define ds where "ds = (ps_dispatch s)\<lparr>g_detected := True, g_active := Some 0\<rparr>"
  have dec: "imc_decode_pa (g_families hw) addr (ps_dispatch s) = (d, ds)"
    using ready ops by (simp add: imc_decode_pa_def imc_active_cfl cfl_skl_kbl_ops_def ds_def)
  have conf: "imc_config (g_families hw) ds = (Some mc, ds)"
    using ready imc_ready_config [of mc "family_state ds" hw]
    by (simp add: imc_config_def imc_active_def g_families_def cfl_skl_kbl_ops_def ds_def Let_def)
  have inv: "dispatch_inv (g_families hw) ds"
    using ready by (simp add: dispatch_inv_def first_detected_cfl ds_def)
  have d: "d_valid d" "d_bank_row_valid d" by (simp_all add: d_def config_decode_pa_fields)
  define log where "log = record_row (decoded_row d) (ps_log s)"
  have row: "badmem_log_record_row (d_channel d) (d_rank d) (d_bank_group d) (d_bank d) (d_row d)
      (ps_log s) = log"
    by (simp add: log_def record_row_def decoded_row_def)
  have fam: "imc_ready mc (family_state ds)" using ready by (simp add: ds_def)
  show ?thesis
  proof (cases "board_detect profiles product")
    case None
    then have "s' = s\<lparr>ps_dispatch := ds, ps_log := log\<rparr>"
      by (simp add: s'_def decode_and_log_one_def dec d row conf)
    then show ?thesis using ready inv fam by (simp add: pass_ready_def flip: log_def)
  next
    case (Some p)
    then obtain lo hi shown where
      "s' = s\<lparr>ps_dispatch := ds, ps_log := snd (visit_packages (Some p) (d_channel d) lo hi log),
             ps_lines := ps_lines s @ shown\<rparr>"
      by (simp add: s'_def decode_and_log_one_def dec d row conf Let_def split_def)
    then show ?thesis
      using ready inv fam visit_packages_frame by (simp add: pass_ready_def flip: log_def)
  qed
qed

lemma record_row_but_chips:
  "but_chips a = but_chips b \<Longrightarrow> but_chips (record_row r a) = but_chips (record_row r b)"
  by (auto simp: but_chips_def record_row_def badmem_log_record_row_def)

lemma decode_fold_ready:
  assumes "pass_ready hw mc s"
  shows "pass_ready hw mc (fold (decode_and_log_one (g_families hw) profiles product) pas s) \<and>
    but_chips (ps_log (fold (decode_and_log_one (g_families hw) profiles product) pas s)) =
    but_chips (fold record_row
      (map (\<lambda>a. decoded_row (config_decode_pa mc (config_row_bits (Some mc)) a)) pas) (ps_log s))"
proof (induction pas rule: rev_induct)
  case Nil
  with assms show ?case by simp
next
  case (snoc a pas)
  let ?s = "fold (decode_and_log_one (g_families hw) profiles product) pas s"
  let ?d = "config_decode_pa mc (config_row_bits (Some mc)) a"
  have "pass_ready hw mc ?s" using snoc.IH ..
  note step = decode_and_log_one_ready [OF this, of profiles product a]
  have "but_chips (record_row (decoded_row ?d) (ps_log ?s)) = but_chips (record_row (decoded_row ?d)
      (fold record_row (map (\<lambda>a. decoded_row (config_decode_pa mc (config_row_bits (Some mc)) a)) pas)
         (ps_log s)))"
    using snoc.IH by (intro record_row_but_chips) simp
  with step show ?case by (simp only: fold_append fold.simps comp_apply id_apply map_append list.map)
qed

lemma decode_pass_rows:
  assumes "pass_ready hw mc s" "row_log (ps_log s) = []"
  shows "row_log (ps_log (board_decode_pass (g_families hw) profiles product s)) =
      take MAX_BAD_ROWS (first_occurrences
        (map (\<lambda>a. decoded_row (config_decode_pa mc (config_row_bits (Some mc)) a))
           (log_pages (ps_log s)))) \<and>
    log_pages (ps_log (board_decode_pass (g_families hw) profiles product s)) = log_pages (ps_log s)"
proof (cases "log_pages (ps_log s) = []")
  case True
  with assms(2) show ?thesis by (simp add: board_decode_pass_def first_occurrences_def)
next
  case False
  let ?pas = "log_pages (ps_log s)"
  let ?row = "\<lambda>a. decoded_row (config_decode_pa mc (config_row_bits (Some mc)) a)"
  define s1 where "s1 = s\<lparr>ps_lines := ps_lines s @ [Pass_blank, Pass_count (length ?pas)]\<rparr>"
  define s2 where "s2 = fold (decode_and_log_one (g_families hw) profiles product) ?pas s1"
  have "pass_ready hw mc s1" using assms(1) by (simp add: s1_def pass_ready_def)
  from decode_fold_ready [OF this, of profiles product ?pas]
  have s2: "but_chips (ps_log s2) = but_chips (fold record_row (map ?row ?pas) (ps_log s))"
    by (simp add: s2_def s1_def)
  have "log_pages (fold record_row rs l) = log_pages l" for rs l
    by (induction rs arbitrary: l) (simp_all add: record_row_def)
  with s2 have pages: "log_pages (ps_log s2) = ?pas" by (simp add: but_chips_def)
  have "row_log (ps_log s2) = take MAX_BAD_ROWS (first_occurrences (map ?row ?pas))"
    using s2 rows.contents_fold [of "ps_log s" "map ?row ?pas"] assms(2)
    by (simp add: but_chips_def list_all_iff List.map_filter_def o_def)
  moreover have "ps_log (board_decode_pass (g_families hw) profiles product s) = ps_log s2"
    using False by (simp add: board_decode_pass_def s2_def s1_def Let_def)
  ultimately show ?thesis using pages by simp
qed

section \<open>From the reported errors to the recorded rows\<close>

text \<open>The log after a sequence of errors: their pages, no row, and the row of every page after the pass.\<close>

definition report_errors :: "(u64 \<times> u64) list \<Rightarrow> badmem_log" where
  "report_errors errors = fold (\<lambda>(addr, xor_bits). board_report_error addr xor_bits) errors empty_log"

lemma report_errors_row_log: "row_log (report_errors errors) = []"
proof -
  have "row_log (fold (\<lambda>(addr, xor_bits). board_report_error addr xor_bits) errors l) = row_log l" for l
    by (induction errors arbitrary: l) (auto simp: board_report_error_def badmem_log_record_def Let_def)
  then show ?thesis by (simp add: report_errors_def empty_log_def)
qed

lemma report_errors_pages:
  assumes "(addr, x) \<in> set errors" "length (log_pages (report_errors errors)) < MAX_ENTRIES"
  shows "addr AND PAGE_MASK \<in> set (log_pages (report_errors errors))"
proof -
  have "fold (\<lambda>(addr, xor_bits). board_report_error addr xor_bits) errors l = fold badmem_log_record (map fst errors) l" for l
    by (induction errors arbitrary: l) (auto simp: board_report_error_def)
  then have "log_pages (report_errors errors) =
      take MAX_ENTRIES (first_occurrences (map (\<lambda>a. a AND PAGE_MASK) (map fst errors)))"
    using pages.contents_fold [of empty_log "map fst errors"]
    by (simp add: report_errors_def empty_log_def List.map_filter_def o_def list_all_iff)
  moreover from this have "length (first_occurrences (map (\<lambda>a. a AND PAGE_MASK) (map fst errors))) < MAX_ENTRIES"
    using assms(2) by (simp add: min_less_iff_disj)
  ultimately show ?thesis using assms(1) by force
qed

lemma report_errors_aligned: "list_all page_aligned (log_pages (report_errors errors))"
proof -
  have "list_all page_aligned (log_pages l) \<Longrightarrow> list_all page_aligned
      (log_pages (fold (\<lambda>(addr, xor_bits). board_report_error addr xor_bits) errors l))" for l
    by (induction errors arbitrary: l) (auto simp: board_report_error_def badmem_log_record_def Let_def)
  then show ?thesis by (simp add: report_errors_def empty_log_def)
qed

text \<open>What the decode pass records for the reported errors.\<close>

definition recorded_rows ::
  "'p hardware \<Rightarrow> board_profile option list \<Rightarrow> u8 list option \<Rightarrow> 'p imc_state pass_state \<Rightarrow> bad_row list" where
  "recorded_rows hw profiles product s = row_log (ps_log (board_decode_pass (g_families hw) profiles product s))"

lemma recorded_row_of_error:
  assumes "pass_ready hw mc s" "ps_log s = report_errors errors"
    and "(addr, x) \<in> set errors" "length (log_pages (ps_log s)) < MAX_ENTRIES"
    and "length (recorded_rows hw profiles product s) < MAX_BAD_ROWS"
  shows "decoded_row (config_decode_pa mc (config_row_bits (Some mc)) (addr AND PAGE_MASK))
    \<in> set (recorded_rows hw profiles product s)"
proof -
  let ?row = "\<lambda>a. decoded_row (config_decode_pa mc (config_row_bits (Some mc)) a)"
  have "row_log (ps_log s) = []" by (simp add: assms(2) report_errors_row_log)
  then have rows: "recorded_rows hw profiles product s =
      take MAX_BAD_ROWS (first_occurrences (map ?row (log_pages (ps_log s))))"
    using decode_pass_rows [OF assms(1)] by (simp add: recorded_rows_def)
  then have "length (first_occurrences (map ?row (log_pages (ps_log s)))) < MAX_BAD_ROWS"
    using assms(5) by (simp add: min_less_iff_disj)
  with rows have "set (recorded_rows hw profiles product s) = ?row ` set (log_pages (ps_log s))" by simp
  then show ?thesis using report_errors_pages [OF assms(3)] assms(2,4) by auto
qed

text \<open>C27: the pass at the end of a test pass records, for a fresh row table, the decoded rows of the
  logged pages, each once, in order, up to 256, and leaves the pages as they are, whatever the
  board and its chips.\<close>

theorem board_decode_pass_rows:
  assumes "pass_ready hw mc s" "row_log (ps_log s) = []"
  shows "row_log (ps_log (board_decode_pass (g_families hw) profiles product s)) =
      take MAX_BAD_ROWS (first_occurrences
        (map (\<lambda>a. decoded_row (config_decode_pa mc (config_row_bits (Some mc)) a))
           (log_pages (ps_log s)))) \<and>
    log_pages (ps_log (board_decode_pass (g_families hw) profiles product s)) = log_pages (ps_log s)"
  using assms by (rule decode_pass_rows)

definition a1990_pass :: "u64 list \<Rightarrow> unit imc_state pass_state" where
  "a1990_pass pages =
     \<lparr>ps_dispatch = \<lparr>g_active = None, g_detected = False,
        family_state = snd (cfl_skl_config (a1990_hw 0x410) blank_imc)\<rparr>,
      ps_log = empty_log\<lparr>log_pages := pages\<rparr>, ps_lines = []\<rparr>"

lemma a1990_pass_ready: "pass_ready (a1990_hw 0x410) a1990_mc (a1990_pass pages)"
  using cfl_skl_config_ready [OF imc_inv_blank a1990_read]
  by (simp add: pass_ready_def a1990_pass_def dispatch_inv_def)
    (simp add: cfl_skl_detect_def a1990_hw_def)

theorem board_decode_pass_rows_witness:
  "row_log (ps_log (board_decode_pass (g_families (a1990_hw 0x410)) [] None (a1990_pass [0x80000]))) =
     [decoded_row (config_decode_pa a1990_mc 17 0x80000)]"
  using board_decode_pass_rows [OF a1990_pass_ready, of "[0x80000]" "[]" None]
  by (simp add: a1990_pass_def empty_log_def a1990_row_bits first_occurrences_def MAX_BAD_ROWS_def)

text \<open>With both channels populated and no channel hash, the pass attributes every error to
  channel 0, whichever channel failed: the channel is address bit 6, and the log has kept only
  the page of the error.\<close>

theorem board_decode_pass_channel_0:
  assumes "pass_ready hw mc s" "mc_channels_populated mc \<noteq> 1" "mc_chan_hash mc AND 1 = 0"
    and "ps_log s = report_errors errors"
  shows "list_all (\<lambda>r. br_ch r = 0)
    (row_log (ps_log (board_decode_pass (g_families hw) profiles product s)))"
proof -
  have empty: "row_log (ps_log s) = []" by (simp add: assms(4) report_errors_row_log)
  have aligned: "list_all page_aligned (log_pages (ps_log s))" by (simp add: assms(4) report_errors_aligned)
  note page_base_channel [OF _ assms(2,3)]
  with aligned have "\<forall>a \<in> set (log_pages (ps_log s)). cfl_skl_decode_channel a mc = 0"
    by (simp add: list_all_iff)
  then show ?thesis
    using decode_pass_rows [OF assms(1) empty, of profiles product]
    by (auto simp: list_all_iff decoded_row_def config_decode_pa_fields dest!: in_set_takeD)
qed

theorem board_decode_pass_channel_0_witness:
  "list_all (\<lambda>r. br_ch r = 0) (row_log (ps_log (board_decode_pass (g_families (a1990_hw 0x410)) [] None
     (a1990_pass [0x80000])))) \<and> d_channel (config_decode_pa a1990_mc 17 0x80040) = 1"
proof
  have "ps_log (a1990_pass [0x80000]) = report_errors [(0x80040, 1)]"
    by (simp add: a1990_pass_def report_errors_def board_report_error_def badmem_log_record_def empty_log_def
        PAGE_MASK_def PAGE_SIZE_def MAX_ENTRIES_def)
  moreover have "mc_channels_populated a1990_mc \<noteq> 1" "mc_chan_hash a1990_mc AND 1 = 0"
    by (simp_all add: a1990_mc_def a1990_config)
  ultimately show "list_all (\<lambda>r. br_ch r = 0) (row_log (ps_log (board_decode_pass
      (g_families (a1990_hw 0x410)) [] None (a1990_pass [0x80000]))))"
    using board_decode_pass_channel_0 [OF a1990_pass_ready, of "[0x80000]"] by blast
  show "d_channel (config_decode_pa a1990_mc 17 0x80040) = 1"
    by (simp add: config_decode_pa_fields cfl_skl_decode_channel_def a1990_mc_def a1990_config)
qed

end
