(* ===== verification/Efi_Firmware.thy ===== *)
theory Efi_Firmware
  imports Efi_Text "HOL-Library.AList"
begin

text \<open>
  The firmware as the EFI programs see it: the status codes of \<^verbatim>\<open>efi/efi_types.h\<close>, the services of
  the system table that the programs call, and the NVRAM wrappers and key reader that
  \<^verbatim>\<open>efi/mask-common/mask_ops.c\<close> and \<^verbatim>\<open>efi/efi_util.c\<close> put in front of them. The firmware is not
  part of the repository: it is a record of functions over an abstract world \<open>'w\<close>, a parameter
  of every definition that calls it. What the programs rely on is stated as predicates on that
  record (\<open>variable_store\<close>, \<open>enum_law\<close>, \<open>page_allocator\<close>) after the UEFI specification; properties that need
  one have it as a hypothesis. Console output has no effect on the world and is left out.
\<close>

section \<open>Status codes, identifiers, keys\<close>

type_synonym status = u64

definition EFI_SUCCESS :: status where "EFI_SUCCESS = 0"
definition EFI_LOAD_ERROR :: status where "EFI_LOAD_ERROR = 0x8000000000000000 OR 1"
definition EFI_INVALID_PARAMETER :: status where "EFI_INVALID_PARAMETER = 0x8000000000000000 OR 2"
definition EFI_UNSUPPORTED :: status where "EFI_UNSUPPORTED = 0x8000000000000000 OR 3"
definition EFI_BUFFER_TOO_SMALL :: status where "EFI_BUFFER_TOO_SMALL = 0x8000000000000000 OR 5"
definition EFI_NOT_READY :: status where "EFI_NOT_READY = 0x8000000000000000 OR 6"
definition EFI_OUT_OF_RESOURCES :: status where "EFI_OUT_OF_RESOURCES = 0x8000000000000000 OR 9"
definition EFI_VOLUME_FULL :: status where "EFI_VOLUME_FULL = 0x8000000000000000 OR 13"
definition EFI_NOT_FOUND :: status where "EFI_NOT_FOUND = 0x8000000000000000 OR 14"
definition EFI_ACCESS_DENIED :: status where "EFI_ACCESS_DENIED = 0x8000000000000000 OR 15"
definition EFI_ABORTED :: status where "EFI_ABORTED = 0x8000000000000000 OR 21"

lemmas efi_status_defs = EFI_SUCCESS_def EFI_LOAD_ERROR_def EFI_INVALID_PARAMETER_def
  EFI_UNSUPPORTED_def EFI_BUFFER_TOO_SMALL_def EFI_NOT_READY_def EFI_OUT_OF_RESOURCES_def
  EFI_VOLUME_FULL_def EFI_NOT_FOUND_def EFI_ACCESS_DENIED_def EFI_ABORTED_def

text \<open>\<open>EFI_GUID\<close> with its three integers and eight bytes, and its 16 bytes in memory.\<close>

record efi_guid =
  guid_data1 :: u32
  guid_data2 :: u16
  guid_data3 :: u16
  guid_data4 :: "u8 list"

definition guid_bytes :: "efi_guid \<Rightarrow> u8 list" where
  "guid_bytes g = to_le 4 (guid_data1 g) @ to_le 2 (guid_data2 g) @ to_le 2 (guid_data3 g) @ guid_data4 g"

definition BRR_GUID :: efi_guid where
  "BRR_GUID = \<lparr>guid_data1 = 0x3e3e9db2, guid_data2 = 0x1a2b, guid_data3 = 0x4b5c,
     guid_data4 = [0x9d, 0x1e, 0x5f, 0x6a, 0x7b, 0x8c, 0x9d, 0x0e]\<rparr>"

definition EFI_GLOBAL_GUID :: efi_guid where
  "EFI_GLOBAL_GUID = \<lparr>guid_data1 = 0x8be4df61, guid_data2 = 0x93ca, guid_data3 = 0x11d2,
     guid_data4 = [0xaa, 0x0d, 0x00, 0xe0, 0x98, 0x03, 0x2b, 0x8c]\<rparr>"

text \<open>\<open>EFI_INPUT_KEY\<close>.\<close>

record input_key =
  key_scan :: u16
  key_char :: u16

text \<open>\<open>NV | BS | RT\<close>, the attributes every variable of the programs carries.\<close>

definition NV_BS_RT :: u32 where "NV_BS_RT = 1 OR 2 OR 4"

text \<open>Names of the variables, without the terminator.\<close>

definition BRR_VARNAME_STATE :: "u16 list" where "BRR_VARNAME_STATE = str ''BrrMaskState''"
definition BRR_VARNAME_BADPAGES :: "u16 list" where "BRR_VARNAME_BADPAGES = str ''BrrBadPages''"
definition BRR_VARNAME_BADCHIPS :: "u16 list" where "BRR_VARNAME_BADCHIPS = str ''BrrBadChips''"
definition BRR_VARNAME_ORIGBOOT :: "u16 list" where "BRR_VARNAME_ORIGBOOT = str ''BrrBackupBootOrder''"
definition BRR_VARNAME_ORIGBOOT_LEGACY :: "u16 list" where
  "BRR_VARNAME_ORIGBOOT_LEGACY = str ''A1990MaskOriginalBootOrder''"
definition BRR_VARNAME_BOOTSLOT :: "u16 list" where "BRR_VARNAME_BOOTSLOT = str ''BrrBootSlot''"
definition BRR_VARNAME_BOOTENTRIES :: "u16 list" where
  "BRR_VARNAME_BOOTENTRIES = str ''BrrBackupBootEntries''"

text \<open>Values of the state variable.\<close>

definition BRR_STATE_TRIAL_PENDING_PAGE :: "u8 list" where
  "BRR_STATE_TRIAL_PENDING_PAGE = str ''TRIAL_PENDING_PAGE''"
definition BRR_STATE_TRIAL_PENDING_CHIP :: "u8 list" where
  "BRR_STATE_TRIAL_PENDING_CHIP = str ''TRIAL_PENDING_CHIP''"
definition BRR_STATE_TRIAL_BOOTED :: "u8 list" where
  "BRR_STATE_TRIAL_BOOTED = str ''TRIAL_BOOTED''"
definition BRR_STATE_PERMANENT_UNCONFIRMED :: "u8 list" where
  "BRR_STATE_PERMANENT_UNCONFIRMED = str ''PERMANENT_UNCONFIRMED''"
definition BRR_STATE_PERMANENT_CONFIRMED :: "u8 list" where
  "BRR_STATE_PERMANENT_CONFIRMED = str ''PERMANENT_CONFIRMED''"

lemmas brr_names = BRR_VARNAME_STATE_def BRR_VARNAME_BADPAGES_def BRR_VARNAME_BADCHIPS_def
  BRR_VARNAME_ORIGBOOT_def BRR_VARNAME_ORIGBOOT_LEGACY_def BRR_VARNAME_BOOTSLOT_def
  BRR_VARNAME_BOOTENTRIES_def

lemmas brr_states = BRR_STATE_TRIAL_PENDING_PAGE_def BRR_STATE_TRIAL_PENDING_CHIP_def
  BRR_STATE_TRIAL_BOOTED_def BRR_STATE_PERMANENT_UNCONFIRMED_def BRR_STATE_PERMANENT_CONFIRMED_def

section \<open>The services\<close>

text \<open>
  \<open>GetVariable\<close> gets the name, the vendor and the size of the buffer, and returns the status and
  what it wrote, whose length is the size it returns; \<open>SetVariable\<close> with no data deletes.
  \<open>AllocatePages\<close> is the one call the programs make of it, one page of reserved memory at a
  given address. \<open>GetMemoryMap\<close> without a buffer returns the two sizes, with one the descriptors.
  A handle is a number, 0 is \<open>NULL\<close>; an open file is the volume it is on and its path, so that
  \<open>Open\<close> is asked for a path and the other file calls name it; closing and flushing change
  nothing. \<open>DevicePath\<close> is the bytes of the device path protocol, from the first node. Of the
  loaded image protocol, \<open>ImageDevice\<close> is the device, \<open>ImagePath\<close> the bytes of the file path and
  \<open>LoadOptions\<close> the characters of the options, none when the pointer is null. \<open>AllHandles\<close> is
  \<open>LocateHandleBuffer\<close> over every handle, \<open>VolumeInfo\<close> is \<open>GetInfo\<close> on the root of a volume,
  \<open>SetPosition\<close> and \<open>ReadDir\<close> rewind and read an open directory, whose read position is part of
  the world. \<open>LoadImage\<close> gets the parent, the device path and the source buffer.
\<close>

type_synonym handle = nat

record memory_descriptor =
  md_type :: u32
  md_start :: u64
  md_pages :: u64

record 'w firmware =
  GetVariable :: "u16 list \<Rightarrow> efi_guid \<Rightarrow> nat \<Rightarrow> 'w \<Rightarrow> status \<times> u8 list"
  SetVariable :: "u16 list \<Rightarrow> efi_guid \<Rightarrow> u32 \<Rightarrow> u8 list \<Rightarrow> 'w \<Rightarrow> status \<times> 'w"
  GetNextVariableName :: "u16 list \<Rightarrow> efi_guid \<Rightarrow> 'w \<Rightarrow> status \<times> u16 list \<times> efi_guid"
  AllocatePage :: "u64 \<Rightarrow> 'w \<Rightarrow> status \<times> 'w"
  AllocatePool :: "nat \<Rightarrow> 'w \<Rightarrow> status \<times> 'w"
  FreePool :: "'w \<Rightarrow> 'w"
  GetMemoryMapSize :: "'w \<Rightarrow> status \<times> nat \<times> nat"
  GetMemoryMap :: "nat \<Rightarrow> 'w \<Rightarrow> status \<times> memory_descriptor list"
  HasConIn :: bool
  ReadKeyStroke :: "'w \<Rightarrow> (status \<times> input_key) \<times> 'w"
  Stall :: "u64 \<Rightarrow> 'w \<Rightarrow> 'w"
  ImageDevice :: "handle \<Rightarrow> 'w \<Rightarrow> status \<times> handle"
  LocateSfsSize :: "'w \<Rightarrow> status \<times> nat"
  LocateSfs :: "nat \<Rightarrow> 'w \<Rightarrow> status \<times> handle list"
  IsRemovable :: "handle \<Rightarrow> 'w \<Rightarrow> status \<times> bool"
  HandleSfs :: "handle \<Rightarrow> 'w \<Rightarrow> status"
  OpenVolume :: "handle \<Rightarrow> 'w \<Rightarrow> status"
  DevicePath :: "handle \<Rightarrow> 'w \<Rightarrow> status \<times> u8 list option"
  FileOpen :: "handle \<Rightarrow> u16 list \<Rightarrow> u64 \<Rightarrow> u64 \<Rightarrow> 'w \<Rightarrow> status \<times> 'w"
  FileSize :: "handle \<Rightarrow> u16 list \<Rightarrow> 'w \<Rightarrow> status \<times> nat"
  FileRead :: "handle \<Rightarrow> u16 list \<Rightarrow> nat \<Rightarrow> 'w \<Rightarrow> status \<times> u8 list"
  FileWrite :: "handle \<Rightarrow> u16 list \<Rightarrow> u8 list \<Rightarrow> 'w \<Rightarrow> status \<times> 'w"
  FileDelete :: "handle \<Rightarrow> u16 list \<Rightarrow> 'w \<Rightarrow> 'w"
  ImagePath :: "handle \<Rightarrow> 'w \<Rightarrow> status \<times> u8 list option"
  LoadOptions :: "handle \<Rightarrow> 'w \<Rightarrow> status \<times> u16 list"
  AllHandles :: "'w \<Rightarrow> status \<times> handle list"
  ConnectController :: "handle \<Rightarrow> 'w \<Rightarrow> status \<times> 'w"
  VolumeInfo :: "handle \<Rightarrow> efi_guid \<Rightarrow> nat \<Rightarrow> 'w \<Rightarrow> status \<times> u8 list"
  SetPosition :: "handle \<Rightarrow> u16 list \<Rightarrow> 'w \<Rightarrow> status \<times> 'w"
  ReadDir :: "handle \<Rightarrow> u16 list \<Rightarrow> nat \<Rightarrow> 'w \<Rightarrow> (status \<times> u8 list) \<times> 'w"
  LoadImage :: "handle \<Rightarrow> u8 list option \<Rightarrow> u8 list option \<Rightarrow> 'w \<Rightarrow> (status \<times> handle) \<times> 'w"
  StartImage :: "handle \<Rightarrow> 'w \<Rightarrow> status \<times> 'w"

definition EFI_FILE_MODE_READ :: u64 where "EFI_FILE_MODE_READ = 1"
definition EFI_FILE_MODE_WRITE :: u64 where "EFI_FILE_MODE_WRITE = 2"
definition EFI_FILE_MODE_CREATE :: u64 where "EFI_FILE_MODE_CREATE = 0x8000000000000000"

definition efi_stall_ms :: "'w firmware \<Rightarrow> u64 \<Rightarrow> 'w \<Rightarrow> 'w" where
  "efi_stall_ms fw ms w = Stall fw (ms * 1000) w"

definition efi_readkey :: "'w firmware \<Rightarrow> 'w \<Rightarrow> u16 \<times> 'w" where
  "efi_readkey fw w =
     (if \<not> HasConIn fw then (0, w)
      else
        let ((s, key), w) = ReadKeyStroke fw w
        in (if s = EFI_SUCCESS then key_char key else 0, w))"

definition mask_nvram_set_ascii ::
  "'w firmware \<Rightarrow> u16 list \<Rightarrow> u8 list \<Rightarrow> 'w \<Rightarrow> status \<times> 'w" where
  "mask_nvram_set_ascii fw nm val w = SetVariable fw nm BRR_GUID NV_BS_RT (cstr val) w"

text \<open>The buffer keeps what it held behind the terminator, and all of it on failure.\<close>

definition mask_nvram_get_ascii ::
  "'w firmware \<Rightarrow> u16 list \<Rightarrow> u8 list \<Rightarrow> 'w \<Rightarrow> status \<times> u8 list" where
  "mask_nvram_get_ascii fw nm buf w =
     (let (s, data) = GetVariable fw nm BRR_GUID (length buf - 1) w
      in (s, if s = EFI_SUCCESS then data @ 0 # drop (Suc (length data)) buf else buf))"

definition mask_nvram_delete :: "'w firmware \<Rightarrow> u16 list \<Rightarrow> 'w \<Rightarrow> 'w" where
  "mask_nvram_delete fw nm w = snd (SetVariable fw nm BRR_GUID NV_BS_RT [] w)"

definition nvram_set_raw ::
  "'w firmware \<Rightarrow> u16 list \<Rightarrow> efi_guid \<Rightarrow> u8 list \<Rightarrow> 'w \<Rightarrow> status \<times> 'w" where
  "nvram_set_raw fw nm g data w = SetVariable fw nm g NV_BS_RT data w"

definition nvram_get_raw ::
  "'w firmware \<Rightarrow> u16 list \<Rightarrow> efi_guid \<Rightarrow> nat \<Rightarrow> 'w \<Rightarrow> status \<times> u8 list" where
  "nvram_get_raw fw nm g sz w = GetVariable fw nm g sz w"

definition nvram_del_global :: "'w firmware \<Rightarrow> u16 list \<Rightarrow> 'w \<Rightarrow> 'w" where
  "nvram_del_global fw nm w = snd (SetVariable fw nm EFI_GLOBAL_GUID NV_BS_RT [] w)"

section \<open>What the programs rely on\<close>

text \<open>
  The variable store: \<open>vars w\<close> is the contents of NVRAM. A variable that is absent is
  \<open>EFI_NOT_FOUND\<close>, one that does not fit the buffer \<open>EFI_BUFFER_TOO_SMALL\<close>; a successful
  \<open>SetVariable\<close> replaces or deletes the one variable it names, a failed one changes nothing, and
  the services that touch memory, keys and time leave variables alone. \<open>search_frame\<close> is the part of that
  frame the search for macOS uses; the reserved pages satisfy it too.
\<close>

type_synonym nvram = "efi_guid \<times> u16 list \<Rightarrow> u8 list option"

definition get_law :: "'w firmware \<Rightarrow> ('w \<Rightarrow> nvram) \<Rightarrow> bool" where
  "get_law fw vars \<longleftrightarrow> (\<forall>nm g sz w. GetVariable fw nm g sz w =
     (case vars w (g, nm) of
        None \<Rightarrow> (EFI_NOT_FOUND, [])
      | Some d \<Rightarrow> if length d \<le> sz then (EFI_SUCCESS, d) else (EFI_BUFFER_TOO_SMALL, [])))"

definition set_law :: "'w firmware \<Rightarrow> ('w \<Rightarrow> nvram) \<Rightarrow> bool" where
  "set_law fw vars \<longleftrightarrow> (\<forall>nm g a d w. vars (snd (SetVariable fw nm g a d w)) =
     (if fst (SetVariable fw nm g a d w) = EFI_SUCCESS
      then (vars w)((g, nm) := (if d = [] then None else Some d)) else vars w))"

definition search_frame :: "'w firmware \<Rightarrow> ('w \<Rightarrow> 'v) \<Rightarrow> bool" where
  "search_frame fw view \<longleftrightarrow>
     (\<forall>n w. view (snd (AllocatePool fw n w)) = view w) \<and>
     (\<forall>w. view (FreePool fw w) = view w) \<and>
     (\<forall>us w. view (Stall fw us w) = view w) \<and>
     (\<forall>v p m a w. view (snd (FileOpen fw v p m a w)) = view w) \<and>
     (\<forall>h w. view (snd (ConnectController fw h w)) = view w) \<and>
     (\<forall>v p w. view (snd (SetPosition fw v p w)) = view w) \<and>
     (\<forall>v p n w. view (snd (ReadDir fw v p n w)) = view w) \<and>
     (\<forall>h dp src w. view (snd (LoadImage fw h dp src w)) = view w)"

definition frame_law :: "'w firmware \<Rightarrow> ('w \<Rightarrow> 'v) \<Rightarrow> bool" where
  "frame_law fw view \<longleftrightarrow> search_frame fw view \<and>
     (\<forall>pa w. view (snd (AllocatePage fw pa w)) = view w) \<and>
     (\<forall>w. view (snd (ReadKeyStroke fw w)) = view w) \<and>
     (\<forall>v p d w. view (snd (FileWrite fw v p d w)) = view w) \<and>
     (\<forall>v p w. view (FileDelete fw v p w) = view w)"

definition variable_store :: "'w firmware \<Rightarrow> ('w \<Rightarrow> nvram) \<Rightarrow> bool" where
  "variable_store fw vars \<longleftrightarrow> get_law fw vars \<and> set_law fw vars \<and> frame_law fw vars"

text \<open>Every write succeeds: NVRAM is neither full nor write protected. Or only every deletion does.\<close>

definition writes_succeed :: "'w firmware \<Rightarrow> bool" where
  "writes_succeed fw \<longleftrightarrow> (\<forall>nm g a d w. nm \<noteq> [] \<longrightarrow> fst (SetVariable fw nm g a d w) = EFI_SUCCESS)"

definition deletes_succeed :: "'w firmware \<Rightarrow> bool" where
  "deletes_succeed fw \<longleftrightarrow> (\<forall>nm g a w. nm \<noteq> [] \<longrightarrow> fst (SetVariable fw nm g a [] w) = EFI_SUCCESS)"

text \<open>
  \<open>GetNextVariableName\<close> walks a list of the variables that exist, from the empty name on; no
  variable has the empty name.
\<close>

definition listed :: "(efi_guid \<times> u16 list) list \<Rightarrow> nat \<Rightarrow> status \<times> u16 list \<times> efi_guid \<Rightarrow> bool" where
  "listed ns i r \<longleftrightarrow>
     (if i < length ns then r = (EFI_SUCCESS, snd (ns ! i), fst (ns ! i)) else fst r = EFI_NOT_FOUND)"

definition enum_law :: "'w firmware \<Rightarrow> ('w \<Rightarrow> nvram) \<Rightarrow> bool" where
  "enum_law fw vars \<longleftrightarrow> (\<forall>w. \<exists>ns. distinct ns \<and> set ns = dom (vars w) \<and> [] \<notin> snd ` set ns \<and>
     (\<forall>g. listed ns 0 (GetNextVariableName fw [] g w)) \<and>
     (\<forall>i < length ns. listed ns (Suc i) (GetNextVariableName fw (snd (ns ! i)) (fst (ns ! i)) w)))"

text \<open>
  The page allocator: \<open>free w\<close> are the pages that can be handed out. Success takes the one page
  asked for, which was free; every other status takes nothing, and \<open>EFI_NOT_FOUND\<close> and
  \<open>EFI_ACCESS_DENIED\<close> mean that the page was not free.
\<close>

definition page_allocator :: "'w firmware \<Rightarrow> ('w \<Rightarrow> u64 set) \<Rightarrow> bool" where
  "page_allocator fw free \<longleftrightarrow> (\<forall>pa w.
     (if fst (AllocatePage fw pa w) = EFI_SUCCESS
      then pa \<in> free w \<and> free (snd (AllocatePage fw pa w)) = free w - {pa}
      else free (snd (AllocatePage fw pa w)) = free w) \<and>
     (fst (AllocatePage fw pa w) \<in> {EFI_NOT_FOUND, EFI_ACCESS_DENIED} \<longrightarrow> pa \<notin> free w))"

lemma get_variable_law:
  "get_law fw vars \<Longrightarrow> GetVariable fw nm g sz w =
     (case vars w (g, nm) of
        None \<Rightarrow> (EFI_NOT_FOUND, [])
      | Some d \<Rightarrow> if length d \<le> sz then (EFI_SUCCESS, d) else (EFI_BUFFER_TOO_SMALL, []))"
  by (simp add: get_law_def)

lemma set_variable_law:
  assumes "set_law fw vars" "writes_succeed fw" "nm \<noteq> []"
  shows "fst (SetVariable fw nm g a d w) = EFI_SUCCESS"
    "vars (snd (SetVariable fw nm g a d w)) = (vars w)((g, nm) := (if d = [] then None else Some d))"
  using assms by (simp_all add: set_law_def writes_succeed_def)

section \<open>A concrete firmware\<close>

text \<open>
  A machine the properties are evaluated on: the NVRAM as a list, the free pages, the keys still
  to be typed, the volumes with their files, of which the first is the removable device the
  programs are loaded from. Allocation takes the page out of the list, every write succeeds.
\<close>

record machine =
  m_nv :: "((efi_guid \<times> u16 list) \<times> u8 list) list"
  m_free :: "u64 list"
  m_keys :: "input_key list"
  m_volumes :: "nat list"
  m_files :: "((nat \<times> u16 list) \<times> u8 list) list"
  m_dirs :: "((nat \<times> u16 list) \<times> u8 list list) list"
  m_unread :: "((nat \<times> u16 list) \<times> u8 list list) list"

definition named :: "machine \<Rightarrow> ((efi_guid \<times> u16 list) \<times> u8 list) list" where
  "named w = filter (\<lambda>e. snd (fst e) \<noteq> []) (m_nv w)"

definition m_vars :: "machine \<Rightarrow> nvram" where "m_vars w = map_of (named w)"

fun next_in :: "'a \<Rightarrow> 'a list \<Rightarrow> 'a option" where
  "next_in x [] = None"
| "next_in x (y # ys) = (if x = y then (case ys of [] \<Rightarrow> None | z # zs \<Rightarrow> Some z) else next_in x ys)"

definition next_variable ::
  "u16 list \<Rightarrow> efi_guid \<Rightarrow> (efi_guid \<times> u16 list) list \<Rightarrow> status \<times> u16 list \<times> efi_guid" where
  "next_variable nm g ns =
     (case (if nm = [] then (case ns of [] \<Rightarrow> None | n # _ \<Rightarrow> Some n) else next_in (g, nm) ns) of
        None \<Rightarrow> (EFI_NOT_FOUND, nm, g) | Some (g', nm') \<Rightarrow> (EFI_SUCCESS, nm', g'))"

definition bench :: "machine firmware" where
  "bench = \<lparr>
     GetVariable = (\<lambda>nm g sz w. case m_vars w (g, nm) of None \<Rightarrow> (EFI_NOT_FOUND, [])
       | Some d \<Rightarrow> if length d \<le> sz then (EFI_SUCCESS, d) else (EFI_BUFFER_TOO_SMALL, [])),
     SetVariable = (\<lambda>nm g a d w. if nm = [] then (EFI_INVALID_PARAMETER, w) else (EFI_SUCCESS,
       w\<lparr>m_nv := (if d = [] then AList.delete (g, nm) (m_nv w) else AList.update (g, nm) d (m_nv w))\<rparr>)),
     GetNextVariableName = (\<lambda>nm g w. next_variable nm g (remdups (map fst (named w)))),
     AllocatePage = (\<lambda>pa w. if pa \<in> set (m_free w)
       then (EFI_SUCCESS, w\<lparr>m_free := removeAll pa (m_free w)\<rparr>) else (EFI_NOT_FOUND, w)),
     AllocatePool = (\<lambda>n w. (EFI_SUCCESS, w)),
     FreePool = (\<lambda>w. w),
     GetMemoryMapSize = (\<lambda>w. (EFI_BUFFER_TOO_SMALL, 48 * length (m_free w) + 48, 48)),
     GetMemoryMap = (\<lambda>n w. (EFI_SUCCESS,
       map (\<lambda>p. \<lparr>md_type = 7, md_start = p, md_pages = 1\<rparr>) (m_free w))),
     HasConIn = True,
     ReadKeyStroke = (\<lambda>w. case m_keys w of [] \<Rightarrow> ((EFI_NOT_READY, \<lparr>key_scan = 0, key_char = 0\<rparr>), w)
       | k # ks \<Rightarrow> ((EFI_SUCCESS, k), w\<lparr>m_keys := ks\<rparr>)),
     Stall = (\<lambda>us w. w),
     ImageDevice = (\<lambda>h w. (EFI_SUCCESS, 1)),
     LocateSfsSize = (\<lambda>w. (EFI_BUFFER_TOO_SMALL, 8 * length (m_volumes w))),
     LocateSfs = (\<lambda>n w. (EFI_SUCCESS, m_volumes w)),
     IsRemovable = (\<lambda>h w. (EFI_SUCCESS, h = 1)),
     HandleSfs = (\<lambda>h w. EFI_SUCCESS),
     OpenVolume = (\<lambda>h w. EFI_SUCCESS),
     DevicePath = (\<lambda>h w. (EFI_SUCCESS, Some [1, 1, 6, 0, 0, 0, 0x7f, 0xff, 4, 0])),
     FileOpen = (\<lambda>v p m a w. if map_of (m_files w) (v, p) \<noteq> None then (EFI_SUCCESS, w)
       else if m AND EFI_FILE_MODE_CREATE \<noteq> 0
       then (EFI_SUCCESS, w\<lparr>m_files := AList.update (v, p) [] (m_files w)\<rparr>) else (EFI_NOT_FOUND, w)),
     FileSize = (\<lambda>v p w. case map_of (m_files w) (v, p) of
       None \<Rightarrow> (EFI_NOT_FOUND, 0) | Some d \<Rightarrow> (EFI_SUCCESS, length d)),
     FileRead = (\<lambda>v p n w. case map_of (m_files w) (v, p) of
       None \<Rightarrow> (EFI_NOT_FOUND, []) | Some d \<Rightarrow> (EFI_SUCCESS, take n d)),
     FileWrite = (\<lambda>v p d w. (EFI_SUCCESS, w\<lparr>m_files := AList.update (v, p) d (m_files w)\<rparr>)),
     FileDelete = (\<lambda>v p w. w\<lparr>m_files := AList.delete (v, p) (m_files w)\<rparr>),
     ImagePath = (\<lambda>h w. (EFI_SUCCESS, None)),
     LoadOptions = (\<lambda>h w. (EFI_SUCCESS, [])),
     AllHandles = (\<lambda>w. (EFI_SUCCESS, m_volumes w)),
     ConnectController = (\<lambda>h w. (EFI_SUCCESS, w)),
     VolumeInfo = (\<lambda>v g n w. (EFI_NOT_FOUND, [])),
     SetPosition = (\<lambda>v p w. (EFI_SUCCESS, w\<lparr>m_unread := AList.update (v, p)
       (case map_of (m_dirs w) (v, p) of None \<Rightarrow> [] | Some es \<Rightarrow> es) (m_unread w)\<rparr>)),
     ReadDir = (\<lambda>v p n w. case map_of (m_unread w) (v, p) of None \<Rightarrow> ((EFI_SUCCESS, []), w)
       | Some [] \<Rightarrow> ((EFI_SUCCESS, []), w)
       | Some (e # es) \<Rightarrow> ((EFI_SUCCESS, e), w\<lparr>m_unread := AList.update (v, p) es (m_unread w)\<rparr>)),
     LoadImage = (\<lambda>h dp src w. ((EFI_SUCCESS, 9), w)),
     StartImage = (\<lambda>h w. (EFI_SUCCESS, w))\<rparr>"

definition blank_machine :: machine where
  "blank_machine = \<lparr>m_nv = [], m_free = [], m_keys = [], m_volumes = [1, 2], m_files = [],
     m_dirs = [], m_unread = []\<rparr>"

text \<open>The services of the bench, one by one.\<close>

lemma bench_simps:
  "GetVariable bench = (\<lambda>nm g sz w. case m_vars w (g, nm) of None \<Rightarrow> (EFI_NOT_FOUND, [])
       | Some d \<Rightarrow> if length d \<le> sz then (EFI_SUCCESS, d) else (EFI_BUFFER_TOO_SMALL, []))"
  "SetVariable bench = (\<lambda>nm g a d w. if nm = [] then (EFI_INVALID_PARAMETER, w) else (EFI_SUCCESS,
       w\<lparr>m_nv := (if d = [] then AList.delete (g, nm) (m_nv w) else AList.update (g, nm) d (m_nv w))\<rparr>))"
  "GetNextVariableName bench = (\<lambda>nm g w. next_variable nm g (remdups (map fst (named w))))"
  "AllocatePage bench = (\<lambda>pa w. if pa \<in> set (m_free w)
       then (EFI_SUCCESS, w\<lparr>m_free := removeAll pa (m_free w)\<rparr>) else (EFI_NOT_FOUND, w))"
  "AllocatePool bench = (\<lambda>n w. (EFI_SUCCESS, w))"
  "FreePool bench = (\<lambda>w. w)"
  "GetMemoryMapSize bench = (\<lambda>w. (EFI_BUFFER_TOO_SMALL, 48 * length (m_free w) + 48, 48))"
  "GetMemoryMap bench = (\<lambda>n w. (EFI_SUCCESS,
       map (\<lambda>p. \<lparr>md_type = 7, md_start = p, md_pages = 1\<rparr>) (m_free w)))"
  "HasConIn bench = True"
  "ReadKeyStroke bench = (\<lambda>w. case m_keys w of [] \<Rightarrow> ((EFI_NOT_READY, \<lparr>key_scan = 0, key_char = 0\<rparr>), w)
       | k # ks \<Rightarrow> ((EFI_SUCCESS, k), w\<lparr>m_keys := ks\<rparr>))"
  "Stall bench = (\<lambda>us w. w)"
  "ImageDevice bench = (\<lambda>h w. (EFI_SUCCESS, 1))"
  "LocateSfsSize bench = (\<lambda>w. (EFI_BUFFER_TOO_SMALL, 8 * length (m_volumes w)))"
  "LocateSfs bench = (\<lambda>n w. (EFI_SUCCESS, m_volumes w))"
  "IsRemovable bench = (\<lambda>h w. (EFI_SUCCESS, h = 1))"
  "HandleSfs bench = (\<lambda>h w. EFI_SUCCESS)"
  "OpenVolume bench = (\<lambda>h w. EFI_SUCCESS)"
  "DevicePath bench = (\<lambda>h w. (EFI_SUCCESS, Some [1, 1, 6, 0, 0, 0, 0x7f, 0xff, 4, 0]))"
  "FileOpen bench = (\<lambda>v p m a w. if map_of (m_files w) (v, p) \<noteq> None then (EFI_SUCCESS, w)
       else if m AND EFI_FILE_MODE_CREATE \<noteq> 0
       then (EFI_SUCCESS, w\<lparr>m_files := AList.update (v, p) [] (m_files w)\<rparr>) else (EFI_NOT_FOUND, w))"
  "FileSize bench = (\<lambda>v p w. case map_of (m_files w) (v, p) of
       None \<Rightarrow> (EFI_NOT_FOUND, 0) | Some d \<Rightarrow> (EFI_SUCCESS, length d))"
  "FileRead bench = (\<lambda>v p n w. case map_of (m_files w) (v, p) of
       None \<Rightarrow> (EFI_NOT_FOUND, []) | Some d \<Rightarrow> (EFI_SUCCESS, take n d))"
  "FileWrite bench = (\<lambda>v p d w. (EFI_SUCCESS, w\<lparr>m_files := AList.update (v, p) d (m_files w)\<rparr>))"
  "FileDelete bench = (\<lambda>v p w. w\<lparr>m_files := AList.delete (v, p) (m_files w)\<rparr>)"
  "ImagePath bench = (\<lambda>h w. (EFI_SUCCESS, None))"
  "LoadOptions bench = (\<lambda>h w. (EFI_SUCCESS, []))"
  "AllHandles bench = (\<lambda>w. (EFI_SUCCESS, m_volumes w))"
  "ConnectController bench = (\<lambda>h w. (EFI_SUCCESS, w))"
  "VolumeInfo bench = (\<lambda>v g n w. (EFI_NOT_FOUND, []))"
  "SetPosition bench = (\<lambda>v p w. (EFI_SUCCESS, w\<lparr>m_unread := AList.update (v, p) (case map_of (m_dirs w) (v, p) of None \<Rightarrow> [] | Some es \<Rightarrow> es) (m_unread w)\<rparr>))"
  "ReadDir bench = (\<lambda>v p n w. case map_of (m_unread w) (v, p) of None \<Rightarrow> ((EFI_SUCCESS, []), w) | Some [] \<Rightarrow> ((EFI_SUCCESS, []), w) | Some (e # es) \<Rightarrow> ((EFI_SUCCESS, e), w\<lparr>m_unread := AList.update (v, p) es (m_unread w)\<rparr>))"
  "LoadImage bench = (\<lambda>h dp src w. ((EFI_SUCCESS, 9), w))"
  "StartImage bench = (\<lambda>h w. (EFI_SUCCESS, w))"
  by (simp_all add: bench_def)

lemma efi_status_neq [simp]:
  "EFI_NOT_FOUND \<noteq> EFI_SUCCESS" "EFI_BUFFER_TOO_SMALL \<noteq> EFI_SUCCESS" "EFI_NOT_READY \<noteq> EFI_SUCCESS"
  "EFI_ACCESS_DENIED \<noteq> EFI_SUCCESS" "EFI_UNSUPPORTED \<noteq> EFI_SUCCESS" "EFI_INVALID_PARAMETER \<noteq> EFI_SUCCESS"
  "EFI_SUCCESS \<noteq> EFI_NOT_FOUND" "EFI_SUCCESS \<noteq> EFI_BUFFER_TOO_SMALL" "EFI_SUCCESS \<noteq> EFI_NOT_READY"
  "EFI_SUCCESS \<noteq> EFI_ACCESS_DENIED" "EFI_SUCCESS \<noteq> EFI_UNSUPPORTED" "EFI_SUCCESS \<noteq> EFI_INVALID_PARAMETER"
  "EFI_OUT_OF_RESOURCES \<noteq> EFI_SUCCESS" "EFI_VOLUME_FULL \<noteq> EFI_SUCCESS" "EFI_ABORTED \<noteq> EFI_SUCCESS"
  "EFI_LOAD_ERROR \<noteq> EFI_SUCCESS"
  "EFI_BUFFER_TOO_SMALL \<noteq> EFI_NOT_FOUND" "EFI_NOT_FOUND \<noteq> EFI_BUFFER_TOO_SMALL"
  by (simp_all add: efi_status_defs)

lemma map_of_named:
  "map_of (filter (\<lambda>e. snd (fst e) \<noteq> []) xs) k = (if snd k = [] then None else map_of xs k)"
  by (induction xs) auto

lemma m_vars_conv: "m_vars w k = (if snd k = [] then None else map_of (m_nv w) k)"
  by (simp add: m_vars_def named_def map_of_named)

lemma bench_set:
  "m_vars (snd (SetVariable bench nm g a d w)) =
    (if nm = [] then m_vars w else (m_vars w)((g, nm) := (if d = [] then None else Some d)))"
  by (auto simp: bench_def m_vars_conv AList.update_conv' AList.delete_conv' fun_eq_iff)

lemma bench_frame: "frame_law bench (\<lambda>w. f (m_nv w))"
  by (simp add: frame_law_def search_frame_def bench_def split: list.splits option.splits)

lemma variable_store_bench: "variable_store bench m_vars"
proof -
  have "get_law bench m_vars" by (simp add: get_law_def) (simp add: bench_def)
  moreover have "set_law bench m_vars"
    by (simp add: set_law_def bench_set) (simp add: bench_def)
  moreover have "frame_law bench m_vars"
    using bench_frame [of "\<lambda>nv. map_of (filter (\<lambda>e. snd (fst e) \<noteq> []) nv)"]
    by (simp add: m_vars_def [abs_def] named_def)
  ultimately show ?thesis by (simp add: variable_store_def)
qed

lemma writes_succeed_bench: "writes_succeed bench"
  by (simp add: writes_succeed_def bench_def)

lemma page_allocator_bench: "page_allocator bench (\<lambda>w. set (m_free w))"
  by (auto simp: page_allocator_def bench_def)

lemma next_in_nth:
  "distinct ns \<Longrightarrow> i < length ns \<Longrightarrow>
    next_in (ns ! i) ns = (if Suc i < length ns then Some (ns ! Suc i) else None)"
  by (induction ns arbitrary: i) (auto simp: nth_Cons' split: list.splits)

lemma enum_law_bench: "enum_law bench m_vars"
  unfolding enum_law_def
proof
  fix w :: machine
  define ns where "ns = remdups (map fst (named w))"
  have "set ns = dom (m_vars w)" by (simp add: ns_def m_vars_def dom_map_of_conv_image_fst)
  moreover have ne: "[] \<notin> snd ` set ns" by (auto simp: ns_def named_def)
  moreover have "listed ns 0 (GetNextVariableName bench [] g w)" for g
    by (auto simp: bench_def next_variable_def listed_def nth_Cons' simp flip: ns_def split: list.splits)
  moreover have "listed ns (Suc i) (GetNextVariableName bench (snd (ns ! i)) (fst (ns ! i)) w)"
    if i: "i < length ns" for i
  proof -
    have "snd (ns ! i) \<noteq> []" using ne i by (metis image_eqI nth_mem)
    then show ?thesis using next_in_nth [of ns i] i
      by (simp add: bench_def next_variable_def listed_def ns_def split: prod.splits)
  qed
  moreover have "distinct ns" by (simp add: ns_def)
  ultimately show "\<exists>ns. distinct ns \<and> set ns = dom (m_vars w) \<and> [] \<notin> snd ` set ns \<and>
     (\<forall>g. listed ns 0 (GetNextVariableName bench [] g w)) \<and>
     (\<forall>i < length ns. listed ns (Suc i) (GetNextVariableName bench (snd (ns ! i)) (fst (ns ! i)) w))"
    by blast
qed

end
