(* ===== verification/Efi_Types.thy ===== *)
theory Efi_Types
  imports Efi_Firmware
begin

text \<open>
  The structures of \<^verbatim>\<open>efi/efi_types.h\<close> as the compiler lays them out on x86-64: a field starts at the
  next multiple of its alignment, and the size of a structure is a multiple of its alignment. The
  firmware fills these structures, so the programs work only where each field lies where the UEFI
  specification has it.
\<close>

section \<open>Layout of C structures\<close>

text \<open>\<open>Scalar n\<close> is an integer of \<open>n\<close> bytes; an enumeration has 4, a \<open>bool\<close> 1, a pointer 8.\<close>

datatype ctype = Scalar nat | Pointer | Array ctype nat | Struct "(string \<times> ctype) list"

definition round_up :: "nat \<Rightarrow> nat \<Rightarrow> nat" where
  "round_up n a = (n + a - 1) div a * a"

fun align_of :: "ctype \<Rightarrow> nat" where
  "align_of (Scalar n) = n"
| "align_of Pointer = 8"
| "align_of (Array t n) = align_of t"
| "align_of (Struct fs) = fold (\<lambda>(_, t) a. max (align_of t) a) fs 1"

fun size_of :: "ctype \<Rightarrow> nat" and end_of :: "(string \<times> ctype) list \<Rightarrow> nat \<Rightarrow> nat" where
  "size_of (Scalar n) = n"
| "size_of Pointer = 8"
| "size_of (Array t n) = n * size_of t"
| "size_of (Struct fs) = round_up (end_of fs 0) (align_of (Struct fs))"
| "end_of [] off = off"
| "end_of ((nm, t) # fs) off = end_of fs (round_up off (align_of t) + size_of t)"

text \<open>The fields with their offsets, and one of them.\<close>

fun offsets :: "(string \<times> ctype) list \<Rightarrow> nat \<Rightarrow> (string \<times> nat) list" where
  "offsets [] off = []"
| "offsets ((nm, t) # fs) off =
     (let o' = round_up off (align_of t) in (nm, o') # offsets fs (o' + size_of t))"

definition fields_of :: "ctype \<Rightarrow> (string \<times> ctype) list" where
  "fields_of t = (case t of Struct fs \<Rightarrow> fs | _ \<Rightarrow> [])"

definition offset_of :: "ctype \<Rightarrow> string \<Rightarrow> nat option" where
  "offset_of t nm = map_of (offsets (fields_of t) 0) nm"

lemma round_up_le: "0 < a \<Longrightarrow> n \<le> round_up n a"
proof -
  assume a: "0 < a"
  have "(n + a - 1) mod a < a" using a by simp
  moreover have "(n + a - 1) div a * a + (n + a - 1) mod a = n + a - 1" by simp
  ultimately show "n \<le> round_up n a" unfolding round_up_def using a by linarith
qed

lemma round_up_dvd: "a dvd round_up n a"
  by (simp add: round_up_def)

lemma round_up_0 [simp]: "0 < a \<Longrightarrow> round_up 0 a = 0"
  by (simp add: round_up_def)

text \<open>The fields of a structure lie one behind the other, each on a multiple of its alignment, and inside
  the structure.\<close>

fun layout_ok :: "(string \<times> ctype) list \<Rightarrow> (string \<times> nat) list \<Rightarrow> nat \<Rightarrow> nat \<Rightarrow> bool" where
  "layout_ok [] [] off room \<longleftrightarrow> off \<le> room"
| "layout_ok ((nm, t) # fs) ((nm', o') # os) off room \<longleftrightarrow>
     nm = nm' \<and> off \<le> o' \<and> align_of t dvd o' \<and> layout_ok fs os (o' + size_of t) room"
| "layout_ok _ _ off room \<longleftrightarrow> False"

lemma layout_end:
  "list_all (\<lambda>(_, t). 0 < align_of t) fs \<Longrightarrow> end_of fs off \<le> room \<Longrightarrow> layout_ok fs (offsets fs off) off room"
  by (induction fs off rule: offsets.induct) (simp_all add: Let_def round_up_le round_up_dvd)

lemma align_of_Struct_pos: "0 < align_of (Struct fs)"
proof -
  have "0 < a \<Longrightarrow> 0 < fold (\<lambda>(_, t) a. max (align_of t) a) fs a" for a :: nat
    by (induction fs arbitrary: a) auto
  then show ?thesis by simp
qed

lemma layout_sound:
  "list_all (\<lambda>(_, t). 0 < align_of t) fs \<Longrightarrow> layout_ok fs (offsets fs 0) 0 (size_of (Struct fs))"
  using layout_end round_up_le [OF align_of_Struct_pos] by simp

text \<open>The bytes of a structure with the given fields, gaps filled with zeros.\<close>

fun struct_bytes :: "(string \<times> ctype) list \<Rightarrow> u8 list list \<Rightarrow> u8 list \<Rightarrow> u8 list" where
  "struct_bytes ((nm, t) # fs) (d # ds) bs =
     struct_bytes fs ds (bs @ replicate (round_up (length bs) (align_of t) - length bs) 0 @ d)"
| "struct_bytes _ _ bs = bs"

section \<open>The structures of the header\<close>

definition EFI_GUID :: ctype where
  "EFI_GUID = Struct
    [(''Data1'', Scalar 4), (''Data2'', Scalar 2), (''Data3'', Scalar 2),
     (''Data4'', Array (Scalar 1) 8)]"

definition EFI_TABLE_HEADER :: ctype where
  "EFI_TABLE_HEADER = Struct
    [(''Signature'', Scalar 8), (''Revision'', Scalar 4), (''HeaderSize'', Scalar 4),
     (''CRC32'', Scalar 4), (''Reserved'', Scalar 4)]"

definition EFI_MEMORY_DESCRIPTOR :: ctype where
  "EFI_MEMORY_DESCRIPTOR = Struct
    [(''Type'', Scalar 4), (''Pad'', Scalar 4), (''PhysicalStart'', Scalar 8),
     (''VirtualStart'', Scalar 8), (''NumberOfPages'', Scalar 8), (''Attribute'', Scalar 8)]"

definition EFI_INPUT_KEY :: ctype where
  "EFI_INPUT_KEY = Struct
    [(''ScanCode'', Scalar 2), (''UnicodeChar'', Scalar 2)]"

definition EFI_SIMPLE_TEXT_INPUT_PROTOCOL :: ctype where
  "EFI_SIMPLE_TEXT_INPUT_PROTOCOL = Struct
    [(''Reset'', Pointer), (''ReadKeyStroke'', Pointer), (''WaitForKey'', Pointer)]"

definition EFI_SIMPLE_TEXT_OUTPUT_PROTOCOL :: ctype where
  "EFI_SIMPLE_TEXT_OUTPUT_PROTOCOL = Struct
    [(''Reset'', Pointer), (''OutputString'', Pointer), (''TestString'', Pointer),
     (''QueryMode'', Pointer), (''SetMode'', Pointer), (''SetAttribute'', Pointer),
     (''ClearScreen'', Pointer), (''SetCursorPosition'', Pointer), (''EnableCursor'', Pointer),
     (''Mode'', Pointer)]"

definition EFI_DEVICE_PATH_PROTOCOL :: ctype where
  "EFI_DEVICE_PATH_PROTOCOL = Struct
    [(''Type'', Scalar 1), (''SubType'', Scalar 1), (''Length'', Array (Scalar 1) 2)]"

definition EFI_FILEPATH_DEVICE_PATH :: ctype where
  "EFI_FILEPATH_DEVICE_PATH = Struct
    [(''Header'', EFI_DEVICE_PATH_PROTOCOL), (''PathName'', Array (Scalar 2) 1)]"

definition EFI_LOADED_IMAGE_PROTOCOL :: ctype where
  "EFI_LOADED_IMAGE_PROTOCOL = Struct
    [(''Revision'', Scalar 4), (''ParentHandle'', Pointer), (''SystemTable'', Pointer),
     (''DeviceHandle'', Pointer), (''FilePath'', Pointer), (''Reserved'', Pointer),
     (''LoadOptionsSize'', Scalar 4), (''LoadOptions'', Pointer), (''ImageBase'', Pointer),
     (''ImageSize'', Scalar 8), (''ImageCodeType'', Scalar 4), (''ImageDataType'', Scalar 4),
     (''Unload'', Pointer)]"

definition EFI_FILE_PROTOCOL :: ctype where
  "EFI_FILE_PROTOCOL = Struct
    [(''Revision'', Scalar 8), (''Open'', Pointer), (''Close'', Pointer), (''Delete'', Pointer),
     (''Read'', Pointer), (''Write'', Pointer), (''GetPosition'', Pointer),
     (''SetPosition'', Pointer), (''GetInfo'', Pointer), (''SetInfo'', Pointer), (''Flush'', Pointer)]"

definition EFI_FILE_INFO :: ctype where
  "EFI_FILE_INFO = Struct
    [(''Size'', Scalar 8), (''FileSize'', Scalar 8), (''PhysicalSize'', Scalar 8),
     (''Times'', Array (Scalar 1) 48), (''Attribute'', Scalar 8), (''FileName'', Array (Scalar 2) 1)]"

definition EFI_SIMPLE_FILE_SYSTEM_PROTOCOL :: ctype where
  "EFI_SIMPLE_FILE_SYSTEM_PROTOCOL = Struct
    [(''Revision'', Scalar 8), (''OpenVolume'', Pointer)]"

definition EFI_BLOCK_IO_MEDIA :: ctype where
  "EFI_BLOCK_IO_MEDIA = Struct
    [(''MediaId'', Scalar 4), (''RemovableMedia'', Scalar 1), (''MediaPresent'', Scalar 1),
     (''LogicalPartition'', Scalar 1), (''ReadOnly'', Scalar 1), (''WriteCaching'', Scalar 1),
     (''pad'', Array (Scalar 1) 3), (''BlockSize'', Scalar 4), (''IoAlign'', Scalar 4),
     (''LastBlock'', Scalar 8)]"

definition EFI_BLOCK_IO_PROTOCOL :: ctype where
  "EFI_BLOCK_IO_PROTOCOL = Struct
    [(''Revision'', Scalar 8), (''Media'', Pointer), (''Reset'', Pointer), (''ReadBlocks'', Pointer),
     (''WriteBlocks'', Pointer), (''FlushBlocks'', Pointer)]"

definition EFI_BOOT_SERVICES :: ctype where
  "EFI_BOOT_SERVICES = Struct
    [(''Hdr'', EFI_TABLE_HEADER), (''RaiseTpl'', Pointer), (''RestoreTpl'', Pointer),
     (''AllocatePages'', Pointer), (''FreePages'', Pointer), (''GetMemoryMap'', Pointer),
     (''AllocatePool'', Pointer), (''FreePool'', Pointer), (''CreateEvent'', Pointer),
     (''SetTimer'', Pointer), (''WaitForEvent'', Pointer), (''SignalEvent'', Pointer),
     (''CloseEvent'', Pointer), (''CheckEvent'', Pointer), (''InstallProtocolInterface'', Pointer),
     (''ReinstallProtocolInterface'', Pointer), (''UninstallProtocolInterface'', Pointer),
     (''HandleProtocol'', Pointer), (''Reserved'', Pointer), (''RegisterProtocolNotify'', Pointer),
     (''LocateHandle'', Pointer), (''LocateDevicePath'', Pointer),
     (''InstallConfigurationTable'', Pointer), (''LoadImage'', Pointer), (''StartImage'', Pointer),
     (''Exit'', Pointer), (''UnloadImage'', Pointer), (''ExitBootServices'', Pointer),
     (''GetNextMonotonicCount'', Pointer), (''Stall'', Pointer), (''SetWatchdogTimer'', Pointer),
     (''ConnectController'', Pointer), (''DisconnectController'', Pointer),
     (''OpenProtocol'', Pointer), (''CloseProtocol'', Pointer),
     (''OpenProtocolInformation'', Pointer), (''ProtocolsPerHandle'', Pointer),
     (''LocateHandleBuffer'', Pointer), (''LocateProtocol'', Pointer),
     (''InstallMultipleProtocolInterfaces'', Pointer),
     (''UninstallMultipleProtocolInterfaces'', Pointer), (''CalculateCrc32'', Pointer),
     (''CopyMem'', Pointer), (''SetMem'', Pointer), (''CreateEventEx'', Pointer)]"

definition EFI_RUNTIME_SERVICES :: ctype where
  "EFI_RUNTIME_SERVICES = Struct
    [(''Hdr'', EFI_TABLE_HEADER), (''GetTime'', Pointer), (''SetTime'', Pointer),
     (''GetWakeupTime'', Pointer), (''SetWakeupTime'', Pointer), (''SetVirtualAddressMap'', Pointer),
     (''ConvertPointer'', Pointer), (''GetVariable'', Pointer), (''GetNextVariableName'', Pointer),
     (''SetVariable'', Pointer), (''GetNextHighMonotonicCount'', Pointer),
     (''ResetSystem'', Pointer), (''UpdateCapsule'', Pointer), (''QueryCapsuleCaps'', Pointer),
     (''QueryVariableInfo'', Pointer)]"

definition EFI_SYSTEM_TABLE :: ctype where
  "EFI_SYSTEM_TABLE = Struct
    [(''Hdr'', EFI_TABLE_HEADER), (''FirmwareVendor'', Pointer), (''FirmwareRevision'', Scalar 4),
     (''_pad'', Scalar 4), (''ConsoleInHandle'', Pointer), (''ConIn'', Pointer),
     (''ConsoleOutHandle'', Pointer), (''ConOut'', Pointer), (''StandardErrorHandle'', Pointer),
     (''StdErr'', Pointer), (''RuntimeServices'', Pointer), (''BootServices'', Pointer),
     (''NumberOfTableEntries'', Scalar 8), (''ConfigurationTable'', Pointer)]"

lemmas struct_defs = EFI_GUID_def EFI_TABLE_HEADER_def EFI_MEMORY_DESCRIPTOR_def EFI_INPUT_KEY_def
  EFI_SIMPLE_TEXT_INPUT_PROTOCOL_def EFI_SIMPLE_TEXT_OUTPUT_PROTOCOL_def EFI_DEVICE_PATH_PROTOCOL_def
  EFI_FILEPATH_DEVICE_PATH_def EFI_LOADED_IMAGE_PROTOCOL_def EFI_FILE_PROTOCOL_def EFI_FILE_INFO_def
  EFI_SIMPLE_FILE_SYSTEM_PROTOCOL_def EFI_BLOCK_IO_MEDIA_def EFI_BLOCK_IO_PROTOCOL_def
  EFI_BOOT_SERVICES_def EFI_RUNTIME_SERVICES_def EFI_SYSTEM_TABLE_def

text \<open>The types of memory in the map, by their numbers.\<close>

datatype efi_memory_type =
    EfiReservedMemoryType | EfiLoaderCode | EfiLoaderData | EfiBootServicesCode | EfiBootServicesData
  | EfiRuntimeServicesCode | EfiRuntimeServicesData | EfiConventionalMemory | EfiUnusableMemory
  | EfiACPIReclaimMemory | EfiACPIMemoryNVS | EfiMemoryMappedIO | EfiMemoryMappedIOPortSpace | EfiPalCode
  | EfiPersistentMemory | EfiMaxMemoryType

primrec memory_type_code :: "efi_memory_type \<Rightarrow> u32" where
  "memory_type_code EfiReservedMemoryType = 0"
| "memory_type_code EfiLoaderCode = 1"
| "memory_type_code EfiLoaderData = 2"
| "memory_type_code EfiBootServicesCode = 3"
| "memory_type_code EfiBootServicesData = 4"
| "memory_type_code EfiRuntimeServicesCode = 5"
| "memory_type_code EfiRuntimeServicesData = 6"
| "memory_type_code EfiConventionalMemory = 7"
| "memory_type_code EfiUnusableMemory = 8"
| "memory_type_code EfiACPIReclaimMemory = 9"
| "memory_type_code EfiACPIMemoryNVS = 10"
| "memory_type_code EfiMemoryMappedIO = 11"
| "memory_type_code EfiMemoryMappedIOPortSpace = 12"
| "memory_type_code EfiPalCode = 13"
| "memory_type_code EfiPersistentMemory = 14"
| "memory_type_code EfiMaxMemoryType = 15"

text \<open>The identifiers by which \<open>HandleProtocol\<close> and \<open>GetInfo\<close> tell the protocols apart.\<close>

definition EFI_SIMPLE_FILE_SYSTEM_PROTOCOL_GUID :: efi_guid where
  "EFI_SIMPLE_FILE_SYSTEM_PROTOCOL_GUID = \<lparr>guid_data1 = 0x964e5b22, guid_data2 = 0x6459, guid_data3 = 0x11d2,
     guid_data4 = [0x8e, 0x39, 0x00, 0xa0, 0xc9, 0x69, 0x72, 0x3b]\<rparr>"

definition EFI_LOADED_IMAGE_PROTOCOL_GUID :: efi_guid where
  "EFI_LOADED_IMAGE_PROTOCOL_GUID = \<lparr>guid_data1 = 0x5b1b31a1, guid_data2 = 0x9562, guid_data3 = 0x11d2,
     guid_data4 = [0x8e, 0x3f, 0x00, 0xa0, 0xc9, 0x69, 0x72, 0x3b]\<rparr>"

definition EFI_BLOCK_IO_PROTOCOL_GUID :: efi_guid where
  "EFI_BLOCK_IO_PROTOCOL_GUID = \<lparr>guid_data1 = 0x964e5b21, guid_data2 = 0x6459, guid_data3 = 0x11d2,
     guid_data4 = [0x8e, 0x39, 0x00, 0xa0, 0xc9, 0x69, 0x72, 0x3b]\<rparr>"

definition EFI_DEVICE_PATH_PROTOCOL_GUID :: efi_guid where
  "EFI_DEVICE_PATH_PROTOCOL_GUID = \<lparr>guid_data1 = 0x09576e91, guid_data2 = 0x6d3f, guid_data3 = 0x11d2,
     guid_data4 = [0x8e, 0x39, 0x00, 0xa0, 0xc9, 0x69, 0x72, 0x3b]\<rparr>"

definition EFI_FILE_INFO_GUID :: efi_guid where
  "EFI_FILE_INFO_GUID = \<lparr>guid_data1 = 0x09576e92, guid_data2 = 0x6d3f, guid_data3 = 0x11d2,
     guid_data4 = [0x8e, 0x39, 0x00, 0xa0, 0xc9, 0x69, 0x72, 0x3b]\<rparr>"

lemma protocol_guids_distinct:
  "distinct [EFI_SIMPLE_FILE_SYSTEM_PROTOCOL_GUID, EFI_LOADED_IMAGE_PROTOCOL_GUID, EFI_BLOCK_IO_PROTOCOL_GUID,
     EFI_DEVICE_PATH_PROTOCOL_GUID, EFI_FILE_INFO_GUID, BRR_GUID, EFI_GLOBAL_GUID]"
  by code_simp

lemma guid_sizes:
  "list_all (\<lambda>g. length (guid_bytes g) = size_of EFI_GUID)
     [EFI_SIMPLE_FILE_SYSTEM_PROTOCOL_GUID, EFI_LOADED_IMAGE_PROTOCOL_GUID, EFI_BLOCK_IO_PROTOCOL_GUID,
      EFI_DEVICE_PATH_PROTOCOL_GUID, EFI_FILE_INFO_GUID, BRR_GUID, EFI_GLOBAL_GUID]"
  by code_simp

section \<open>Where the UEFI specification has them\<close>

text \<open>The offsets of the services and fields the programs use, after the UEFI specification for 64-bit
  processors.\<close>

definition spec_offsets :: "(ctype \<times> (string \<times> nat) list) list" where
  "spec_offsets =
     [(EFI_BOOT_SERVICES, [(''AllocatePages'', 40), (''FreePages'', 48), (''GetMemoryMap'', 56),
        (''AllocatePool'', 64), (''FreePool'', 72), (''HandleProtocol'', 152), (''LocateHandle'', 176),
        (''LoadImage'', 200), (''StartImage'', 208), (''Stall'', 248), (''ConnectController'', 264),
        (''LocateHandleBuffer'', 312), (''LocateProtocol'', 320)]),
      (EFI_RUNTIME_SERVICES, [(''GetVariable'', 72), (''GetNextVariableName'', 80), (''SetVariable'', 88),
        (''ResetSystem'', 104)]),
      (EFI_SYSTEM_TABLE, [(''ConIn'', 48), (''ConOut'', 64), (''RuntimeServices'', 88), (''BootServices'', 96)]),
      (EFI_LOADED_IMAGE_PROTOCOL, [(''DeviceHandle'', 24), (''FilePath'', 32), (''LoadOptionsSize'', 48),
        (''LoadOptions'', 56)]),
      (EFI_FILE_PROTOCOL, [(''Open'', 8), (''Close'', 16), (''Delete'', 24), (''Read'', 32), (''Write'', 40),
        (''SetPosition'', 56), (''GetInfo'', 64)]),
      (EFI_FILE_INFO, [(''FileSize'', 8), (''Attribute'', 72), (''FileName'', 80)]),
      (EFI_SIMPLE_FILE_SYSTEM_PROTOCOL, [(''OpenVolume'', 8)]),
      (EFI_BLOCK_IO_MEDIA, [(''RemovableMedia'', 4), (''BlockSize'', 12), (''LastBlock'', 24)]),
      (EFI_BLOCK_IO_PROTOCOL, [(''Media'', 8)]),
      (EFI_SIMPLE_TEXT_INPUT_PROTOCOL, [(''Reset'', 0), (''ReadKeyStroke'', 8)]),
      (EFI_SIMPLE_TEXT_OUTPUT_PROTOCOL, [(''OutputString'', 8), (''QueryMode'', 24), (''SetMode'', 32),
        (''SetAttribute'', 40), (''ClearScreen'', 48)]),
      (EFI_MEMORY_DESCRIPTOR, [(''Type'', 0), (''PhysicalStart'', 8), (''NumberOfPages'', 24)])]"

lemma services_where_specified:
  "list_all (\<lambda>(t, fs). list_all (\<lambda>(nm, off). offset_of t nm = Some off) fs) spec_offsets"
  by code_simp

lemma sizes_as_specified:
  "size_of EFI_GUID = 16 \<and> size_of EFI_TABLE_HEADER = 24 \<and> size_of EFI_MEMORY_DESCRIPTOR = 40 \<and>
    size_of EFI_DEVICE_PATH_PROTOCOL = 4 \<and> size_of EFI_FILE_INFO = 88 \<and> size_of EFI_INPUT_KEY = 4"
  by code_simp

end
