(* ===== verification/Page_Masking.thy ===== *)
theory Page_Masking
  imports Efi_Types Badmem_Parse Rows_Blob Shim_Decode Board_Topology
begin

text \<open>
  The masking half of \<^verbatim>\<open>efi/mask-shim/main.c\<close>: \<open>mask_pages\<close> with its margin of 1 MiB and its
  coverage counters, \<open>verify_mask_in_memmap\<close>, the resolution of chip designators, and chip and
  row mode. What a function prints is its report, a record of the counters it prints.
\<close>

section \<open>Page mode\<close>

definition MASK_EXPAND_BYTES :: u64 where "MASK_EXPAND_BYTES = 1 * 1024 * 1024"
definition MASK_PAGE_SIZE :: u64 where "MASK_PAGE_SIZE = 4096"

record mask_report =
  mr_ranges_covered :: u32
  mr_ranges_gaps :: u32
  mr_pages_new :: u64
  mr_pages_pre :: u64
  mr_pages_gap :: u64

definition expand_range :: "badmem_range \<Rightarrow> u64 \<times> u64" where
  "expand_range r =
     (let orig_start = rg_start r;
          orig_end = orig_start + rg_len r;
          exp_start = (if orig_start > MASK_EXPAND_BYTES then orig_start - MASK_EXPAND_BYTES else 0);
          exp_end = orig_end + MASK_EXPAND_BYTES
      in (exp_start AND NOT (MASK_PAGE_SIZE - 1),
          (exp_end + MASK_PAGE_SIZE - 1) AND NOT (MASK_PAGE_SIZE - 1)))"

text \<open>The body of the page loop: \<open>this_new\<close>, \<open>this_pre\<close>, \<open>this_gap\<close> and the world.\<close>

definition mask_one_page ::
  "'w firmware \<Rightarrow> u64 \<Rightarrow> u32 \<times> u32 \<times> u32 \<times> 'w \<Rightarrow> u32 \<times> u32 \<times> u32 \<times> 'w" where
  "mask_one_page fw pa = (\<lambda>(this_new, this_pre, this_gap, w).
     let (s, w) = AllocatePage fw pa w in
     if s = EFI_SUCCESS then (this_new + 1, this_pre, this_gap, w)
     else if s = EFI_NOT_FOUND \<or> s = EFI_ACCESS_DENIED then (this_new, this_pre + 1, this_gap, w)
     else (this_new, this_pre, this_gap + 1, w))"

definition mask_range ::
  "'w firmware \<Rightarrow> badmem_range \<Rightarrow> mask_report \<Rightarrow> 'w \<Rightarrow> (mask_report \<times> 'w) option" where
  "mask_range fw r rep w =
     (let (exp_start, exp_end) = expand_range r in
      map_option (\<lambda>(this_new, this_pre, this_gap, w).
          (rep\<lparr>mr_pages_new := mr_pages_new rep + ucast this_new,
               mr_pages_pre := mr_pages_pre rep + ucast this_pre,
               mr_pages_gap := mr_pages_gap rep + ucast this_gap,
               mr_ranges_covered := mr_ranges_covered rep + (if this_gap = 0 then 1 else 0),
               mr_ranges_gaps := mr_ranges_gaps rep + (if this_gap = 0 then 0 else 1)\<rparr>, w))
        (page_loop (\<lambda>_. True) (mask_one_page fw) exp_start exp_end (0, 0, 0, w)))"

fun mask_ranges ::
  "'w firmware \<Rightarrow> badmem_range list \<Rightarrow> mask_report \<Rightarrow> 'w \<Rightarrow> (mask_report \<times> 'w) option" where
  "mask_ranges fw [] rep w = Some (rep, w)"
| "mask_ranges fw (r # rs) rep w =
     Option.bind (mask_range fw r rep w) (\<lambda>(rep, w). mask_ranges fw rs rep w)"

definition empty_report :: mask_report where
  "empty_report = \<lparr>mr_ranges_covered = 0, mr_ranges_gaps = 0, mr_pages_new = 0, mr_pages_pre = 0,
     mr_pages_gap = 0\<rparr>"

definition mask_pages ::
  "'w firmware \<Rightarrow> badmem_range list \<Rightarrow> 'w \<Rightarrow> (status \<times> mask_report \<times> 'w) option" where
  "mask_pages fw ranges w =
     map_option (\<lambda>(rep, w). (EFI_SUCCESS, rep, w)) (mask_ranges fw ranges empty_report w)"

section \<open>Verification against the memory map\<close>

record verify_report =
  vr_confirmed :: u32
  vr_not_in_map :: u32
  vr_unsafe :: u32

text \<open>The first descriptor that contains the page; \<open>0xFFFFFFFF\<close> when there is none.\<close>

fun page_type :: "u64 \<Rightarrow> memory_descriptor list \<Rightarrow> u32" where
  "page_type pa [] = 0xFFFFFFFF"
| "page_type pa (md # mds) =
     (let start = md_start md;
          end_pa = start + md_pages md * 4096
      in if pa \<ge> start \<and> pa < end_pa then md_type md else page_type pa mds)"

definition verify_one ::
  "memory_descriptor list \<Rightarrow> badmem_range \<Rightarrow> verify_report \<Rightarrow> verify_report" where
  "verify_one map_descs r v =
     (let pa = rg_start r AND NOT 0xFFF;
          type = page_type pa map_descs
      in if type = memory_type_code EfiReservedMemoryType then v\<lparr>vr_confirmed := vr_confirmed v + 1\<rparr>
         else if type = 0xFFFFFFFF then v\<lparr>vr_not_in_map := vr_not_in_map v + 1\<rparr>
         else v\<lparr>vr_unsafe := vr_unsafe v + 1\<rparr>)"

text \<open>\<open>None\<close> where the function gives up, or has nothing to do.\<close>

definition verify_mask_in_memmap ::
  "'w firmware \<Rightarrow> badmem_range list \<Rightarrow> 'w \<Rightarrow> verify_report option \<times> 'w" where
  "verify_mask_in_memmap fw ranges w =
     (if ranges = [] then (None, w)
      else
        let (s, mm_size, desc_size) = GetMemoryMapSize fw w in
        if s \<noteq> EFI_BUFFER_TOO_SMALL \<or> mm_size = 0 \<or> desc_size = 0 then (None, w)
        else
          let buf_size = mm_size + 8 * desc_size;
              (s, w) = AllocatePool fw buf_size w
          in
            if s \<noteq> EFI_SUCCESS then (None, w)
            else
              let (s, descs) = GetMemoryMap fw buf_size w in
              if s \<noteq> EFI_SUCCESS then (None, FreePool fw w)
              else (Some (fold (verify_one descs) ranges
                      \<lparr>vr_confirmed = 0, vr_not_in_map = 0, vr_unsafe = 0\<rparr>), FreePool fw w))"

section \<open>Chip mode\<close>

text \<open>Resolution of a designator: the first package of the first profile that carries it.\<close>

definition find_package :: "board_profile list \<Rightarrow> u8 list \<Rightarrow> board_package option" where
  "find_package profiles d =
     List.find (\<lambda>pkg. desig_eq (bp_designator pkg) d)
       (concat (map (\<lambda>prof. take (bf_package_count prof) (bf_packages prof)) profiles))"

definition resolve_chip :: "board_profile list \<Rightarrow> badmem_chip \<Rightarrow> badmem_chip" where
  "resolve_chip profiles ce =
     (case find_package profiles (bc_designator ce) of
        None \<Rightarrow> ce
      | Some pkg \<Rightarrow> ce\<lparr>bc_channel := bp_channel pkg, bc_rank := bp_rank pkg,
                      bc_byte_lane := bp_byte_lane pkg, bc_resolved := True\<rparr>)"

definition resolve_chip_entries ::
  "board_profile list \<Rightarrow> badmem_chip list \<Rightarrow> status \<times> badmem_chip list" where
  "resolve_chip_entries profiles chips = (EFI_SUCCESS, map (resolve_chip profiles) chips)"

definition chip_match :: "badmem_chip list \<Rightarrow> shim_pa_decoded \<Rightarrow> bool" where
  "chip_match chips d =
     list_ex (\<lambda>c. bc_resolved c \<and> bc_channel c = sd_channel d \<and> bc_rank c = sd_rank d) chips"

definition reserve_page :: "'w firmware \<Rightarrow> u64 \<Rightarrow> u32 \<times> u32 \<times> 'w \<Rightarrow> u32 \<times> u32 \<times> 'w" where
  "reserve_page fw pa = (\<lambda>(reserved, skipped, w).
     let (s, w) = AllocatePage fw pa w in
     if s = EFI_SUCCESS then (reserved + 1, skipped, w) else (reserved, skipped + 1, w))"

definition mask_chip_page ::
  "'w firmware \<Rightarrow> shim_mc \<Rightarrow> badmem_chip list \<Rightarrow> u64 \<Rightarrow> u32 \<times> u32 \<times> 'w \<Rightarrow> u32 \<times> u32 \<times> 'w" where
  "mask_chip_page fw mc chips pa s =
     (let d = shim_cfl_decode_pa mc pa in
      if \<not> sd_valid d then s
      else if \<not> chip_match chips d then s
      else reserve_page fw pa s)"

definition mask_chips ::
  "'w firmware \<Rightarrow> shim_hardware \<Rightarrow> badmem_chip list \<Rightarrow> shim_state \<Rightarrow> 'w
     \<Rightarrow> (status \<times> (u32 \<times> u32) \<times> shim_state \<times> 'w) option" where
  "mask_chips fw shw chips sst w =
     (if chips = [] then Some (EFI_SUCCESS, (0, 0), sst, w)
      else if \<not> list_ex bc_resolved chips then Some (EFI_SUCCESS, (0, 0), sst, w)
      else
        let (ok, sst) = shim_cfl_init shw sst in
        if \<not> ok then Some (EFI_UNSUPPORTED, (0, 0), sst, w)
        else
          let total = shim_cfl_total_memory (g_mc sst) in
          if total = 0 then Some (EFI_UNSUPPORTED, (0, 0), sst, w)
          else map_option (\<lambda>(reserved, skipped, w). (EFI_SUCCESS, (reserved, skipped), sst, w))
                 (page_loop (\<lambda>_. True) (mask_chip_page fw (g_mc sst) chips) 0 total (0, 0, w)))"

section \<open>Row mode\<close>

definition ROW_ENUM_CAP :: nat where "ROW_ENUM_CAP = 2048"

fun mask_row_list ::
  "'w firmware \<Rightarrow> shim_mc \<Rightarrow> badmem_row list \<Rightarrow> u32 \<times> u32 \<times> 'w \<Rightarrow> (u32 \<times> u32 \<times> 'w) option" where
  "mask_row_list fw mc [] s = Some s"
| "mask_row_list fw mc (r # rs) s =
     Option.bind
       (shim_cfl_enumerate_row mc (row_channel r) (row_rank r) (row_bank_group r) (row_bank r)
          (row_row r) True ROW_ENUM_CAP)
       (\<lambda>pa_buf. mask_row_list fw mc rs (fold (reserve_page fw) pa_buf s))"

definition mask_rows ::
  "'w firmware \<Rightarrow> shim_hardware \<Rightarrow> badmem_row list \<Rightarrow> shim_state \<Rightarrow> 'w
     \<Rightarrow> (status \<times> (u32 \<times> u32) \<times> shim_state \<times> 'w) option" where
  "mask_rows fw shw rows sst w =
     (if rows = [] then Some (EFI_SUCCESS, (0, 0), sst, w)
      else
        let (ok, sst) = shim_cfl_init shw sst in
        if \<not> ok then Some (EFI_UNSUPPORTED, (0, 0), sst, w)
        else if shim_cfl_total_memory (g_mc sst) = 0 then Some (EFI_UNSUPPORTED, (0, 0), sst, w)
        else map_option
               (\<lambda>(total_reserved, total_skipped, w).
                  (EFI_SUCCESS, (total_reserved, total_skipped), sst, w))
               (mask_row_list fw (g_mc sst) rows (0, 0, w)))"

section \<open>What page mode takes out of the free memory\<close>

text \<open>The pages that hold a byte within 1 MiB of the range.\<close>

definition near :: "badmem_range \<Rightarrow> u64 \<Rightarrow> bool" where
  "near r p \<longleftrightarrow> unat (rg_start r) < unat p + 4096 + 2 ^ 20 \<and>
     unat p < unat (rg_start r) + unat (rg_len r) + 2 ^ 20"

text \<open>The window does not reach the top of the address space and is shorter than \<open>2\<close> to the 43 bytes.\<close>

definition in_reach :: "badmem_range \<Rightarrow> bool" where
  "in_reach r \<longleftrightarrow> unat (rg_start r) + unat (rg_len r) + 2 ^ 20 + 4095 < 2 ^ 64 \<and>
     unat (rg_len r) < 2 ^ 43"

lemma mask_page_size: "NOT (MASK_PAGE_SIZE - 1) = PAGE_MASK"
  by (simp add: MASK_PAGE_SIZE_def PAGE_MASK_def PAGE_SIZE_def)

lemma aligned_le_iff: "page_aligned p \<Longrightarrow> x AND PAGE_MASK \<le> p \<longleftrightarrow> unat x < unat p + 4096"
proof -
  assume "page_aligned p"
  then obtain k where p: "unat p = 4096 * k" by (auto simp: page_aligned_def dvd_def)
  have "unat (x AND PAGE_MASK) = 4096 * (unat x div 4096)"
    by (simp add: unat_page_mask minus_mod_eq_mult_div)
  moreover have "4096 * (unat x div 4096) \<le> 4096 * k \<longleftrightarrow> unat x < 4096 * k + 4096"
    using div_less_iff_less_mult [of 4096 "unat x" "Suc k"]
    by (simp only: mult_le_cancel1 less_Suc_eq_le) (simp add: algebra_simps)
  ultimately show ?thesis using p by (simp add: word_le_nat_alt)
qed

lemma less_aligned_iff:
  assumes "page_aligned p" "unat x + 4095 < 2 ^ 64"
  shows "p < page_ceil x \<longleftrightarrow> unat p < unat x"
proof -
  obtain k where p: "unat p = 4096 * k" using assms(1) by (auto simp: page_aligned_def dvd_def)
  have "unat (page_ceil x) = 4096 * ((unat x + 4095) div 4096)"
    by (simp add: unat_page_ceil [OF assms(2)] minus_mod_eq_mult_div)
  moreover have "4096 * k < 4096 * ((unat x + 4095) div 4096) \<longleftrightarrow> 4096 * k < unat x"
    using less_eq_div_iff_mult_less_eq [of 4096 "Suc k" "unat x + 4095"] by auto
  ultimately show ?thesis using p by (simp add: word_less_nat_alt)
qed

lemma expand_range_pages:
  assumes "in_reach r" "expand_range r = (a, b)"
  shows "page_aligned a" "page_aligned b"
    "set (pages_between a b) = {p. page_aligned p \<and> near r p}"
    "length (pages_between a b) < 2 ^ 32"
proof -
  define s where "s = rg_start r"
  define es where "es = (if s > MASK_EXPAND_BYTES then s - MASK_EXPAND_BYTES else 0)"
  define ee where "ee = s + rg_len r + MASK_EXPAND_BYTES"
  have reach: "unat s + unat (rg_len r) + 1048576 + 4095 < 18446744073709551616"
    "unat (rg_len r) < 8796093022208"
    using assms(1) by (simp_all add: in_reach_def s_def)
  have ps: "PAGE_SIZE = MASK_PAGE_SIZE" by (simp add: MASK_PAGE_SIZE_def PAGE_SIZE_def)
  have ab: "a = es AND PAGE_MASK" "b = page_ceil ee"
    using assms(2) unfolding expand_range_def Let_def mask_page_size prod.inject page_ceil_def
      es_def ee_def s_def ps by simp_all
  have ee: "unat ee = unat s + unat (rg_len r) + 1048576"
    using reach(1) by (simp add: ee_def MASK_EXPAND_BYTES_def unat_word_ariths)
  have es: "unat es = unat s - 1048576"
    by (auto simp: es_def MASK_EXPAND_BYTES_def word_less_nat_alt unat_sub word_le_nat_alt)
  have ee': "unat ee + 4095 < 2 ^ 64" using reach(1) ee by simp
  show al: "page_aligned a" "page_aligned b" by (simp_all add: ab)
  show "set (pages_between a b) = {p. page_aligned p \<and> near r p}"
    using es ee by (auto simp: set_pages_between [OF al, unfolded ab] ab aligned_le_iff
        less_aligned_iff [OF _ ee'] near_def s_def)
  have "unat b - unat a < 1099511627776 * 16"
    using page_ceil_bounds [OF ee'] page_mask_bounds [of es] ee es reach(2) by (simp add: ab)
  then show "length (pages_between a b) < 2 ^ 32"
    by (simp add: length_pages_between div_less_iff_less_mult)
qed

text \<open>One sweep over pages: \<open>a\<close> of them taken, \<open>c\<close> of them missed.\<close>

lemma mask_one_page_fold:
  assumes "page_allocator fw free"
  shows "\<exists>a b c w'. fold (mask_one_page fw) ps (n, p, g, w) = (n + of_nat a, p + of_nat b, g + of_nat c, w') \<and>
    a + b + c = length ps \<and> free w' \<subseteq> free w \<and> free w - free w' \<subseteq> set ps \<and>
    card (free w - free w') = a \<and> (c = 0 \<longrightarrow> set ps \<inter> free w' = {})"
proof (induction ps arbitrary: n p g w)
  case Nil
  show ?case by (intro exI [of _ "0 :: nat"] exI [of _ w]) simp
next
  case (Cons q ps)
  obtain s w1 where al: "AllocatePage fw q w = (s, w1)" by (cases "AllocatePage fw q w")
  have law: "if s = EFI_SUCCESS then q \<in> free w \<and> free w1 = free w - {q} else free w1 = free w"
    "s = EFI_NOT_FOUND \<or> s = EFI_ACCESS_DENIED \<Longrightarrow> q \<notin> free w"
    using assms [unfolded page_allocator_def, rule_format, of q w] al by auto
  define n1 p1 g1 :: u32 where
    "n1 = (if s = EFI_SUCCESS then n + 1 else n)"
    and "p1 = (if s = EFI_NOT_FOUND \<or> s = EFI_ACCESS_DENIED then p + 1 else p)"
    and "g1 = (if s = EFI_SUCCESS \<or> s = EFI_NOT_FOUND \<or> s = EFI_ACCESS_DENIED then g else g + 1)"
  obtain a b c w' where IH:
    "fold (mask_one_page fw) ps (n1, p1, g1, w1) = (n1 + of_nat a, p1 + of_nat b, g1 + of_nat c, w')"
    "a + b + c = length ps" "free w' \<subseteq> free w1" "free w1 - free w' \<subseteq> set ps"
    "card (free w1 - free w') = a" "c = 0 \<longrightarrow> set ps \<inter> free w' = {}"
    using Cons.IH by blast
  have step: "fold (mask_one_page fw) (q # ps) (n, p, g, w) =
      (n1 + of_nat a, p1 + of_nat b, g1 + of_nat c, w')"
    using IH(1) al by (auto simp: mask_one_page_def n1_def p1_def g1_def)
  consider (new) "s = EFI_SUCCESS" | (pre) "s \<noteq> EFI_SUCCESS" "s = EFI_NOT_FOUND \<or> s = EFI_ACCESS_DENIED"
    | (gap) "s \<noteq> EFI_SUCCESS" "\<not> (s = EFI_NOT_FOUND \<or> s = EFI_ACCESS_DENIED)" by blast
  then show ?case
  proof cases
    case new
    then have v: "n1 = n + 1" "p1 = p" "g1 = g" by (simp_all add: n1_def p1_def g1_def)
    have f: "free w1 = free w - {q}" "q \<in> free w" using new law(1) by simp_all
    have "free w - free w' = insert q (free w1 - free w')" "q \<notin> free w1" using f IH(3) by auto
    moreover have "finite (free w1 - free w')" using IH(4) finite_subset by blast
    ultimately have "card (free w - free w') = Suc a" using IH(5) by simp
    moreover have "free w' \<subseteq> free w" "free w - free w' \<subseteq> set (q # ps)" using f IH(3,4) by auto
    moreover have "c = 0 \<longrightarrow> set (q # ps) \<inter> free w' = {}" using f IH(3,6) by auto
    moreover have "Suc a + b + c = length (q # ps)" using IH(2) by simp
    ultimately show ?thesis unfolding step v
      by (intro exI [of _ "Suc a"] exI [of _ b] exI [of _ c] exI [of _ w'] conjI) simp_all
  next
    case pre
    then have v: "n1 = n" "p1 = p + 1" "g1 = g" by (auto simp: n1_def p1_def g1_def)
    have f: "free w1 = free w" "q \<notin> free w" using pre law by simp_all
    have "c = 0 \<longrightarrow> set (q # ps) \<inter> free w' = {}" using f IH(3,6) by auto
    moreover have "a + Suc b + c = length (q # ps)" using IH(2) by simp
    moreover have "free w - free w' \<subseteq> set (q # ps)" using f IH(4) by auto
    ultimately show ?thesis using IH(3,5) unfolding step v f(1)
      by (intro exI [of _ a] exI [of _ "Suc b"] exI [of _ c] exI [of _ w'] conjI) simp_all
  next
    case gap
    then have v: "n1 = n" "p1 = p" "g1 = g + 1" by (auto simp: n1_def p1_def g1_def)
    have f: "free w1 = free w" using gap law(1) by simp
    have "a + b + Suc c = length (q # ps)" using IH(2) by simp
    moreover have "free w - free w' \<subseteq> set (q # ps)" using f IH(4) by auto
    ultimately show ?thesis using IH(3,5) unfolding step v f
      by (intro exI [of _ a] exI [of _ b] exI [of _ "Suc c"] exI [of _ w'] conjI) simp_all
  qed
qed

lemma ucast_count: "n < 2 ^ 32 \<Longrightarrow> (ucast (of_nat n :: u32) :: u64) = of_nat n"
  by (simp add: unsigned_ucast_eq word_unat_eq_iff unat_of_nat take_bit_nat_eq_self)

lemma count_0_iff: "n < 2 ^ 32 \<Longrightarrow> (of_nat n :: u32) = 0 \<longleftrightarrow> n = 0"
  by (simp add: word_unat_eq_iff unat_of_nat)

lemma mask_range_effect:
  assumes "page_allocator fw free" "in_reach r"
  shows "\<exists>n b c w'. mask_range fw r rep w = Some (rep\<lparr>mr_pages_new := mr_pages_new rep + of_nat n,
        mr_pages_pre := mr_pages_pre rep + of_nat b, mr_pages_gap := mr_pages_gap rep + of_nat c,
        mr_ranges_covered := mr_ranges_covered rep + (if c = 0 then 1 else 0),
        mr_ranges_gaps := mr_ranges_gaps rep + (if c = 0 then 0 else 1)\<rparr>, w') \<and>
    free w' \<subseteq> free w \<and> free w - free w' \<subseteq> {p. page_aligned p \<and> near r p} \<and>
    finite (free w - free w') \<and> card (free w - free w') = n \<and>
    (c = (0 :: nat) \<longrightarrow> {p. page_aligned p \<and> near r p} \<inter> free w' = {})"
proof -
  obtain x y where xy: "expand_range r = (x, y)" by (cases "expand_range r")
  note ps = expand_range_pages [OF assms(2) xy]
  obtain n b c w' where f: "fold (mask_one_page fw) (pages_between x y) (0, 0, 0, w) =
      (0 + of_nat n, 0 + of_nat b, 0 + of_nat c, w')"
    and sum: "n + b + c = length (pages_between x y)"
    and fr: "free w' \<subseteq> free w" "free w - free w' \<subseteq> set (pages_between x y)"
      "card (free w - free w') = n" "c = 0 \<longrightarrow> set (pages_between x y) \<inter> free w' = {}"
    using mask_one_page_fold [OF assms(1), of "pages_between x y" 0 0 0 w] by blast
  have small: "n < 2 ^ 32" "b < 2 ^ 32" "c < 2 ^ 32" using sum ps(4) by linarith+
  have "mask_range fw r rep w = Some (rep\<lparr>mr_pages_new := mr_pages_new rep + of_nat n,
        mr_pages_pre := mr_pages_pre rep + of_nat b, mr_pages_gap := mr_pages_gap rep + of_nat c,
        mr_ranges_covered := mr_ranges_covered rep + (if c = 0 then 1 else 0),
        mr_ranges_gaps := mr_ranges_gaps rep + (if c = 0 then 0 else 1)\<rparr>, w')"
    using ucast_count [OF small(1)] ucast_count [OF small(2)] ucast_count [OF small(3)]
      count_0_iff [OF small(3)]
    by (simp add: mask_range_def xy page_loop_eq ps(1,2) fold_while_True f)
  moreover have "finite (free w - free w')" using fr(2) finite_subset by blast
  ultimately show ?thesis using fr unfolding ps(3) by blast
qed

lemma mask_ranges_effect:
  assumes "page_allocator fw free" "\<forall>r \<in> set rs. in_reach r"
  shows "\<exists>n j k rep' w'. mask_ranges fw rs rep w = Some (rep', w') \<and>
    mr_pages_new rep' = mr_pages_new rep + of_nat n \<and>
    mr_ranges_covered rep' = mr_ranges_covered rep + of_nat j \<and>
    mr_ranges_gaps rep' = mr_ranges_gaps rep + of_nat k \<and> j + k = length rs \<and>
    free w' \<subseteq> free w \<and> finite (free w - free w') \<and> card (free w - free w') = n \<and>
    (\<forall>p \<in> free w - free w'. page_aligned p \<and> (\<exists>r \<in> set rs. near r p)) \<and>
    (k = 0 \<longrightarrow> (\<forall>r \<in> set rs. {p. page_aligned p \<and> near r p} \<inter> free w' = {}))"
  using assms(2)
proof (induction rs arbitrary: rep w)
  case Nil
  show ?case by (intro exI [of _ "0 :: nat"] exI [of _ rep] exI [of _ w]) simp
next
  case (Cons r rs)
  have "in_reach r" using Cons.prems by simp
  from mask_range_effect [OF assms(1) this, of rep w]
  obtain n1 b c w1 where m1: "mask_range fw r rep w = Some (rep\<lparr>mr_pages_new := mr_pages_new rep + of_nat n1,
        mr_pages_pre := mr_pages_pre rep + of_nat b, mr_pages_gap := mr_pages_gap rep + of_nat c,
        mr_ranges_covered := mr_ranges_covered rep + (if c = 0 then 1 else 0),
        mr_ranges_gaps := mr_ranges_gaps rep + (if c = 0 then 0 else 1)\<rparr>, w1)"
    and f1: "free w1 \<subseteq> free w" "free w - free w1 \<subseteq> {p. page_aligned p \<and> near r p}"
      "finite (free w - free w1)" "card (free w - free w1) = n1"
      "c = (0 :: nat) \<longrightarrow> {p. page_aligned p \<and> near r p} \<inter> free w1 = {}"
    by blast
  define rep1 where rep1: "rep1 = rep\<lparr>mr_pages_new := mr_pages_new rep + of_nat n1,
        mr_pages_pre := mr_pages_pre rep + of_nat b, mr_pages_gap := mr_pages_gap rep + of_nat c,
        mr_ranges_covered := mr_ranges_covered rep + (if c = 0 then 1 else 0),
        mr_ranges_gaps := mr_ranges_gaps rep + (if c = 0 then 0 else 1)\<rparr>"
  note 1 = m1 [folded rep1]
  obtain n2 j k rep' w' where 2: "mask_ranges fw rs rep1 w1 = Some (rep', w')"
    and rep': "mr_pages_new rep' = mr_pages_new rep1 + of_nat n2"
      "mr_ranges_covered rep' = mr_ranges_covered rep1 + of_nat j"
      "mr_ranges_gaps rep' = mr_ranges_gaps rep1 + of_nat k" "j + k = length rs"
    and f2: "free w' \<subseteq> free w1" "finite (free w1 - free w')" "card (free w1 - free w') = n2"
      "\<forall>p \<in> free w1 - free w'. page_aligned p \<and> (\<exists>r \<in> set rs. near r p)"
      "k = 0 \<longrightarrow> (\<forall>r \<in> set rs. {p. page_aligned p \<and> near r p} \<inter> free w' = {})"
    using Cons.IH [of rep1 w1] Cons.prems by auto
  have un: "free w - free w' = (free w - free w1) \<union> (free w1 - free w')" using f1(1) f2(1) by blast
  have "card (free w - free w') = n1 + n2"
    unfolding un using f1(3,4) f2(2,3) by (subst card_Un_disjoint) auto
  moreover have "finite (free w - free w')" using un f1(3) f2(2) by simp
  moreover have "\<forall>p \<in> free w - free w'. page_aligned p \<and> (\<exists>r \<in> set (r # rs). near r p)"
    unfolding un using f1(2) f2(4) by auto
  moreover have "k + (if c = 0 then 0 else 1) = 0 \<longrightarrow>
      (\<forall>r \<in> set (r # rs). {p. page_aligned p \<and> near r p} \<inter> free w' = {})"
    using f1(5) f2(1,5) by (auto split: if_splits)
  moreover have "free w' \<subseteq> free w" using f1(1) f2(1) by blast
  moreover have "mask_ranges fw (r # rs) rep w = Some (rep', w')" using 1 2 by simp
  moreover have "j + (if c = 0 then 1 else 0) + (k + (if c = 0 then 0 else 1)) = length (r # rs)"
    using rep'(4) by simp
  ultimately show ?case
    by (intro exI [of _ "n1 + n2"] exI [of _ "j + (if c = 0 then 1 else 0)"]
        exI [of _ "k + (if c = 0 then 0 else 1)"] exI [of _ rep'] exI [of _ w'] conjI)
      (simp_all add: rep' rep1)
qed

text \<open>C11: page mode protects what it says it protects: every page it takes from the free memory lies within
  1 MiB of a range, it counts exactly the pages taken, every range is counted as covered or as
  having a gap, and where no gap is reported no page near any of the ranges is free any more.\<close>

theorem mask_pages_reserves:
  assumes "page_allocator fw free" "\<forall>r \<in> set ranges. in_reach r" "length ranges < 2 ^ 32"
  shows "\<exists>rep w'. mask_pages fw ranges w = Some (EFI_SUCCESS, rep, w') \<and>
    free w' \<subseteq> free w \<and> (\<forall>p \<in> free w - free w'. page_aligned p \<and> (\<exists>r \<in> set ranges. near r p)) \<and>
    mr_pages_new rep = of_nat (card (free w - free w')) \<and>
    unat (mr_ranges_covered rep) + unat (mr_ranges_gaps rep) = length ranges \<and>
    (mr_ranges_gaps rep = 0 \<longrightarrow> (\<forall>p \<in> free w'. page_aligned p \<longrightarrow> (\<forall>r \<in> set ranges. \<not> near r p)))"
proof -
  obtain n j k rep w' where e: "mask_ranges fw ranges empty_report w = Some (rep, w')"
    and rep: "mr_pages_new rep = mr_pages_new empty_report + of_nat n"
      "mr_ranges_covered rep = mr_ranges_covered empty_report + of_nat j"
      "mr_ranges_gaps rep = mr_ranges_gaps empty_report + of_nat k" "j + k = length ranges"
    and f: "free w' \<subseteq> free w" "card (free w - free w') = n"
      "\<forall>p \<in> free w - free w'. page_aligned p \<and> (\<exists>r \<in> set ranges. near r p)"
      "k = 0 \<longrightarrow> (\<forall>r \<in> set ranges. {p. page_aligned p \<and> near r p} \<inter> free w' = {})"
    using mask_ranges_effect [OF assms(1,2), of empty_report w] by blast
  have "j < 2 ^ 32" "k < 2 ^ 32" using rep(4) assms(3) by linarith+
  then have u: "unat (mr_ranges_covered rep) = j" "unat (mr_ranges_gaps rep) = k"
    using rep by (simp_all add: empty_report_def unat_of_nat)
  have g: "mr_ranges_gaps rep = 0 \<longrightarrow> k = 0" using u(2) by auto
  have free: "mr_ranges_gaps rep = 0 \<longrightarrow>
      (\<forall>p \<in> free w'. page_aligned p \<longrightarrow> (\<forall>r \<in> set ranges. \<not> near r p))"
    using f(4) g by blast
  have m: "mask_pages fw ranges w = Some (EFI_SUCCESS, rep, w')" by (simp add: mask_pages_def e)
  have new: "mr_pages_new rep = of_nat (card (free w - free w'))"
    using rep(1) f(2) by (simp add: empty_report_def)
  show ?thesis
    using f(1,3) rep(4) u m new free by (intro exI [of _ rep] exI [of _ w'] conjI) simp_all
qed

text \<open>One bad page at 16 MiB, of a machine with three free pages, two of them within the margin.\<close>

definition three_pages :: machine where
  "three_pages = blank_machine\<lparr>m_free := [0xF00000, 0x1000000, 0x2000000]\<rparr>"

definition page_16M :: badmem_range where
  "page_16M = \<lparr>rg_start = 0x1000000, rg_len = 0x1000\<rparr>"

theorem mask_pages_reserves_witness:
  "\<exists>rep w'. mask_pages bench [page_16M] three_pages = Some (EFI_SUCCESS, rep, w') \<and>
    set (m_free w') \<subseteq> set (m_free three_pages) \<and> 0x2000000 \<in> set (m_free w') \<and>
    unat (mr_ranges_covered rep) + unat (mr_ranges_gaps rep) = 1"
proof -
  have "\<forall>r \<in> set [page_16M]. in_reach r" by (simp add: in_reach_def page_16M_def)
  from mask_pages_reserves [OF page_allocator_bench this, of three_pages]
  obtain rep w' where r: "mask_pages bench [page_16M] three_pages = Some (EFI_SUCCESS, rep, w')"
    "set (m_free w') \<subseteq> set (m_free three_pages)"
    "\<forall>p \<in> set (m_free three_pages) - set (m_free w'). page_aligned p \<and> near page_16M p"
    "unat (mr_ranges_covered rep) + unat (mr_ranges_gaps rep) = 1"
    by auto
  have "\<not> near page_16M 0x2000000" by (simp add: near_def page_16M_def)
  with r(3) have "0x2000000 \<in> set (m_free w')" by (auto simp: three_pages_def blank_machine_def)
  with r show ?thesis by blast
qed

section \<open>Coverage and the memory map\<close>

text \<open>The coverage that page mode reports is not what the verification finds: when the firmware
  refuses every page because it is in use, the range counts as fully covered, and if the memory
  map types the page as anything the OS may reclaim, the verification counts it as unsafe.\<close>

theorem covered_but_unsafe:
  assumes "\<And>pa w. AllocatePage fw pa w = (EFI_NOT_FOUND, w)" "in_reach r"
    and "GetMemoryMapSize fw w = (EFI_BUFFER_TOO_SMALL, mm_size, desc_size)" "0 < mm_size" "0 < desc_size"
    and "AllocatePool fw (mm_size + 8 * desc_size) w = (EFI_SUCCESS, w1)"
    and "GetMemoryMap fw (mm_size + 8 * desc_size) w1 = (EFI_SUCCESS, descs)"
    and "page_type (rg_start r AND NOT 0xFFF) descs \<notin> {memory_type_code EfiReservedMemoryType, 0xFFFFFFFF}"
  shows "\<exists>rep. mask_pages fw [r] w = Some (EFI_SUCCESS, rep, w) \<and> mr_ranges_covered rep = 1 \<and>
    mr_ranges_gaps rep = 0 \<and> mr_pages_new rep = 0 \<and>
    fst (verify_mask_in_memmap fw [r] w) = Some \<lparr>vr_confirmed = 0, vr_not_in_map = 0, vr_unsafe = 1\<rparr>"
proof -
  have pre: "fold (mask_one_page fw) ps (0, p, 0, w) = (0, p + of_nat (length ps), 0, w)" for ps p
    by (induction ps arbitrary: p) (simp_all add: mask_one_page_def assms(1) algebra_simps)
  obtain a b where ab: "expand_range r = (a, b)" by (cases "expand_range r")
  note al = expand_range_pages(1,2) [OF assms(2) ab]
  have "\<exists>rep. mask_pages fw [r] w = Some (EFI_SUCCESS, rep, w) \<and> mr_ranges_covered rep = 1 \<and>
      mr_ranges_gaps rep = 0 \<and> mr_pages_new rep = 0"
    by (simp add: mask_pages_def mask_range_def ab page_loop_eq al fold_while_True pre empty_report_def)
  moreover have "fst (verify_mask_in_memmap fw [r] w) =
      Some \<lparr>vr_confirmed = 0, vr_not_in_map = 0, vr_unsafe = 1\<rparr>"
    using assms(8) by (simp add: verify_mask_in_memmap_def assms(3-7) verify_one_def Let_def)
  ultimately show ?thesis by blast
qed

text \<open>The bad page belongs to a region of type 4, boot services data.\<close>

definition busy_bench :: "machine firmware" where
  "busy_bench = bench\<lparr>AllocatePage := \<lambda>pa w. (EFI_NOT_FOUND, w),
     GetMemoryMap := \<lambda>n w. (EFI_SUCCESS, [\<lparr>md_type = 4, md_start = 0x1000000, md_pages = 16\<rparr>])\<rparr>"

theorem covered_but_unsafe_witness:
  "\<exists>rep. mask_pages busy_bench [page_16M] three_pages = Some (EFI_SUCCESS, rep, three_pages) \<and>
    mr_ranges_covered rep = 1 \<and>
    fst (verify_mask_in_memmap busy_bench [page_16M] three_pages) =
      Some \<lparr>vr_confirmed = 0, vr_not_in_map = 0, vr_unsafe = 1\<rparr>"
  using covered_but_unsafe [of busy_bench page_16M three_pages 192 48 three_pages
      "[\<lparr>md_type = 4, md_start = 0x1000000, md_pages = 16\<rparr>]"]
  by (auto simp: busy_bench_def bench_def in_reach_def page_16M_def three_pages_def blank_machine_def)

section \<open>What chip mode and row mode take\<close>

text \<open>An allocator that hands out every page that is free.\<close>

definition exact_allocator :: "'w firmware \<Rightarrow> ('w \<Rightarrow> u64 set) \<Rightarrow> bool" where
  "exact_allocator fw free \<longleftrightarrow> page_allocator fw free \<and>
     (\<forall>pa w. pa \<in> free w \<longrightarrow> fst (AllocatePage fw pa w) = EFI_SUCCESS)"

lemma exact_allocator_bench: "exact_allocator bench (\<lambda>w. set (m_free w))"
  using page_allocator_bench by (simp add: exact_allocator_def) (simp add: bench_def)

lemma reserve_page_free:
  assumes "exact_allocator fw free"
  shows "free (snd (snd (reserve_page fw pa s))) = free (snd (snd s)) - {pa}"
proof -
  obtain x y w where s: "s = (x, y, w)" by (cases s)
  obtain st w' where al: "AllocatePage fw pa w = (st, w')" by (cases "AllocatePage fw pa w")
  have law: "if st = EFI_SUCCESS then pa \<in> free w \<and> free w' = free w - {pa} else free w' = free w"
    "pa \<in> free w \<Longrightarrow> st = EFI_SUCCESS"
    using assms [unfolded exact_allocator_def page_allocator_def] al by (metis fst_conv snd_conv)+
  have "free w' = free w - {pa}" using law by (cases "st = EFI_SUCCESS") auto
  then show ?thesis by (simp add: reserve_page_def s al)
qed

lemma reserve_fold_free:
  assumes "exact_allocator fw free"
  shows "free (snd (snd (fold (\<lambda>pa s. if P pa then reserve_page fw pa s else s) ps s))) =
    free (snd (snd s)) - {pa \<in> set ps. P pa}"
  by (induction ps arbitrary: s) (auto simp: reserve_page_free [OF assms])

lemma reserve_all_free:
  assumes "exact_allocator fw free"
  shows "free (snd (snd (fold (reserve_page fw) ps s))) = free (snd (snd s)) - set ps"
  using reserve_fold_free [OF assms, of "\<lambda>_. True"] by simp

text \<open>The pages of the installed memory whose page address decodes to the channel and rank of a
  resolved chip.\<close>

definition on_chip :: "mc_config \<Rightarrow> u64 \<Rightarrow> badmem_chip \<Rightarrow> bool" where
  "on_chip mc p c \<longleftrightarrow>
     (let d = config_decode_pa mc (config_row_bits (Some mc)) p
      in bc_resolved c \<and> bc_channel c = d_channel d \<and> bc_rank c = d_rank d)"

definition chip_pages :: "mc_config \<Rightarrow> badmem_chip list \<Rightarrow> u64 set" where
  "chip_pages mc chips =
     {p. page_aligned p \<and> p < config_total_memory mc \<and> list_ex (on_chip mc p) chips}"

lemma chip_match_decoded:
  "chip_match chips (shim_decoded (config_decode_pa mc (config_row_bits (Some mc)) p)) \<longleftrightarrow>
    list_ex (on_chip mc p) chips"
  by (simp add: chip_match_def on_chip_def [abs_def] shim_decoded_def Let_def)

lemma mask_chips_free:
  assumes "exact_allocator fw free" "list_ex bc_resolved chips"
    and "shim_cfl_init shw sst = (True, sst')" "g_mc sst' = shim_view mc" "mc_wf mc"
    and "0 < config_total_memory mc"
  shows "\<exists>c w'. mask_chips fw shw chips sst w = Some (EFI_SUCCESS, c, sst', w') \<and>
    free w' = free w - chip_pages mc chips"
proof -
  define ps where "ps = pages_between 0 (config_total_memory mc)"
  define P where "P pa = list_ex (on_chip mc pa) chips" for pa
  have body: "mask_chip_page fw (shim_view mc) chips = (\<lambda>pa s. if P pa then reserve_page fw pa s else s)"
    by (rule ext)+ (simp add: mask_chip_page_def shim_decode_view [OF assms(5)] P_def chip_match_decoded
        [symmetric] shim_decoded_def config_decode_pa_fields)
  obtain r s w' where f: "fold (\<lambda>pa s. if P pa then reserve_page fw pa s else s) ps (0, 0, w) = (r, s, w')"
    using prod_cases3 by blast
  have "chips \<noteq> []" using assms(2) by auto
  then have "mask_chips fw shw chips sst w = Some (EFI_SUCCESS, (r, s), sst', w')"
    using assms(2-6) f
    by (simp add: mask_chips_def shim_total_view page_loop_eq page_aligned_total_memory
        fold_while_True body ps_def Let_def)
  moreover have "free w' = free w - {pa \<in> set ps. P pa}"
    using reserve_fold_free [OF assms(1), of P ps "(0, 0, w)"] by (simp add: f)
  moreover have "{pa \<in> set ps. P pa} = chip_pages mc chips"
    by (auto simp: ps_def P_def chip_pages_def page_aligned_total_memory
        set_pages_between [OF page_aligned_0 page_aligned_total_memory])
  ultimately show ?thesis by auto
qed

text \<open>C13: chip mode reserves exactly the pages of the installed memory whose page address decodes to the
  channel and rank of one of the resolved chips, and leaves every other page.\<close>

theorem mask_chips_pages:
  assumes "exact_allocator fw free" "list_ex bc_resolved chips"
    and "shim_cfl_init shw sst = (True, sst')" "g_mc sst' = shim_view mc" "mc_wf mc"
    and "0 < config_total_memory mc"
  shows "\<exists>c w'. mask_chips fw shw chips sst w = Some (EFI_SUCCESS, c, sst', w') \<and>
    (\<forall>p. p \<in> free w' \<longleftrightarrow> p \<in> free w \<and> \<not> (page_aligned p \<and> p < config_total_memory mc \<and>
       list_ex (on_chip mc p) chips))"
  using mask_chips_free [OF assms, of w] by (auto simp: chip_pages_def)

definition ready_shim :: shim_state where
  "ready_shim = \<lparr>g_mc = shim_view a1990_mc, g_mc_init = True\<rparr>"

lemma init_ready_shim: "shim_cfl_init a1990_shim ready_shim = (True, ready_shim)"
  using mc_wf_a1990 by (simp add: shim_cfl_init_def ready_shim_def shim_view_def mc_wf_def)

definition chip_on :: "u8 \<Rightarrow> badmem_chip" where
  "chip_on c = \<lparr>bc_designator = str ''U2300'', bc_channel = c, bc_rank = 0, bc_byte_lane = 0,
     bc_resolved = True\<rparr>"

theorem mask_chips_pages_witness:
  "\<exists>c w'. mask_chips bench a1990_shim [chip_on 0] ready_shim three_pages =
      Some (EFI_SUCCESS, c, ready_shim, w') \<and>
    (0x1000000 \<in> set (m_free w') \<longleftrightarrow>
      d_channel (config_decode_pa a1990_mc 17 0x1000000) \<noteq> 0 \<or>
      d_rank (config_decode_pa a1990_mc 17 0x1000000) \<noteq> 0)"
proof -
  have "list_ex bc_resolved [chip_on 0]" "g_mc ready_shim = shim_view a1990_mc"
    by (simp_all add: chip_on_def ready_shim_def)
  from mask_chips_pages [OF exact_allocator_bench this(1) init_ready_shim this(2) mc_wf_a1990, of three_pages]
  show ?thesis
    by (simp add: a1990_total a1990_row_bits on_chip_def chip_on_def)
      (auto simp: three_pages_def blank_machine_def page_aligned_def)
qed

lemma config_decode_rank_single:
  "channel_max_ranks (mc_channel mc ! unat (cfl_skl_decode_channel pa mc)) \<le> 1 \<Longrightarrow>
    d_rank (config_decode_pa mc rb pa) = 0"
  by (simp add: config_decode_pa_def cfl_skl_decode_rank_def cfl_skl_decode_bank_row_col_def Let_def)

text \<open>With both channels populated and no channel hash, chip mode cannot tell the channels apart: a
  chip of channel 1 has no page reserved at all, and a chip of channel 0 on single-rank memory
  has every page of the installed memory reserved.\<close>

theorem chip_mode_channels:
  assumes "exact_allocator fw free" "list_ex bc_resolved chips"
    and "shim_cfl_init shw sst = (True, sst')" "g_mc sst' = shim_view mc" "mc_wf mc"
    and "0 < config_total_memory mc"
    and "mc_channels_populated mc \<noteq> 1" "mc_chan_hash mc AND 1 = 0"
  shows "\<exists>c w'. mask_chips fw shw chips sst w = Some (EFI_SUCCESS, c, sst', w') \<and>
    (list_all (\<lambda>c. bc_resolved c \<longrightarrow> bc_channel c \<noteq> 0) chips \<longrightarrow> free w' = free w) \<and>
    (channel_max_ranks (mc_channel mc ! 0) \<le> 1 \<and>
       list_ex (\<lambda>c. bc_resolved c \<and> bc_channel c = 0 \<and> bc_rank c = 0) chips \<longrightarrow>
     (\<forall>p. page_aligned p \<and> p < config_total_memory mc \<longrightarrow> p \<notin> free w'))"
proof -
  obtain c w' where m: "mask_chips fw shw chips sst w = Some (EFI_SUCCESS, c, sst', w')"
    and f: "free w' = free w - chip_pages mc chips"
    using mask_chips_free [OF assms(1-6), of w] by blast
  define rb where "rb = config_row_bits (Some mc)"
  have ch: "d_channel (config_decode_pa mc rb p) = 0" if "page_aligned p" for p
    using page_base_channel [OF that assms(7,8)] by (simp add: config_decode_pa_fields)
  have "chip_pages mc chips = {}" if "list_all (\<lambda>c. bc_resolved c \<longrightarrow> bc_channel c \<noteq> 0) chips"
    using that ch
    by (auto simp: chip_pages_def on_chip_def list_ex_iff list_all_iff simp flip: rb_def)
  moreover have "{p. page_aligned p \<and> p < config_total_memory mc} \<subseteq> chip_pages mc chips"
    if "channel_max_ranks (mc_channel mc ! 0) \<le> 1"
      "list_ex (\<lambda>c. bc_resolved c \<and> bc_channel c = 0 \<and> bc_rank c = 0) chips"
  proof -
    have "d_rank (config_decode_pa mc rb p) = 0" if "page_aligned p" for p
      by (rule config_decode_rank_single)
        (use page_base_channel [OF that assms(7,8)] \<open>channel_max_ranks _ \<le> 1\<close> in simp)
    with that(2) ch show ?thesis
      by (auto simp: chip_pages_def on_chip_def list_ex_iff simp flip: rb_def)
  qed
  ultimately show ?thesis using m f by blast
qed

theorem chip_mode_channels_witness:
  "\<exists>c w'. mask_chips bench a1990_shim [chip_on 1] ready_shim three_pages =
      Some (EFI_SUCCESS, c, ready_shim, w') \<and> set (m_free w') = set (m_free three_pages)"
proof -
  have "list_ex bc_resolved [chip_on 1]" "g_mc ready_shim = shim_view a1990_mc"
    by (simp_all add: chip_on_def ready_shim_def)
  moreover have "mc_channels_populated a1990_mc \<noteq> 1" "mc_chan_hash a1990_mc AND 1 = 0"
    by (simp_all add: a1990_mc_def a1990_config)
  moreover have "0 < config_total_memory a1990_mc" by (simp add: a1990_total)
  ultimately obtain c w' where
    "mask_chips bench a1990_shim [chip_on 1] ready_shim three_pages = Some (EFI_SUCCESS, c, ready_shim, w')"
    "list_all (\<lambda>c. bc_resolved c \<longrightarrow> bc_channel c \<noteq> 0) [chip_on 1] \<longrightarrow>
      set (m_free w') = set (m_free three_pages)"
    using chip_mode_channels [OF exact_allocator_bench _ init_ready_shim _ mc_wf_a1990,
        of "[chip_on 1]" three_pages] by blast
  then show ?thesis by (simp add: chip_on_def)
qed

definition pages_of_row :: "mc_config \<Rightarrow> badmem_row \<Rightarrow> u64 list" where
  "pages_of_row mc r = row_pages mc (row_channel r) (row_rank r) (row_bank_group r) (row_bank r) (row_row r)"

lemma mask_row_list_free:
  assumes "exact_allocator fw free" "mc_wf mc"
  shows "\<exists>s'. mask_row_list fw (shim_view mc) rows s = Some s' \<and>
    free (snd (snd s')) = free (snd (snd s)) - (\<Union>r \<in> set rows. set (take ROW_ENUM_CAP (pages_of_row mc r)))"
proof (induction rows arbitrary: s)
  case Nil
  show ?case by simp
next
  case (Cons r rows)
  obtain s' where
    "mask_row_list fw (shim_view mc) rows
       (fold (reserve_page fw) (take ROW_ENUM_CAP (pages_of_row mc r)) s) = Some s'"
    "free (snd (snd s')) =
       free (snd (snd (fold (reserve_page fw) (take ROW_ENUM_CAP (pages_of_row mc r)) s))) -
       (\<Union>r \<in> set rows. set (take ROW_ENUM_CAP (pages_of_row mc r)))"
    using Cons.IH by blast
  then show ?case
    by (auto simp: shim_enumerate_view [OF assms(2)] reserve_all_free [OF assms(1)]
        simp flip: pages_of_row_def)
qed

text \<open>Row mode reserves exactly the pages enumerated for the bad rows, the first 2048 of each row,
  whatever their order and overlap, and leaves every other page.\<close>

theorem mask_rows_pages:
  assumes "exact_allocator fw free" "rows \<noteq> []"
    and "shim_cfl_init shw sst = (True, sst')" "g_mc sst' = shim_view mc" "mc_wf mc"
    and "0 < config_total_memory mc"
  shows "\<exists>c w'. mask_rows fw shw rows sst w = Some (EFI_SUCCESS, c, sst', w') \<and>
    free w' = free w - (\<Union>r \<in> set rows. set (take ROW_ENUM_CAP (row_pages mc (row_channel r)
      (row_rank r) (row_bank_group r) (row_bank r) (row_row r))))"
proof -
  obtain s' where s: "mask_row_list fw (shim_view mc) rows (0, 0, w) = Some s'"
    "free (snd (snd s')) = free w - (\<Union>r \<in> set rows. set (take ROW_ENUM_CAP (pages_of_row mc r)))"
    using mask_row_list_free [OF assms(1,5), of rows "(0, 0, w)"] by auto
  obtain x y w' where "s' = (x, y, w')" by (cases s')
  with s show ?thesis
    using assms(2-6) by (simp add: mask_rows_def shim_total_view pages_of_row_def)
qed

definition row_zero :: badmem_row where
  "row_zero = \<lparr>row_channel = 0, row_rank = 0, row_bank_group = 0, row_bank = 0, row_row = 64\<rparr>"

theorem mask_rows_pages_witness:
  "\<exists>c w'. mask_rows bench a1990_shim [row_zero] ready_shim three_pages =
      Some (EFI_SUCCESS, c, ready_shim, w') \<and>
    set (m_free w') = set (m_free three_pages) - set (take ROW_ENUM_CAP (row_pages a1990_mc 0 0 0 0 64))"
proof -
  have "g_mc ready_shim = shim_view a1990_mc" by (simp add: ready_shim_def)
  from mask_rows_pages [OF exact_allocator_bench _ init_ready_shim this mc_wf_a1990, of "[row_zero]" three_pages]
  show ?thesis by (simp add: a1990_total row_zero_def)
qed

section \<open>Resolution of designators\<close>

lemma find_distinct_key:
  assumes "distinct (map f xs)" "x \<in> set xs" "f x = k"
  shows "List.find (\<lambda>y. f y = k) xs = Some x"
  using assms by (induction xs) auto

definition distinct_names :: "board_profile list \<Rightarrow> bool" where
  "distinct_names profiles \<longleftrightarrow> distinct (map (\<lambda>pkg. cstr (bp_designator pkg))
     (concat (map (\<lambda>prof. take (bf_package_count prof) (bf_packages prof)) profiles)))"

lemma package_resolved:
  assumes "distinct_names profiles"
    and "prof \<in> set profiles" "board_lookup (Some prof) chan rank lane = Some pkg"
  shows "resolve_chip profiles (new_chip (cstr (bp_designator pkg))) =
    (new_chip (cstr (bp_designator pkg)))\<lparr>bc_channel := chan, bc_rank := rank,
      bc_byte_lane := bp_byte_lane pkg, bc_resolved := True\<rparr>"
proof -
  have pkg: "pkg \<in> set (take (bf_package_count prof) (bf_packages prof))"
      "bp_channel pkg = chan" "bp_rank pkg = rank"
    using find_SomeD [of "package_at chan rank lane" "take (bf_package_count prof) (bf_packages prof)" pkg]
      assms(3) by (auto simp: board_lookup_def package_at_def split: if_splits)
  then have "find_package profiles (cstr (bp_designator pkg)) = Some pkg"
    using find_distinct_key [OF assms(1) [unfolded distinct_names_def], of pkg "cstr (bp_designator pkg)"] assms(2)
    by (auto simp: find_package_def desig_eq_cstr cstr_idem)
  then show ?thesis using pkg(2,3) by (simp add: resolve_chip_def new_chip_def)
qed

text \<open>The chip the tester names is the chip the shim masks: where the designators of the board table
  are distinct, the package that \<open>board_lookup\<close> finds for a channel, rank and lane is the one its
  designator resolves to, with the same channel and rank.\<close>

theorem named_chip_resolved:
  assumes "distinct (map (\<lambda>pkg. cstr (bp_designator pkg))
      (concat (map (\<lambda>prof. take (bf_package_count prof) (bf_packages prof)) profiles)))"
    and "prof \<in> set profiles" "board_lookup (Some prof) chan rank lane = Some pkg"
  shows "resolve_chip profiles (new_chip (cstr (bp_designator pkg))) =
    (new_chip (cstr (bp_designator pkg)))\<lparr>bc_channel := chan, bc_rank := rank,
      bc_byte_lane := bp_byte_lane pkg, bc_resolved := True\<rparr>"
  using assms by (intro package_resolved) (simp_all add: distinct_names_def)

definition two_chip_board :: board_profile where
  "two_chip_board = \<lparr>bf_board_id = str ''820-01814'', bf_friendly_name = str ''MacBook Pro'',
     bf_products = [Some (str ''MacBookPro15,1'' @ [0])], bf_num_products = 1,
     bf_package_count = 2, bf_chip_width = 16, bf_channels = 2, bf_ranks_per_channel = 1,
     bf_packages =
       [\<lparr>bp_designator_ptr = 1, bp_designator = str ''U2300'' @ [0], bp_channel = 0, bp_rank = 0,
         bp_byte_lane = 0, bp_chip_width = 16, bp_location_hint = []\<rparr>,
        \<lparr>bp_designator_ptr = 2, bp_designator = str ''U2600'' @ [0], bp_channel = 1, bp_rank = 0,
         bp_byte_lane = 0, bp_chip_width = 16, bp_location_hint = []\<rparr>]\<rparr>"

theorem named_chip_resolved_witness:
  "resolve_chip [two_chip_board] (new_chip (str ''U2600'')) =
    (new_chip (str ''U2600''))\<lparr>bc_channel := 1, bc_rank := 0, bc_byte_lane := 0, bc_resolved := True\<rparr>"
  using named_chip_resolved [of "[two_chip_board]" two_chip_board 1 0 0 "bf_packages two_chip_board ! 1"]
  by (simp add: two_chip_board_def board_lookup_def package_at_def cstr_simps)

end
