(* ===== verification/Mask_Ops.thy ===== *)
theory Mask_Ops
  imports Efi_Firmware
begin

text \<open>
  \<^verbatim>\<open>efi/mask-common/mask_ops.c\<close>: device paths, file copying, the backup of the boot entries, the
  search for the internal EFI system partition, the registration of the boot entry, and the two
  operations \<open>install_mask_full\<close> and \<open>uninstall_mask_full\<close> that the installer, the revert program
  and the shim share. A function that may not return (a device path whose nodes have length 0, a
  variable enumeration that does not end) returns an option, with \<open>None\<close> for not returning.
\<close>

section \<open>Device paths\<close>

text \<open>
  The walk over the nodes of a device path. A node of length 0 that is not the end node makes it
  run forever, and a path without an end node makes it read past the path: both are \<open>None\<close>.
\<close>

definition dp_node_len :: "u8 list \<Rightarrow> nat" where
  "dp_node_len p = unat (ucast (p ! 2) OR push_bit 8 (ucast (p ! 3)) :: u16)"

definition dp_is_end :: "u8 list \<Rightarrow> bool" where
  "dp_is_end p \<longleftrightarrow> p ! 0 = 0x7f \<and> p ! 1 = 0xff"

partial_function (option) dp_walk :: "u8 list \<Rightarrow> nat \<Rightarrow> nat option" where
  "dp_walk p tot =
     (if length p < 4 then None
      else
        let node_len = dp_node_len p;
            tot = tot + node_len
        in if dp_is_end p then Some tot else dp_walk (drop node_len p) tot)"

definition dp_total_len_ops :: "u8 list \<Rightarrow> nat option" where
  "dp_total_len_ops dp = dp_walk dp 0"

definition dp_prefix :: "u8 list option \<Rightarrow> u8 list option" where
  "dp_prefix hw_dp =
     (case hw_dp of
        None \<Rightarrow> Some []
      | Some hw_dp \<Rightarrow>
          map_option (\<lambda>tot. take (if tot \<ge> 4 then tot - 4 else 0) hw_dp) (dp_total_len_ops hw_dp))"

text \<open>The file path node of a path, and the end node.\<close>

definition utf16_bytes :: "u16 list \<Rightarrow> u8 list" where
  "utf16_bytes s = concat (map (to_le 2) s)"

definition file_path_node :: "u16 list \<Rightarrow> u8 list" where
  "file_path_node path =
     (let fp_sz = 4 + (length path + 1) * 2
      in [0x04, 0x04, of_nat (fp_sz mod 256), of_nat (fp_sz div 256)] @ utf16_bytes (path @ [0]))"

definition end_node :: "u8 list" where
  "end_node = [0x7f, 0xff, 4, 0]"

definition build_full_device_path_ops ::
  "'w firmware \<Rightarrow> handle \<Rightarrow> u16 list \<Rightarrow> 'w \<Rightarrow> (status \<times> u8 list \<times> 'w) option" where
  "build_full_device_path_ops fw device path w =
     (let (s, hw_dp) = DevicePath fw device w;
          hw_dp = (if s \<noteq> EFI_SUCCESS then None else hw_dp)
      in Option.bind (dp_prefix hw_dp) (\<lambda>prefix.
           let total_sz = length prefix + (4 + (length path + 1) * 2) + 4;
               (s, w) = AllocatePool fw total_sz w
           in Some (if s \<noteq> EFI_SUCCESS then (s, [], w)
                    else (EFI_SUCCESS, prefix @ file_path_node path @ end_node, w))))"

section \<open>Files\<close>

text \<open>Path components, joined by backslashes.\<close>

abbreviation BSL :: u16 where "BSL \<equiv> 0x5C"

fun efi_path :: "string list \<Rightarrow> u16 list" where
  "efi_path [] = []"
| "efi_path [c] = str c"
| "efi_path (c # cs) = str c @ BSL # efi_path cs"

definition INTERNAL_MASK_DIR :: "u16 list" where "INTERNAL_MASK_DIR = efi_path [''EFI'', ''BRR'']"
definition INTERNAL_SHIM_PATH :: "u16 list" where
  "INTERNAL_SHIM_PATH = efi_path [''EFI'', ''BRR'', ''mask-shim.efi'']"
definition INTERNAL_BADMEM :: "u16 list" where
  "INTERNAL_BADMEM = efi_path [''EFI'', ''BRR'', ''badmem.txt'']"
definition INTERNAL_BACKUP_DIR :: "u16 list" where
  "INTERNAL_BACKUP_DIR = efi_path [''EFI'', ''BRR'', ''backup'']"
definition INTERNAL_SHIM_BACKUP :: "u16 list" where
  "INTERNAL_SHIM_BACKUP = efi_path [''EFI'', ''BRR'', ''backup'', ''mask-shim.efi'']"
definition INTERNAL_BADMEM_BKUP :: "u16 list" where
  "INTERNAL_BADMEM_BKUP = efi_path [''EFI'', ''BRR'', ''backup'', ''badmem.txt'']"
definition USB_SHIM_PATH :: "u16 list" where "USB_SHIM_PATH = efi_path [''EFI'', ''BOOT'', ''mask-shim.efi'']"
definition USB_BADMEM :: "u16 list" where "USB_BADMEM = efi_path [''EFI'', ''BOOT'', ''badmem.txt'']"
definition BOOT_SHIM_PATH :: "u16 list" where
  "BOOT_SHIM_PATH = BSL # efi_path [''EFI'', ''BRR'', ''mask-shim.efi'']"
definition COPY_MAX_BYTES :: nat where "COPY_MAX_BYTES = 4 * 1024 * 1024"

definition RWC :: u64 where
  "RWC = EFI_FILE_MODE_READ OR EFI_FILE_MODE_WRITE OR EFI_FILE_MODE_CREATE"

definition copy_file_ops ::
  "'w firmware \<Rightarrow> handle \<Rightarrow> u16 list \<Rightarrow> handle \<Rightarrow> u16 list \<Rightarrow> 'w \<Rightarrow> status \<times> 'w" where
  "copy_file_ops fw src_root src_name dst_root dst_name w =
     (let (s, w) = FileOpen fw src_root src_name EFI_FILE_MODE_READ 0 w in
      if s \<noteq> EFI_SUCCESS then (s, w)
      else
        let (s, file_sz) = FileSize fw src_root src_name w in
        if s \<noteq> EFI_SUCCESS then (s, w)
        else if file_sz > COPY_MAX_BYTES then (EFI_VOLUME_FULL, w)
        else if file_sz = 0 then FileOpen fw dst_root dst_name RWC 0 w
        else
          let (s, w) = AllocatePool fw file_sz w in
          if s \<noteq> EFI_SUCCESS then (s, w)
          else
            let (s, file_buf) = FileRead fw src_root src_name file_sz w in
            if s \<noteq> EFI_SUCCESS then (s, FreePool fw w)
            else
              let (s, w) = FileOpen fw dst_root dst_name RWC 0 w in
              if s \<noteq> EFI_SUCCESS then (s, FreePool fw w)
              else
                let (s, w) = FileWrite fw dst_root dst_name file_buf w
                in (s, FreePool fw w))"

definition mkdir_p_ops :: "'w firmware \<Rightarrow> handle \<Rightarrow> u16 list \<Rightarrow> 'w \<Rightarrow> 'w" where
  "mkdir_p_ops fw root path w = snd (FileOpen fw root path RWC 0x10 w)"

definition delete_file_ops :: "'w firmware \<Rightarrow> handle \<Rightarrow> u16 list \<Rightarrow> 'w \<Rightarrow> 'w" where
  "delete_file_ops fw root path w =
     (let (s, w) = FileOpen fw root path (EFI_FILE_MODE_READ OR EFI_FILE_MODE_WRITE) 0 w
      in if s = EFI_SUCCESS then FileDelete fw root path w else w)"

text \<open>Deletes a file and returns whether it was there, as a number.\<close>

definition delete_file_log :: "'w firmware \<Rightarrow> handle \<Rightarrow> u16 list \<Rightarrow> 'w \<Rightarrow> nat \<times> 'w" where
  "delete_file_log fw root path w =
     (let (s, w) = FileOpen fw root path (EFI_FILE_MODE_READ OR EFI_FILE_MODE_WRITE) 0 w
      in if s \<noteq> EFI_SUCCESS then (0, w) else (1, FileDelete fw root path w))"

section \<open>Existing boot entries\<close>

definition is_hex16 :: "u16 \<Rightarrow> bool" where
  "is_hex16 c \<longleftrightarrow> c \<ge> ch CHR ''0'' \<and> c \<le> ch CHR ''9'' \<or> c \<ge> ch CHR ''A'' \<and> c \<le> ch CHR ''F'' \<or>
     c \<ge> ch CHR ''a'' \<and> c \<le> ch CHR ''f''"

definition is_boot_name :: "u16 list \<Rightarrow> bool" where
  "is_boot_name nm \<longleftrightarrow>
     take 4 nm = str ''Boot'' \<and> length nm = 8 \<and> list_all is_hex16 (drop 4 nm)"

definition upper_hex :: "u16 \<Rightarrow> u8" where
  "upper_hex c =
     ucast (if c \<ge> ch CHR ''a'' \<and> c \<le> ch CHR ''f''
            then c - (ch CHR ''a'' - ch CHR ''A'') else c)"

definition CSV_MAX :: nat where "CSV_MAX = 512"

definition zero_guid :: efi_guid where
  "zero_guid = \<lparr>guid_data1 = 0, guid_data2 = 0, guid_data3 = 0, guid_data4 = replicate 8 0\<rparr>"

definition append_entry :: "u16 list \<Rightarrow> u8 list \<times> nat \<Rightarrow> u8 list \<times> nat" where
  "append_entry nm = (\<lambda>(csv, count).
     if length csv + 6 < CSV_MAX
     then (csv @ (if count > 0 then [ch CHR '','']  else []) @ map upper_hex (drop 4 nm), count + 1)
     else (csv, count))"

partial_function (option) boot_entries_loop ::
  "'w firmware \<Rightarrow> 'w \<Rightarrow> u16 list \<Rightarrow> efi_guid \<Rightarrow> u8 list \<times> nat \<Rightarrow> (u8 list \<times> nat) option" where
  "boot_entries_loop fw w nm g acc =
     (let (s, nm, g) = GetNextVariableName fw nm g w in
      if s \<noteq> EFI_SUCCESS then Some acc
      else if guid_bytes g \<noteq> guid_bytes EFI_GLOBAL_GUID then boot_entries_loop fw w nm g acc
      else if \<not> is_boot_name nm then boot_entries_loop fw w nm g acc
      else boot_entries_loop fw w nm g (append_entry nm acc))"

definition save_existing_boot_entries :: "'w firmware \<Rightarrow> 'w \<Rightarrow> 'w option" where
  "save_existing_boot_entries fw w =
     map_option (\<lambda>(csv, count).
         if count > 0 then snd (SetVariable fw BRR_VARNAME_BOOTENTRIES BRR_GUID NV_BS_RT csv w) else w)
       (boot_entries_loop fw w [] zero_guid ([], 0))"

section \<open>Volumes\<close>

definition USB_MARKER_A :: "u16 list" where "USB_MARKER_A = BSL # efi_path [''EFI'', ''BOOT'', ''mask-shim.efi'']"
definition USB_MARKER_B :: "u16 list" where "USB_MARKER_B = BSL # efi_path [''EFI'', ''BOOT'', ''brr-entry.efi'']"

text \<open>The handles of all file systems: the size, a buffer, the handles.\<close>

definition locate_sfs :: "'w firmware \<Rightarrow> 'w \<Rightarrow> (status \<times> handle list) \<times> 'w" where
  "locate_sfs fw w =
     (let (s, buf_sz) = LocateSfsSize fw w in
      if s \<noteq> EFI_BUFFER_TOO_SMALL \<and> s \<noteq> EFI_SUCCESS then ((s, []), w)
      else
        let (s, w) = AllocatePool fw buf_sz w in
        if s \<noteq> EFI_SUCCESS then ((s, []), w)
        else
          let (s, handles) = LocateSfs fw buf_sz w in
          if s \<noteq> EFI_SUCCESS then ((s, []), FreePool fw w) else ((EFI_SUCCESS, handles), w))"

fun find_marked :: "'w firmware \<Rightarrow> handle list \<Rightarrow> 'w \<Rightarrow> handle option \<times> 'w" where
  "find_marked fw [] w = (None, w)"
| "find_marked fw (h # hs) w =
     (if HandleSfs fw h w \<noteq> EFI_SUCCESS then find_marked fw hs w
      else if OpenVolume fw h w \<noteq> EFI_SUCCESS then find_marked fw hs w
      else
        let (s1, w) = FileOpen fw h USB_MARKER_A EFI_FILE_MODE_READ 0 w;
            (s2, w) = (if s1 = EFI_SUCCESS then (EFI_SUCCESS, w)
                       else FileOpen fw h USB_MARKER_B EFI_FILE_MODE_READ 0 w)
        in if s1 = EFI_SUCCESS \<or> s2 = EFI_SUCCESS then (Some h, w) else find_marked fw hs w)"

definition open_usb_root_ops :: "'w firmware \<Rightarrow> handle \<Rightarrow> 'w \<Rightarrow> (status \<times> handle) \<times> 'w" where
  "open_usb_root_ops fw img w =
     (let (s, dev) = ImageDevice fw img w in
      if s \<noteq> EFI_SUCCESS then ((s, 0), w)
      else if HandleSfs fw dev w = EFI_SUCCESS \<and> OpenVolume fw dev w = EFI_SUCCESS
      then ((EFI_SUCCESS, dev), w)
      else
        let ((s, handles), w) = locate_sfs fw w in
        if s \<noteq> EFI_SUCCESS then ((s, 0), w)
        else
          let (found, w) = find_marked fw handles w;
              w = FreePool fw w
          in (case found of None \<Rightarrow> (EFI_NOT_FOUND, 0) | Some h \<Rightarrow> (EFI_SUCCESS, h), w))"

definition ESP_DIR :: "u16 list" where "ESP_DIR = str ''EFI''"

text \<open>The volumes that are not the USB device, not removable, and have an \<open>EFI\<close> directory.\<close>

fun esp_candidates :: "'w firmware \<Rightarrow> handle \<Rightarrow> handle list \<Rightarrow> handle list \<Rightarrow> 'w \<Rightarrow> handle list \<times> 'w" where
  "esp_candidates fw usb_dev [] cand w = (cand, w)"
| "esp_candidates fw usb_dev (h # hs) cand w =
     (if h = usb_dev then esp_candidates fw usb_dev hs cand w
      else
        let (s2, removable) = IsRemovable fw h w in
        if s2 = EFI_SUCCESS \<and> removable then esp_candidates fw usb_dev hs cand w
        else if HandleSfs fw h w \<noteq> EFI_SUCCESS then esp_candidates fw usb_dev hs cand w
        else if OpenVolume fw h w \<noteq> EFI_SUCCESS then esp_candidates fw usb_dev hs cand w
        else
          let (s2, w) = FileOpen fw h ESP_DIR EFI_FILE_MODE_READ 0 w
          in esp_candidates fw usb_dev hs
               (if s2 = EFI_SUCCESS \<and> length cand < 8 then cand @ [h] else cand) w)"

definition open_internal_esp_ops :: "'w firmware \<Rightarrow> handle \<Rightarrow> 'w \<Rightarrow> (status \<times> handle) \<times> 'w" where
  "open_internal_esp_ops fw usb_dev w =
     (let ((s, handles), w) = locate_sfs fw w in
      if s \<noteq> EFI_SUCCESS then ((s, 0), w)
      else
        let (cand, w) = esp_candidates fw usb_dev handles [] w;
            w = FreePool fw w
        in if cand = [] then ((EFI_NOT_FOUND, 0), w)
           else if length cand > 1 then ((EFI_ABORTED, 0), w)
           else ((EFI_SUCCESS, hd cand), w))"

section \<open>The boot entry and the boot order\<close>

definition BOOT_ORDER :: "u16 list" where "BOOT_ORDER = str ''BootOrder''"

definition BOOT_DESC :: "u16 list" where "BOOT_DESC = str ''BizarreRamRepair bad-RAM mask''"

definition boot_varname :: "u16 \<Rightarrow> u16 list" where
  "boot_varname slot = str ''Boot'' @ take 4 (efi_fmt_hex (ucast slot) 4)"

text \<open>The first slot from 0x0100 to 0x01FE whose variable does not exist.\<close>

definition find_boot_slot :: "'w firmware \<Rightarrow> 'w \<Rightarrow> u16 option" where
  "find_boot_slot fw w =
     List.find (\<lambda>slot. fst (nvram_get_raw fw (boot_varname slot) EFI_GLOBAL_GUID 0 w) = EFI_NOT_FOUND)
       (map of_nat [0x100..<0x1FF])"

definition load_option :: "u8 list \<Rightarrow> u8 list" where
  "load_option full_dp =
     to_le 4 (1 :: u32) @ to_le 2 (of_nat (length full_dp) :: u16) @ utf16_bytes (BOOT_DESC @ [0]) @ full_dp"

definition LOAD_OPT_MAX :: nat where "LOAD_OPT_MAX = 4096"

text \<open>The fallback device path, without the hardware prefix, when the full one cannot be built.\<close>

definition boot_device_path ::
  "'w firmware \<Rightarrow> handle \<Rightarrow> u16 list \<Rightarrow> 'w \<Rightarrow> (status \<times> u8 list \<times> 'w) option" where
  "boot_device_path fw esp_dev shim_path w =
     Option.bind (build_full_device_path_ops fw esp_dev shim_path w) (\<lambda>(sdp, full_dp, w).
       if sdp = EFI_SUCCESS then Some (sdp, full_dp, w)
       else
         let dp_bytes = 4 + (length shim_path + 1) * 2 + 4;
             (sdp, w) = AllocatePool fw dp_bytes w
         in Some (if sdp \<noteq> EFI_SUCCESS then (sdp, [], w)
                  else (EFI_SUCCESS, file_path_node shim_path @ end_node, w)))"

definition install_boot_entry_ops ::
  "'w firmware \<Rightarrow> handle \<Rightarrow> u16 list \<Rightarrow> 'w \<Rightarrow> (status \<times> u16 \<times> 'w) option" where
  "install_boot_entry_ops fw esp_dev shim_path w =
     Option.bind (boot_device_path fw esp_dev shim_path w) (\<lambda>(sdp, full_dp, w).
       if sdp \<noteq> EFI_SUCCESS then Some (sdp, 0, w)
       else
         let load_opt = load_option full_dp in
         if length load_opt > LOAD_OPT_MAX then Some (EFI_BUFFER_TOO_SMALL, 0, FreePool fw w)
         else
           let w = FreePool fw w in
           Some (case find_boot_slot fw w of
               None \<Rightarrow> (EFI_OUT_OF_RESOURCES, 0, w)
             | Some slot \<Rightarrow>
                 let (s, w) = nvram_set_raw fw (boot_varname slot) EFI_GLOBAL_GUID load_opt w
                 in if s \<noteq> EFI_SUCCESS then (s, 0, w) else (EFI_SUCCESS, slot, w)))"

definition prepend_boot_order_ops :: "'w firmware \<Rightarrow> u16 \<Rightarrow> 'w \<Rightarrow> status \<times> 'w" where
  "prepend_boot_order_ops fw slot w =
     (let (s, current) = nvram_get_raw fw BOOT_ORDER EFI_GLOBAL_GUID 512 w;
          n = (if s = EFI_SUCCESS then length current div 2 else 0)
      in nvram_set_raw fw BOOT_ORDER EFI_GLOBAL_GUID (to_le 2 slot @ take (n * 2) current) w)"

section \<open>Installation\<close>

definition backup_shim_files :: "'w firmware \<Rightarrow> handle \<Rightarrow> 'w \<Rightarrow> 'w" where
  "backup_shim_files fw esp_root w =
     (let (sc, w) = FileOpen fw esp_root INTERNAL_SHIM_PATH EFI_FILE_MODE_READ 0 w in
      if sc = EFI_SUCCESS then
        let w = mkdir_p_ops fw esp_root INTERNAL_MASK_DIR w;
            w = mkdir_p_ops fw esp_root INTERNAL_BACKUP_DIR w;
            w = snd (copy_file_ops fw esp_root INTERNAL_SHIM_PATH esp_root INTERNAL_SHIM_BACKUP w)
        in snd (copy_file_ops fw esp_root INTERNAL_BADMEM esp_root INTERNAL_BADMEM_BKUP w)
      else w)"

definition backup_boot_order :: "'w firmware \<Rightarrow> 'w \<Rightarrow> 'w" where
  "backup_boot_order fw w =
     (let (so, cur_order) = nvram_get_raw fw BOOT_ORDER EFI_GLOBAL_GUID 512 w in
      if so = EFI_SUCCESS \<and> cur_order \<noteq> []
      then snd (nvram_set_raw fw BRR_VARNAME_ORIGBOOT BRR_GUID cur_order w)
      else w)"

type_synonym err_msg = "string option"

definition register_shim ::
  "'w firmware \<Rightarrow> handle \<Rightarrow> 'w \<Rightarrow> (status \<times> err_msg \<times> 'w) option" where
  "register_shim fw esp w =
     Option.bind (install_boot_entry_ops fw esp BOOT_SHIM_PATH w) (\<lambda>(s, slot, w).
       if s \<noteq> EFI_SUCCESS then
         let w = delete_file_ops fw esp INTERNAL_SHIM_PATH w;
             w = delete_file_ops fw esp INTERNAL_BADMEM w;
             w = mask_nvram_delete fw BRR_VARNAME_ORIGBOOT w;
             w = mask_nvram_delete fw BRR_VARNAME_BOOTENTRIES w
         in Some (s, Some ''could not create BootNNNN variable'', w)
       else
         let w = snd (nvram_set_raw fw BRR_VARNAME_BOOTSLOT BRR_GUID (to_le 2 slot) w);
             (s, w) = prepend_boot_order_ops fw slot w
         in
           if s \<noteq> EFI_SUCCESS then
             let w = nvram_del_global fw (boot_varname slot) w;
                 w = mask_nvram_delete fw BRR_VARNAME_BOOTSLOT w;
                 w = mask_nvram_delete fw BRR_VARNAME_ORIGBOOT w;
                 w = mask_nvram_delete fw BRR_VARNAME_BOOTENTRIES w;
                 w = delete_file_ops fw esp INTERNAL_SHIM_PATH w;
                 w = delete_file_ops fw esp INTERNAL_BADMEM w
             in Some (s, Some ''BootOrder update failed'', w)
           else
             let w = snd (mask_nvram_set_ascii fw BRR_VARNAME_STATE BRR_STATE_PERMANENT_UNCONFIRMED w)
             in Some (EFI_SUCCESS, None, w))"

text \<open>The device the program was loaded from; \<open>NULL\<close> when the protocol gives none.\<close>

definition loaded_device :: "'w firmware \<Rightarrow> handle \<Rightarrow> 'w \<Rightarrow> handle" where
  "loaded_device fw image_handle w =
     (let (s, dev) = ImageDevice fw image_handle w in if s = EFI_SUCCESS then dev else 0)"

definition install_mask_full ::
  "'w firmware \<Rightarrow> handle \<Rightarrow> 'w \<Rightarrow> (status \<times> err_msg \<times> 'w) option" where
  "install_mask_full fw image_handle w =
     (let ((s, usb_root), w) = open_usb_root_ops fw image_handle w in
      if s \<noteq> EFI_SUCCESS then Some (s, Some ''cannot open USB volume'', w)
      else
        let ((s, esp), w) = open_internal_esp_ops fw (loaded_device fw image_handle w) w in
        if s \<noteq> EFI_SUCCESS then Some (s, Some ''cannot find unique internal ESP'', w)
        else
          Option.bind (save_existing_boot_entries fw w) (\<lambda>w.
            let w = backup_shim_files fw esp w;
                w = backup_boot_order fw w;
                w = mkdir_p_ops fw esp ESP_DIR w;
                w = mkdir_p_ops fw esp INTERNAL_MASK_DIR w;
                (s, w) = copy_file_ops fw usb_root USB_SHIM_PATH esp INTERNAL_SHIM_PATH w
            in
              if s \<noteq> EFI_SUCCESS then
                let w = delete_file_ops fw esp INTERNAL_SHIM_PATH w;
                    w = mask_nvram_delete fw BRR_VARNAME_ORIGBOOT w;
                    w = mask_nvram_delete fw BRR_VARNAME_BOOTENTRIES w
                in Some (s, Some ''failed to copy mask-shim.efi'', w)
              else
                let (s, w) = copy_file_ops fw usb_root USB_BADMEM esp INTERNAL_BADMEM w
                in register_shim fw esp w))"

section \<open>Removal\<close>

record revert_summary =
  rs_order_restored :: bool
  rs_entry_deleted :: bool
  rs_files_deleted :: nat
  rs_nvram_deleted :: nat

definition restore_boot_order :: "'w firmware \<Rightarrow> 'w \<Rightarrow> bool \<times> 'w" where
  "restore_boot_order fw w =
     (let (s, orig_order) = nvram_get_raw fw BRR_VARNAME_ORIGBOOT BRR_GUID 512 w;
          (s, orig_order) = (if s \<noteq> EFI_SUCCESS \<or> orig_order = []
            then nvram_get_raw fw BRR_VARNAME_ORIGBOOT_LEGACY BRR_GUID 512 w else (s, orig_order))
      in if s = EFI_SUCCESS \<and> orig_order \<noteq> [] then
           let (sw, w) = nvram_set_raw fw BOOT_ORDER EFI_GLOBAL_GUID orig_order w
           in (sw = EFI_SUCCESS, w)
         else (False, w))"

definition delete_boot_entry :: "'w firmware \<Rightarrow> 'w \<Rightarrow> bool \<times> 'w" where
  "delete_boot_entry fw w =
     (let (s, slot) = nvram_get_raw fw BRR_VARNAME_BOOTSLOT BRR_GUID 2 w in
      if s = EFI_SUCCESS
      then (True, snd (SetVariable fw (boot_varname (of_le slot)) EFI_GLOBAL_GUID NV_BS_RT [] w))
      else (False, w))"

definition delete_shim_files :: "'w firmware \<Rightarrow> handle \<Rightarrow> 'w \<Rightarrow> nat \<times> 'w" where
  "delete_shim_files fw esp w =
     fold (\<lambda>path (n, w). let (k, w) = delete_file_log fw esp path w in (n + k, w))
       [INTERNAL_SHIM_BACKUP, INTERNAL_BADMEM_BKUP, INTERNAL_BACKUP_DIR, INTERNAL_SHIM_PATH,
        INTERNAL_BADMEM, INTERNAL_MASK_DIR] (0, w)"

definition known_vars :: "u16 list list" where
  "known_vars = [BRR_VARNAME_STATE, BRR_VARNAME_BADPAGES, BRR_VARNAME_BADCHIPS, BRR_VARNAME_ORIGBOOT,
     BRR_VARNAME_ORIGBOOT_LEGACY, BRR_VARNAME_BOOTENTRIES, BRR_VARNAME_BOOTSLOT, str ''BrrMaskProbe'',
     str ''BrrBadRows'', str ''BrrDecoderStatus'', str ''A1990BadRows'']"

definition delete_known :: "'w firmware \<Rightarrow> 'w \<Rightarrow> nat \<times> 'w" where
  "delete_known fw w =
     fold (\<lambda>nm (n, w). let (sd, w) = SetVariable fw nm BRR_GUID NV_BS_RT [] w
                       in (if sd = EFI_SUCCESS then n + 1 else n, w))
       known_vars (0, w)"

text \<open>The sweep over all variables; a deletion restarts it.\<close>

partial_function (option) sweep_vars ::
  "'w firmware \<Rightarrow> u16 list \<Rightarrow> efi_guid \<Rightarrow> nat \<Rightarrow> 'w \<Rightarrow> (nat \<times> 'w) option" where
  "sweep_vars fw nm g n w =
     (let (s, nm, g) = GetNextVariableName fw nm g w in
      if s \<noteq> EFI_SUCCESS then Some (n, w)
      else if guid_bytes g \<noteq> guid_bytes BRR_GUID then sweep_vars fw nm g n w
      else
        let (sd, w) = SetVariable fw nm g NV_BS_RT [] w in
        if sd = EFI_SUCCESS then sweep_vars fw [] zero_guid (n + 1) w
        else sweep_vars fw nm g n w)"

definition uninstall_mask_full ::
  "'w firmware \<Rightarrow> handle \<Rightarrow> 'w \<Rightarrow> (status \<times> revert_summary \<times> 'w) option" where
  "uninstall_mask_full fw image_handle w =
     (let (restored, w) = restore_boot_order fw w;
          (entry, w) = delete_boot_entry fw w;
          ((s, esp), w) = open_internal_esp_ops fw (loaded_device fw image_handle w) w;
          (files, w) = (if s \<noteq> EFI_SUCCESS then (0, w) else delete_shim_files fw esp w);
          (n, w) = delete_known fw w
      in map_option (\<lambda>(n, w). (EFI_SUCCESS, \<lparr>rs_order_restored = restored, rs_entry_deleted = entry,
             rs_files_deleted = files, rs_nvram_deleted = n\<rparr>, w))
           (sweep_vars fw [] zero_guid n w))"

section \<open>What leaves the variables alone\<close>

named_theorems var_frame

lemma frame_basic:
  assumes "frame_law fw vars"
  shows "vars (snd (AllocatePool fw n w)) = vars w" "vars (FreePool fw w) = vars w"
    "vars (snd (FileOpen fw v p m a w)) = vars w" "vars (snd (FileWrite fw v p d w)) = vars w"
    "vars (FileDelete fw v p w) = vars w" "vars (snd (ReadKeyStroke fw w)) = vars w"
    "vars (Stall fw us w) = vars w" "vars (snd (AllocatePage fw pa w)) = vars w"
  using assms by (simp_all add: frame_law_def search_frame_def)

lemma vars_mkdir [var_frame]: "frame_law fw vars \<Longrightarrow> vars (mkdir_p_ops fw v p w) = vars w"
  by (simp add: mkdir_p_ops_def frame_basic)

lemma vars_copy_file [var_frame]:
  "frame_law fw vars \<Longrightarrow> vars (snd (copy_file_ops fw v p v' p' w)) = vars w"
  by (simp add: copy_file_ops_def split_def Let_def frame_basic)

lemma vars_delete_file [var_frame]: "frame_law fw vars \<Longrightarrow> vars (delete_file_ops fw v p w) = vars w"
  by (simp add: delete_file_ops_def split_def Let_def frame_basic)

lemma vars_delete_file_log [var_frame]:
  "frame_law fw vars \<Longrightarrow> vars (snd (delete_file_log fw v p w)) = vars w"
  by (simp add: delete_file_log_def split_def Let_def frame_basic)

lemma vars_delete_shim_files [var_frame]:
  "frame_law fw vars \<Longrightarrow> vars (snd (delete_shim_files fw v w)) = vars w"
  by (simp add: delete_shim_files_def split_def Let_def vars_delete_file_log)

lemma vars_locate_sfs [var_frame]: "frame_law fw vars \<Longrightarrow> vars (snd (locate_sfs fw w)) = vars w"
  by (simp add: locate_sfs_def split_def Let_def frame_basic)

lemma vars_find_marked [var_frame]: "frame_law fw vars \<Longrightarrow> vars (snd (find_marked fw hs w)) = vars w"
  by (induction hs arbitrary: w) (simp_all add: split_def Let_def frame_basic)

lemma vars_open_usb_root [var_frame]:
  "frame_law fw vars \<Longrightarrow> vars (snd (open_usb_root_ops fw img w)) = vars w"
  by (simp add: open_usb_root_ops_def split_def Let_def vars_locate_sfs vars_find_marked frame_basic)

lemma vars_esp_candidates [var_frame]:
  "frame_law fw vars \<Longrightarrow> vars (snd (esp_candidates fw usb hs cand w)) = vars w"
  by (induction hs arbitrary: cand w) (simp_all add: split_def Let_def frame_basic)

lemma vars_open_internal_esp [var_frame]:
  "frame_law fw vars \<Longrightarrow> vars (snd (open_internal_esp_ops fw usb w)) = vars w"
  by (simp add: open_internal_esp_ops_def split_def Let_def vars_locate_sfs vars_esp_candidates
      frame_basic)

lemma vars_backup_shim_files [var_frame]:
  "frame_law fw vars \<Longrightarrow> vars (backup_shim_files fw esp w) = vars w"
  by (simp add: backup_shim_files_def split_def Let_def vars_copy_file vars_mkdir frame_basic)

section \<open>The enumeration of variables\<close>

lemma of_le_to_le16 [simp]: "of_le (to_le 2 w) = (w :: u16)"
  by (simp add: of_le_to_le_take take_bit_word_eq_self)

lemma to_le_inj:
  fixes a b :: u32 and c d :: u16
  shows "to_le 4 a = to_le 4 b \<longleftrightarrow> a = b" "to_le 2 c = to_le 2 d \<longleftrightarrow> c = d"
  by (metis of_le_to_le32, metis of_le_to_le16)

lemma guid_bytes_inj: "guid_bytes g = guid_bytes h \<longleftrightarrow> g = h"
proof
  assume "guid_bytes g = guid_bytes h"
  then show "g = h"
    by (simp add: guid_bytes_def to_le_inj efi_guid.equality)
qed simp

text \<open>The walk over the listed variables, from the one at index \<open>i\<close> on.\<close>

lemma boot_entries_loop_returns:
  assumes "enum_law fw vars"
  shows "\<exists>acc'. boot_entries_loop fw w [] zero_guid acc = Some acc'"
proof -
  obtain ns where ns: "\<forall>g. listed ns 0 (GetNextVariableName fw [] g w)"
    "\<forall>i < length ns. listed ns (Suc i) (GetNextVariableName fw (snd (ns ! i)) (fst (ns ! i)) w)"
    using assms [unfolded enum_law_def] by blast
  have "\<exists>acc'. boot_entries_loop fw w nm g acc = Some acc'"
    if "listed ns i (GetNextVariableName fw nm g w)" for i nm g acc
    using that
  proof (induction "length ns - i" arbitrary: i nm g acc)
    case 0
    obtain nm' g' where "GetNextVariableName fw nm g w = (EFI_NOT_FOUND, nm', g')"
      using 0 by (cases "GetNextVariableName fw nm g w") (auto simp: listed_def)
    then show ?case by (subst boot_entries_loop.simps) simp
  next
    case (Suc k)
    then have i: "i < length ns" "k = length ns - Suc i" by simp_all
    note nxt = Suc.hyps(1) [OF i(2) ns(2) [rule_format, OF i(1)]]
    have "GetNextVariableName fw nm g w = (EFI_SUCCESS, snd (ns ! i), fst (ns ! i))"
      using Suc.prems i(1) by (simp add: listed_def)
    then show ?case
      using nxt by (subst boot_entries_loop.simps) (simp del: split_paired_Ex)
  qed
  with ns(1) show ?thesis by blast
qed

lemma sweep_vars_returns:
  assumes laws: "set_law fw vars" "deletes_succeed fw" "enum_law fw vars"
  shows "\<exists>n' w'. sweep_vars fw [] zero_guid n w = Some (n', w') \<and>
    vars w' = (\<lambda>k. if fst k = BRR_GUID then None else vars w k)"
proof (induction "card {k \<in> dom (vars w). fst k = BRR_GUID}" arbitrary: n w rule: less_induct)
  case less
  obtain ns where ns: "set ns = dom (vars w)" "[] \<notin> snd ` set ns"
    "\<forall>g. listed ns 0 (GetNextVariableName fw [] g w)"
    "\<forall>i < length ns. listed ns (Suc i) (GetNextVariableName fw (snd (ns ! i)) (fst (ns ! i)) w)"
    using laws(3) [unfolded enum_law_def] by blast
  have fin: "finite {k \<in> dom (vars w). fst k = BRR_GUID}" by (simp flip: ns(1))
  let ?goal = "\<lambda>nm g. \<exists>n' w'. sweep_vars fw nm g n w = Some (n', w') \<and>
    vars w' = (\<lambda>k. if fst k = BRR_GUID then None else vars w k)"
  have "?goal nm g"
    if "listed ns i (GetNextVariableName fw nm g w)" "\<forall>j < i. j < length ns \<longrightarrow> fst (ns ! j) \<noteq> BRR_GUID" for i nm g
    using that
  proof (induction "length ns - i" arbitrary: i nm g)
    case 0
    then have le: "length ns \<le> i" by simp
    have "\<forall>k \<in> dom (vars w). fst k \<noteq> BRR_GUID"
      unfolding ns(1) [symmetric]
    proof
      fix k assume "k \<in> set ns"
      then obtain j where "j < length ns" "ns ! j = k" by (auto simp: in_set_conv_nth)
      with 0(3) le show "fst k \<noteq> BRR_GUID" by auto
    qed
    then have "vars w = (\<lambda>k. if fst k = BRR_GUID then None else vars w k)"
      by (intro ext) (force simp: dom_def)
    moreover obtain nm' g' where "GetNextVariableName fw nm g w = (EFI_NOT_FOUND, nm', g')"
      using 0(2) le by (cases "GetNextVariableName fw nm g w") (auto simp: listed_def)
    then have "sweep_vars fw nm g n w = Some (n, w)" by (subst sweep_vars.simps) simp
    ultimately show ?case by metis
  next
    case (Suc m)
    then have i: "i < length ns" "m = length ns - Suc i" by simp_all
    obtain g' nm' where k: "ns ! i = (g', nm')" by (cases "ns ! i")
    have nx: "GetNextVariableName fw nm g w = (EFI_SUCCESS, nm', g')"
      using Suc.prems i(1) k by (simp add: listed_def)
    have mem: "(g', nm') \<in> dom (vars w)" "nm' \<noteq> []"
      using i(1) k nth_mem [of i ns] ns(1,2) by force+
    show ?case
    proof (cases "g' = BRR_GUID")
      case False
      have "\<forall>j < Suc i. j < length ns \<longrightarrow> fst (ns ! j) \<noteq> BRR_GUID"
        using Suc.prems(2) False k by (auto simp: less_Suc_eq)
      then have "?goal nm' g'"
        using Suc.hyps(1) [OF i(2)] ns(4) [rule_format, OF i(1)] k by simp
      then show ?thesis using False nx
        by (subst sweep_vars.simps) (simp add: guid_bytes_inj)
    next
      case True
      obtain sd w1 where set: "SetVariable fw nm' g' NV_BS_RT [] w = (sd, w1)"
        by (cases "SetVariable fw nm' g' NV_BS_RT [] w")
      have sd: "sd = EFI_SUCCESS" using laws(2) mem(2) set by (metis deletes_succeed_def fst_conv)
      have v1: "vars w1 = (vars w)((g', nm') := None)"
        using laws(1) [unfolded set_law_def, rule_format, of nm' g' NV_BS_RT "[]" w] set sd by simp
      have "dom (vars w1) = dom (vars w) - {(g', nm')}" by (simp add: v1)
      then have "{k \<in> dom (vars w1). fst k = BRR_GUID} \<subset> {k \<in> dom (vars w). fst k = BRR_GUID}"
        using mem(1) True by (intro psubsetI) (simp add: subset_iff, metis (mono_tags, lifting)
          DiffE fst_conv mem_Collect_eq singletonI)
      from less.hyps [OF psubset_card_mono [OF fin this], of "n + 1"]
      obtain n' w' where rest: "sweep_vars fw [] zero_guid (n + 1) w1 = Some (n', w')"
        "vars w' = (\<lambda>k. if fst k = BRR_GUID then None else vars w1 k)" by blast
      have "sweep_vars fw nm g n w = Some (n', w')"
        unfolding sweep_vars.simps [of fw nm g n w] nx Let_def prod.case True set [unfolded True] sd
          using rest(1) by simp
      moreover have "vars w' = (\<lambda>k. if fst k = BRR_GUID then None else vars w k)"
        unfolding rest(2) v1 True by (rule ext) simp
      ultimately show ?thesis by blast
    qed
  qed
  then show ?case using ns(3) by blast
qed

section \<open>What the operations do to the variables\<close>

lemma set_effect:
  assumes "set_law fw vars" "SetVariable fw nm g a d w = (s, w')"
  shows "vars w' = (if s = EFI_SUCCESS then (vars w)((g, nm) := (if d = [] then None else Some d)) else vars w)"
  using assms(1) [unfolded set_law_def, rule_format, of nm g a d w] assms(2) by simp

lemma delete_effect:
  assumes "set_law fw vars" "deletes_succeed fw" "nm \<noteq> []"
  shows "vars (snd (SetVariable fw nm g a [] w)) = (vars w)((g, nm) := None)"
  using assms by (simp add: set_law_def deletes_succeed_def)

text \<open>Two contents of NVRAM that agree outside a set of variables.\<close>

definition agree_off :: "(efi_guid \<times> u16 list) set \<Rightarrow> nvram \<Rightarrow> nvram \<Rightarrow> bool" where
  "agree_off K V V' \<longleftrightarrow> (\<forall>k. k \<notin> K \<longrightarrow> V' k = V k)"

lemma agree_off_refl: "agree_off K V V"
  by (simp add: agree_off_def)

lemma agree_off_trans: "agree_off K V V' \<Longrightarrow> agree_off K V' V'' \<Longrightarrow> agree_off K V V''"
  by (simp add: agree_off_def)

lemma agree_off_upd: "k \<in> K \<Longrightarrow> agree_off K V (V(k := x))"
  by (auto simp: agree_off_def)

lemma agree_off_set:
  assumes "set_law fw vars" "(g, nm) \<in> K"
  shows "agree_off K (vars w) (vars (snd (SetVariable fw nm g a d w)))"
  using assms by (simp add: set_law_def agree_off_upd agree_off_refl)

lemma brr_names_nonempty [simp]:
  "BRR_VARNAME_STATE \<noteq> []" "BRR_VARNAME_BADPAGES \<noteq> []" "BRR_VARNAME_BADCHIPS \<noteq> []"
  "BRR_VARNAME_ORIGBOOT \<noteq> []" "BRR_VARNAME_ORIGBOOT_LEGACY \<noteq> []" "BRR_VARNAME_BOOTSLOT \<noteq> []"
  "BRR_VARNAME_BOOTENTRIES \<noteq> []" "BOOT_ORDER \<noteq> []" "boot_varname s \<noteq> []"
  by (simp_all add: brr_names BOOT_ORDER_def boot_varname_def)

lemma brr_names_distinct [simp]:
  "BRR_VARNAME_ORIGBOOT \<noteq> BRR_VARNAME_BOOTENTRIES" "BRR_VARNAME_BOOTENTRIES \<noteq> BRR_VARNAME_ORIGBOOT"
  "BRR_VARNAME_ORIGBOOT \<noteq> BRR_VARNAME_BOOTSLOT" "BRR_VARNAME_BOOTSLOT \<noteq> BRR_VARNAME_ORIGBOOT"
  "BRR_VARNAME_BOOTSLOT \<noteq> BRR_VARNAME_BOOTENTRIES" "BRR_VARNAME_BOOTENTRIES \<noteq> BRR_VARNAME_BOOTSLOT"
  "BRR_VARNAME_STATE \<noteq> BRR_VARNAME_ORIGBOOT" "BRR_VARNAME_ORIGBOOT \<noteq> BRR_VARNAME_STATE"
  "BRR_VARNAME_STATE \<noteq> BRR_VARNAME_BOOTSLOT" "BRR_VARNAME_BOOTSLOT \<noteq> BRR_VARNAME_STATE"
  by (simp_all add: brr_names)

lemma guids_distinct [simp]: "EFI_GLOBAL_GUID \<noteq> BRR_GUID" "BRR_GUID \<noteq> EFI_GLOBAL_GUID"
  by (simp_all add: EFI_GLOBAL_GUID_def BRR_GUID_def)

lemma boot_varname_order [simp]: "boot_varname s \<noteq> BOOT_ORDER" "BOOT_ORDER \<noteq> boot_varname s"
proof -
  have "length (boot_varname s) \<le> 8" by (simp add: boot_varname_def)
  moreover have "length BOOT_ORDER = 9" by (simp add: BOOT_ORDER_def)
  ultimately show "boot_varname s \<noteq> BOOT_ORDER" "BOOT_ORDER \<noteq> boot_varname s" by auto
qed

lemma save_entries_effect:
  assumes "set_law fw vars" "enum_law fw vars"
  shows "\<exists>w'. save_existing_boot_entries fw w = Some w' \<and>
    agree_off {(BRR_GUID, BRR_VARNAME_BOOTENTRIES)} (vars w) (vars w')"
proof -
  obtain csv count where "boot_entries_loop fw w [] zero_guid ([], 0) = Some (csv, count)"
    using boot_entries_loop_returns [OF assms(2), of w "([], 0)"] by auto
  then show ?thesis
    using agree_off_set [OF assms(1), of BRR_GUID BRR_VARNAME_BOOTENTRIES
        "{(BRR_GUID, BRR_VARNAME_BOOTENTRIES)}" w NV_BS_RT csv]
    by (simp add: save_existing_boot_entries_def agree_off_refl)
qed

lemma backup_order_effect:
  assumes "set_law fw vars"
  shows "agree_off {(BRR_GUID, BRR_VARNAME_ORIGBOOT)} (vars w) (vars (backup_boot_order fw w))"
  by (simp add: backup_boot_order_def split_def Let_def nvram_set_raw_def agree_off_refl
      agree_off_set [OF assms])

lemma backup_order_saved:
  assumes "get_law fw vars" "set_law fw vars" "writes_succeed fw"
    and "vars w (EFI_GLOBAL_GUID, BOOT_ORDER) = Some order" "order \<noteq> []" "length order \<le> 512"
  shows "vars (backup_boot_order fw w) = (vars w)((BRR_GUID, BRR_VARNAME_ORIGBOOT) \<mapsto> order)"
  using assms(4-6)
  by (simp add: backup_boot_order_def nvram_get_raw_def nvram_set_raw_def get_variable_law [OF assms(1)]
      set_variable_law [OF assms(2,3)])

lemma find_slot_absent:
  assumes "get_law fw vars" "find_boot_slot fw w = Some slot"
  shows "vars w (EFI_GLOBAL_GUID, boot_varname slot) = None"
proof -
  have "fst (nvram_get_raw fw (boot_varname slot) EFI_GLOBAL_GUID 0 w) = EFI_NOT_FOUND"
    using find_SomeD [OF assms(2) [unfolded find_boot_slot_def]] by simp
  then show ?thesis
    by (auto simp: nvram_get_raw_def get_variable_law [OF assms(1)] split: option.splits if_splits)
qed

lemma vars_boot_device_path:
  "frame_law fw vars \<Longrightarrow> boot_device_path fw dev p w = Some (s, dp, w') \<Longrightarrow> vars w' = vars w"
  by (auto simp: boot_device_path_def build_full_device_path_ops_def split_def Let_def frame_basic
      bind_eq_Some_conv split: if_splits)

text \<open>A boot entry that was created is a variable that was absent; otherwise nothing changed.\<close>

lemma boot_entry_effect:
  assumes "variable_store fw vars" "install_boot_entry_ops fw dev p w = Some (s, slot, w')"
  shows "if s = EFI_SUCCESS
    then vars w (EFI_GLOBAL_GUID, boot_varname slot) = None \<and>
      agree_off {(EFI_GLOBAL_GUID, boot_varname slot)} (vars w) (vars w')
    else vars w' = vars w"
proof -
  have laws: "get_law fw vars" "set_law fw vars" "frame_law fw vars"
    using assms(1) by (simp_all add: variable_store_def)
  obtain sdp dp w1 where dp: "boot_device_path fw dev p w = Some (sdp, dp, w1)"
    using assms(2) by (auto simp: install_boot_entry_ops_def bind_eq_Some_conv)
  have v1: "vars w1 = vars w" by (rule vars_boot_device_path [OF laws(3) dp])
  have v2: "vars (FreePool fw w1) = vars w" by (simp add: frame_basic [OF laws(3)] v1)
  consider (dp_error) "s \<noteq> EFI_SUCCESS" "w' = w1" | (long) "s \<noteq> EFI_SUCCESS" "w' = FreePool fw w1"
    | (slot) sl lo s' w2 where "find_boot_slot fw (FreePool fw w1) = Some sl"
      "SetVariable fw (boot_varname sl) EFI_GLOBAL_GUID NV_BS_RT lo (FreePool fw w1) = (s', w2)"
      "w' = w2" "s = s'" "s' = EFI_SUCCESS \<longrightarrow> slot = sl"
    using assms(2) by (auto simp: install_boot_entry_ops_def dp Let_def nvram_set_raw_def
        split: if_splits option.splits prod.splits)
  then show ?thesis
  proof cases
    case dp_error
    then show ?thesis using v1 by simp
  next
    case long
    then show ?thesis using v2 by simp
  next
    case slot
    have "vars w (EFI_GLOBAL_GUID, boot_varname sl) = None"
      using find_slot_absent [OF laws(1) slot(1)] v2 by simp
    moreover have "vars w' = (if s' = EFI_SUCCESS
        then (vars w)((EFI_GLOBAL_GUID, boot_varname sl) := (if lo = [] then None else Some lo)) else vars w)"
      using set_effect [OF laws(2) slot(2)] v2 slot(3) by simp
    ultimately show ?thesis using slot(4,5) by (simp add: agree_off_upd)
  qed
qed

section \<open>A failed installation leaves the variables as they were\<close>

lemma register_error:
  assumes "variable_store fw vars" "deletes_succeed fw"
    and "agree_off {(BRR_GUID, BRR_VARNAME_BOOTENTRIES), (BRR_GUID, BRR_VARNAME_ORIGBOOT)} V (vars w)"
    and "V (BRR_GUID, BRR_VARNAME_ORIGBOOT) = None" "V (BRR_GUID, BRR_VARNAME_BOOTENTRIES) = None"
      "V (BRR_GUID, BRR_VARNAME_BOOTSLOT) = None"
    and "register_shim fw esp w = Some (s, e, w')" "s \<noteq> EFI_SUCCESS"
  shows "vars w' = V"
proof -
  have laws: "get_law fw vars" "set_law fw vars" "frame_law fw vars"
    using assms(1) by (simp_all add: variable_store_def)
  note del = delete_effect [OF laws(2) assms(2)]
  obtain s1 slot w1 where ent: "install_boot_entry_ops fw esp BOOT_SHIM_PATH w = Some (s1, slot, w1)"
    using assms(7) by (auto simp: register_shim_def bind_eq_Some_conv)
  note eff = boot_entry_effect [OF assms(1) ent]
  show ?thesis
  proof (cases "s1 = EFI_SUCCESS")
    case False
    then have "vars w' = (vars w)((BRR_GUID, BRR_VARNAME_ORIGBOOT) := None,
        (BRR_GUID, BRR_VARNAME_BOOTENTRIES) := None)"
      using assms(7) eff by (auto simp: register_shim_def ent mask_nvram_delete_def del
          vars_delete_file [OF laws(3)] Let_def)
    then show ?thesis using assms(3-5) by (auto simp: agree_off_def fun_eq_iff)
  next
    case True
    define w2 where "w2 = snd (nvram_set_raw fw BRR_VARNAME_BOOTSLOT BRR_GUID (to_le 2 slot) w1)"
    obtain s3 w3 where pre: "prepend_boot_order_ops fw slot w2 = (s3, w3)" by (cases "prepend_boot_order_ops fw slot w2")
    have s3: "s3 \<noteq> EFI_SUCCESS" and w': "vars w' = (vars w3)((EFI_GLOBAL_GUID, boot_varname slot) := None,
        (BRR_GUID, BRR_VARNAME_BOOTSLOT) := None, (BRR_GUID, BRR_VARNAME_ORIGBOOT) := None,
        (BRR_GUID, BRR_VARNAME_BOOTENTRIES) := None)"
      using assms(7,8) True by (auto simp: register_shim_def ent mask_nvram_delete_def nvram_del_global_def del
          vars_delete_file [OF laws(3)] Let_def pre simp flip: w2_def split: if_splits)
    have "vars w3 = vars w2"
      using pre s3 set_effect [OF laws(2)]
      by (auto simp: prepend_boot_order_ops_def nvram_set_raw_def Let_def split: prod.splits)
    moreover have "agree_off {(BRR_GUID, BRR_VARNAME_BOOTSLOT)} (vars w1) (vars w2)"
      by (simp add: w2_def nvram_set_raw_def agree_off_set [OF laws(2)])
    ultimately show ?thesis
      using w' eff True assms(3-6) by (auto simp: agree_off_def fun_eq_iff)
  qed
qed

text \<open>The stages at which an installation may end.\<close>

lemma install_stages:
  assumes laws: "set_law fw vars" "frame_law fw vars" "enum_law fw vars"
    and del: "\<forall>nm w. nm \<noteq> [] \<longrightarrow> vars (mask_nvram_delete fw nm w) = (vars w)((BRR_GUID, nm) := None)"
    and run: "install_mask_full fw img w = Some (s, e, w')"
  obtains (early) "s \<noteq> EFI_SUCCESS" "vars w' = vars w"
  | (copy) w3 where "s \<noteq> EFI_SUCCESS" "agree_off {(BRR_GUID, BRR_VARNAME_BOOTENTRIES)} (vars w) (vars w3)"
      "vars w' = (vars (backup_boot_order fw w3))((BRR_GUID, BRR_VARNAME_ORIGBOOT) := None,
         (BRR_GUID, BRR_VARNAME_BOOTENTRIES) := None)"
  | (register) esp w3 w6 where "agree_off {(BRR_GUID, BRR_VARNAME_BOOTENTRIES)} (vars w) (vars w3)"
      "vars w6 = vars (backup_boot_order fw w3)" "register_shim fw esp w6 = Some (s, e, w')"
proof -
  obtain s1 usb w1 where usb: "open_usb_root_ops fw img w = ((s1, usb), w1)" by (metis surj_pair)
  have v1: "vars w1 = vars w" using vars_open_usb_root [OF laws(2), of img w] usb by simp
  obtain s2 esp w2 where esp: "open_internal_esp_ops fw (loaded_device fw img w1) w1 = ((s2, esp), w2)"
    by (metis surj_pair)
  have v2: "vars w2 = vars w"
    using vars_open_internal_esp [OF laws(2), of "loaded_device fw img w1" w1] esp v1 by simp
  show thesis
  proof (cases "s1 = EFI_SUCCESS \<and> s2 = EFI_SUCCESS")
    case False
    then have "s \<noteq> EFI_SUCCESS \<and> vars w' = vars w"
      using run v1 v2 by (auto simp: install_mask_full_def usb esp split: if_splits)
    then show thesis using early by blast
  next
    case True
    obtain w2' where sv: "save_existing_boot_entries fw w2 = Some w2'"
      "agree_off {(BRR_GUID, BRR_VARNAME_BOOTENTRIES)} (vars w2) (vars w2')"
      using save_entries_effect [OF laws(1,3)] by blast
    define w3 where "w3 = backup_shim_files fw esp w2'"
    have off: "agree_off {(BRR_GUID, BRR_VARNAME_BOOTENTRIES)} (vars w) (vars w3)"
      using sv(2) by (simp add: w3_def vars_backup_shim_files [OF laws(2)] v2)
    define w4 where "w4 = mkdir_p_ops fw esp INTERNAL_MASK_DIR (mkdir_p_ops fw esp ESP_DIR
      (backup_boot_order fw w3))"
    obtain s5 w5 where cp: "copy_file_ops fw usb USB_SHIM_PATH esp INTERNAL_SHIM_PATH w4 = (s5, w5)"
      by (metis surj_pair)
    have v5: "vars w5 = vars (backup_boot_order fw w3)"
      using vars_copy_file [OF laws(2), of usb USB_SHIM_PATH esp INTERNAL_SHIM_PATH w4] cp
      by (simp add: w4_def vars_mkdir [OF laws(2)])
    define w6 where "w6 = snd (copy_file_ops fw usb USB_BADMEM esp INTERNAL_BADMEM w5)"
    have run': "install_mask_full fw img w =
       (if s5 \<noteq> EFI_SUCCESS
        then Some (s5, Some ''failed to copy mask-shim.efi'', mask_nvram_delete fw BRR_VARNAME_BOOTENTRIES
          (mask_nvram_delete fw BRR_VARNAME_ORIGBOOT (delete_file_ops fw esp INTERNAL_SHIM_PATH w5)))
        else register_shim fw esp w6)"
      unfolding install_mask_full_def usb Let_def prod.case
      by (simp only: True simp_thms if_False prod.case esp sv(1) bind.bind_lunit flip: w3_def w4_def)
        (simp only: cp prod.case split_def w6_def fst_conv snd_conv)
    show thesis
    proof (cases "s5 = EFI_SUCCESS")
      case False
      then have "s \<noteq> EFI_SUCCESS" "vars w' = (vars (backup_boot_order fw w3))
          ((BRR_GUID, BRR_VARNAME_ORIGBOOT) := None, (BRR_GUID, BRR_VARNAME_BOOTENTRIES) := None)"
        using run run' by (auto simp: del vars_delete_file [OF laws(2)] v5)
      then show thesis using copy off by blast
    next
      case s5: True
      have "vars w6 = vars (backup_boot_order fw w3)" by (simp add: w6_def vars_copy_file [OF laws(2)] v5)
      moreover have "register_shim fw esp w6 = Some (s, e, w')" using run run' s5 by simp
      ultimately show thesis using register off by blast
    qed
  qed
qed

lemma install_rolled_back:
  assumes "variable_store fw vars" "deletes_succeed fw" "enum_law fw vars"
    and "vars w (BRR_GUID, BRR_VARNAME_ORIGBOOT) = None" "vars w (BRR_GUID, BRR_VARNAME_BOOTENTRIES) = None"
      "vars w (BRR_GUID, BRR_VARNAME_BOOTSLOT) = None"
    and "install_mask_full fw img w = Some (s, e, w')" "s \<noteq> EFI_SUCCESS"
  shows "vars w' = vars w"
proof -
  have laws: "set_law fw vars" "frame_law fw vars" using assms(1) by (simp_all add: variable_store_def)
  have del: "\<forall>nm w. nm \<noteq> [] \<longrightarrow> vars (mask_nvram_delete fw nm w) = (vars w)((BRR_GUID, nm) := None)"
    by (simp add: mask_nvram_delete_def delete_effect [OF laws(1) assms(2)])
  from laws assms(3) del assms(7) show ?thesis
  proof (cases rule: install_stages)
    case early
    then show ?thesis by simp
  next
    case (copy w3)
    have "vars w' k = vars w k" for k
      unfolding copy(3) using copy(2) backup_order_effect [OF laws(1), of w3] assms(4,5)
      by (cases k) (auto simp: agree_off_def)
    then show ?thesis by blast
  next
    case (register esp w3 w6)
    have "agree_off {(BRR_GUID, BRR_VARNAME_BOOTENTRIES), (BRR_GUID, BRR_VARNAME_ORIGBOOT)} (vars w) (vars w6)"
      using register(1) backup_order_effect [OF laws(1), of w3] by (simp add: agree_off_def register(2))
    from register_error [OF assms(1,2) this assms(4-6) register(3) assms(8)] show ?thesis .
  qed
qed


section \<open>Removal undoes installation\<close>

lemma delete_known_effect:
  assumes "set_law fw vars" "deletes_succeed fw"
  shows "\<exists>n' w'. delete_known fw w = (n', w') \<and>
    (\<forall>k. vars w' k = (if fst k = BRR_GUID \<and> snd k \<in> set known_vars then None else vars w k))"
proof -
  have "\<exists>n' w'. fold (\<lambda>nm (n, w). let (sd, w) = SetVariable fw nm BRR_GUID NV_BS_RT [] w
        in (if sd = EFI_SUCCESS then n + 1 else n, w)) nms (n, w) = (n', w') \<and>
      (\<forall>k. vars w' k = (if fst k = BRR_GUID \<and> snd k \<in> set nms then None else vars w k))"
    if "[] \<notin> set nms" for nms n w
    using that
  proof (induction nms arbitrary: n w)
    case (Cons nm nms)
    obtain s w1 where set: "SetVariable fw nm BRR_GUID NV_BS_RT [] w = (s, w1)" by (metis surj_pair)
    have v1: "vars w1 = (vars w)((BRR_GUID, nm) := None)"
      using delete_effect [OF assms, of nm BRR_GUID NV_BS_RT w] Cons.prems set by auto
    obtain n' w' where "fold (\<lambda>nm (n, w). let (sd, w) = SetVariable fw nm BRR_GUID NV_BS_RT [] w
        in (if sd = EFI_SUCCESS then n + 1 else n, w)) nms (if s = EFI_SUCCESS then n + 1 else n, w1) = (n', w')"
      "\<forall>k. vars w' k = (if fst k = BRR_GUID \<and> snd k \<in> set nms then None else vars w1 k)"
      using Cons.IH [of "if s = EFI_SUCCESS then n + 1 else n" w1] Cons.prems by auto
    then show ?case using set v1 by (auto simp: fun_eq_iff)
  qed simp
  moreover have "[] \<notin> set known_vars" by (simp add: known_vars_def brr_names)
  ultimately show ?thesis unfolding delete_known_def by blast
qed

text \<open>What removal leaves, after its first step: no entry in the saved slot, no variable of ours.\<close>

lemma uninstall_after_restore:
  assumes "variable_store fw vars" "deletes_succeed fw" "enum_law fw vars"
    and r1: "restore_boot_order fw w = (b1, w1)"
    and slot: "vars w1 (BRR_GUID, BRR_VARNAME_BOOTSLOT) = Some (to_le 2 slot)"
  shows "\<exists>r w'. uninstall_mask_full fw img w = Some (EFI_SUCCESS, r, w') \<and>
    vars w' = (\<lambda>k. if fst k = BRR_GUID \<or> k = (EFI_GLOBAL_GUID, boot_varname slot) then None else vars w1 k)"
proof -
  have laws: "get_law fw vars" "set_law fw vars" "frame_law fw vars"
    using assms(1) by (simp_all add: variable_store_def)
  obtain b2 w2 where r2: "delete_boot_entry fw w1 = (b2, w2)" by (metis surj_pair)
  from slot have v2: "vars w2 = (vars w1)((EFI_GLOBAL_GUID, boot_varname slot) := None)"
    using r2 delete_effect [OF laws(2) assms(2), of "boot_varname slot" EFI_GLOBAL_GUID NV_BS_RT w1]
    by (auto simp: delete_boot_entry_def nvram_get_raw_def get_variable_law [OF laws(1)])
  obtain s3 esp w3 where r3: "open_internal_esp_ops fw (loaded_device fw img w2) w2 = ((s3, esp), w3)"
    by (metis surj_pair)
  have v3: "vars w3 = vars w2"
    using vars_open_internal_esp [OF laws(3), of "loaded_device fw img w2" w2] r3 by simp
  obtain n4 w4 where r4: "(if s3 \<noteq> EFI_SUCCESS then (0, w3) else delete_shim_files fw esp w3) = (n4, w4)"
    by (metis surj_pair)
  have v4: "vars w4 = vars w2"
    using vars_delete_shim_files [OF laws(3), of esp w3] r4 v3 by (auto split: if_splits)
  obtain n5 w5 where r5: "delete_known fw w4 = (n5, w5)"
    and v5: "\<forall>k. vars w5 k = (if fst k = BRR_GUID \<and> snd k \<in> set known_vars then None else vars w4 k)"
    using delete_known_effect [OF laws(2) assms(2)] by blast
  obtain n6 w6 where r6: "sweep_vars fw [] zero_guid n5 w5 = Some (n6, w6)"
    and v6: "vars w6 = (\<lambda>k. if fst k = BRR_GUID then None else vars w5 k)"
    using sweep_vars_returns [OF laws(2) assms(2,3)] by blast
  have "vars w6 = (\<lambda>k. if fst k = BRR_GUID \<or> k = (EFI_GLOBAL_GUID, boot_varname slot) then None
      else vars w1 k)"
    unfolding v6 using v5 v4 v2 by (auto simp: fun_eq_iff)
  then show ?thesis
    by (simp add: uninstall_mask_full_def r1 r2 r3 r4 r5 r6)
qed

lemma restore_order_effect:
  assumes "get_law fw vars" "set_law fw vars" "writes_succeed fw"
    and "vars w (BRR_GUID, BRR_VARNAME_ORIGBOOT) = Some order" "order \<noteq> []" "length order \<le> 512"
  shows "vars (snd (restore_boot_order fw w)) = (vars w)((EFI_GLOBAL_GUID, BOOT_ORDER) \<mapsto> order)"
  using assms(4-6) set_variable_law [OF assms(2,3), of BOOT_ORDER EFI_GLOBAL_GUID NV_BS_RT order w]
  by (simp add: restore_boot_order_def nvram_get_raw_def nvram_set_raw_def get_variable_law [OF assms(1)]
      split_def)

lemma restore_order_none:
  assumes "get_law fw vars" "vars w (BRR_GUID, BRR_VARNAME_ORIGBOOT) = None"
    "vars w (BRR_GUID, BRR_VARNAME_ORIGBOOT_LEGACY) = None"
  shows "restore_boot_order fw w = (False, w)"
  using assms(2,3) by (simp add: restore_boot_order_def nvram_get_raw_def get_variable_law [OF assms(1)])

text \<open>The boot order as the program reads it: nothing when it is absent or longer than 256 entries.\<close>

definition old_order :: "nvram \<Rightarrow> u8 list" where
  "old_order V =
     (case V (EFI_GLOBAL_GUID, BOOT_ORDER) of
        None \<Rightarrow> []
      | Some d \<Rightarrow> if length d \<le> 512 then take (length d div 2 * 2) d else [])"

lemma prepend_effect:
  assumes "get_law fw vars" "set_law fw vars" "writes_succeed fw"
  shows "vars (snd (prepend_boot_order_ops fw slot w)) =
    (vars w)((EFI_GLOBAL_GUID, BOOT_ORDER) \<mapsto> to_le 2 slot @ old_order (vars w))"
proof -
  have ne: "to_le 2 slot \<noteq> []" using length_to_le [of 2 slot] by (metis list.size(3) zero_neq_numeral)
  have "prepend_boot_order_ops fw slot w =
      nvram_set_raw fw BOOT_ORDER EFI_GLOBAL_GUID (to_le 2 slot @ old_order (vars w)) w"
    by (cases "vars w (EFI_GLOBAL_GUID, BOOT_ORDER)")
      (simp_all add: prepend_boot_order_ops_def nvram_get_raw_def get_variable_law [OF assms(1)]
        old_order_def Let_def)
  then show ?thesis
    by (simp add: nvram_set_raw_def set_variable_law [OF assms(2,3)] ne)
qed

lemma register_success:
  assumes "variable_store fw vars" "writes_succeed fw"
    and "register_shim fw esp w = Some (EFI_SUCCESS, e, w')"
  shows "\<exists>slot. vars w (EFI_GLOBAL_GUID, boot_varname slot) = None \<and>
    vars w' (BRR_GUID, BRR_VARNAME_BOOTSLOT) = Some (to_le 2 slot) \<and>
    vars w' (EFI_GLOBAL_GUID, BOOT_ORDER) = Some (to_le 2 slot @ old_order (vars w)) \<and>
    agree_off {(EFI_GLOBAL_GUID, boot_varname slot), (BRR_GUID, BRR_VARNAME_BOOTSLOT),
      (EFI_GLOBAL_GUID, BOOT_ORDER), (BRR_GUID, BRR_VARNAME_STATE)} (vars w) (vars w')"
proof -
  have laws: "get_law fw vars" "set_law fw vars" "frame_law fw vars"
    using assms(1) by (simp_all add: variable_store_def)
  note upd = set_variable_law [OF laws(2) assms(2)]
  obtain s1 slot w1 where ent: "install_boot_entry_ops fw esp BOOT_SHIM_PATH w = Some (s1, slot, w1)"
    using assms(3) by (auto simp: register_shim_def bind_eq_Some_conv)
  have s1: "s1 = EFI_SUCCESS" using assms(3) by (auto simp: register_shim_def ent Let_def split: if_splits)
  note eff = boot_entry_effect [OF assms(1) ent]
  define w2 where "w2 = snd (nvram_set_raw fw BRR_VARNAME_BOOTSLOT BRR_GUID (to_le 2 slot) w1)"
  obtain s3 w3 where pre: "prepend_boot_order_ops fw slot w2 = (s3, w3)" by (metis surj_pair)
  have ne: "to_le 2 slot \<noteq> []" using length_to_le [of 2 slot] by (metis list.size(3) zero_neq_numeral)
  have v2: "vars w2 = (vars w1)((BRR_GUID, BRR_VARNAME_BOOTSLOT) \<mapsto> to_le 2 slot)"
    by (simp add: w2_def nvram_set_raw_def upd ne)
  have "old_order (vars w2) = old_order (vars w)"
    using eff s1 by (simp add: v2 old_order_def agree_off_def)
  then have v3: "vars w3 = (vars w2)((EFI_GLOBAL_GUID, BOOT_ORDER) \<mapsto> to_le 2 slot @ old_order (vars w))"
    using prepend_effect [OF laws(1,2) assms(2), of slot w2] pre by simp
  have "w' = snd (mask_nvram_set_ascii fw BRR_VARNAME_STATE BRR_STATE_PERMANENT_UNCONFIRMED w3)"
    using assms(3) s1 pre by (auto simp: register_shim_def ent Let_def simp flip: w2_def split: if_splits)
  then have v4: "agree_off {(BRR_GUID, BRR_VARNAME_STATE)} (vars w3) (vars w')"
    by (simp add: mask_nvram_set_ascii_def agree_off_set [OF laws(2)])
  show ?thesis
    using eff s1 v2 v3 v4 by (intro exI [of _ slot]) (simp add: agree_off_def)
qed

text \<open>Installation followed by removal: the variables of the program are gone, all others as before.\<close>

lemma install_then_uninstall:
  assumes "variable_store fw vars" "writes_succeed fw" "enum_law fw vars"
    and "vars w (EFI_GLOBAL_GUID, BOOT_ORDER) = Some order" "order \<noteq> []" "length order \<le> 512"
    and "install_mask_full fw img w = Some (EFI_SUCCESS, e, w1)"
  shows "\<exists>r w2. uninstall_mask_full fw img' w1 = Some (EFI_SUCCESS, r, w2) \<and>
    vars w2 = (\<lambda>k. if fst k = BRR_GUID then None else vars w k)"
proof -
  have laws: "get_law fw vars" "set_law fw vars" "frame_law fw vars"
    using assms(1) by (simp_all add: variable_store_def)
  have del: "\<forall>nm w. nm \<noteq> [] \<longrightarrow> vars (mask_nvram_delete fw nm w) = (vars w)((BRR_GUID, nm) := None)"
    by (simp add: mask_nvram_delete_def set_variable_law [OF laws(2) assms(2)])
  from laws(2,3) assms(3) del assms(7) obtain esp w3 w6
    where off: "agree_off {(BRR_GUID, BRR_VARNAME_BOOTENTRIES)} (vars w) (vars w3)"
      and v6: "vars w6 = vars (backup_boot_order fw w3)"
      and reg: "register_shim fw esp w6 = Some (EFI_SUCCESS, e, w1)"
    by (cases rule: install_stages) auto
  have "vars w3 (EFI_GLOBAL_GUID, BOOT_ORDER) = Some order" using off assms(4) by (simp add: agree_off_def)
  from backup_order_saved [OF laws(1,2) assms(2) this assms(5,6)] v6
  have b: "vars w6 = (vars w3)((BRR_GUID, BRR_VARNAME_ORIGBOOT) \<mapsto> order)" by simp
  obtain slot where slot: "vars w6 (EFI_GLOBAL_GUID, boot_varname slot) = None"
    "vars w1 (BRR_GUID, BRR_VARNAME_BOOTSLOT) = Some (to_le 2 slot)"
    and off2: "agree_off {(EFI_GLOBAL_GUID, boot_varname slot), (BRR_GUID, BRR_VARNAME_BOOTSLOT),
      (EFI_GLOBAL_GUID, BOOT_ORDER), (BRR_GUID, BRR_VARNAME_STATE)} (vars w6) (vars w1)"
    using register_success [OF assms(1,2) reg] by blast
  have "vars w1 (BRR_GUID, BRR_VARNAME_ORIGBOOT) = Some order" using off2 b by (simp add: agree_off_def)
  note vr = restore_order_effect [OF laws(1,2) assms(2) this assms(5,6)]
  obtain b1 wr where r1: "restore_boot_order fw w1 = (b1, wr)" by (metis surj_pair)
  have dels: "deletes_succeed fw" using assms(2) by (simp add: deletes_succeed_def writes_succeed_def)
  have "vars wr (BRR_GUID, BRR_VARNAME_BOOTSLOT) = Some (to_le 2 slot)" using vr r1 slot(2) by simp
  from uninstall_after_restore [OF assms(1) dels assms(3) r1 this, of img']
  obtain r w2 where run: "uninstall_mask_full fw img' w1 = Some (EFI_SUCCESS, r, w2)"
    and v2: "vars w2 = (\<lambda>k. if fst k = BRR_GUID \<or> k = (EFI_GLOBAL_GUID, boot_varname slot) then None
      else vars wr k)" by blast
  have "vars w2 k = (if fst k = BRR_GUID then None else vars w k)" for k
    unfolding v2 using vr r1 off off2 b slot(1) assms(4)
    by (cases k) (auto simp: agree_off_def)
  then show ?thesis using run by blast
qed



text \<open>Where the firmware has no boot order the program can read, absent or longer than 256 entries, the
  installation makes its own slot the whole boot order and saves no copy, so that removal leaves
  the boot order naming the entry it has just deleted.\<close>

theorem install_without_order:
  assumes "variable_store fw vars" "writes_succeed fw" "enum_law fw vars"
    and "\<And>nm. vars w (BRR_GUID, nm) = None"
    and "list_all (\<lambda>d. 512 < length d) (case vars w (EFI_GLOBAL_GUID, BOOT_ORDER) of None \<Rightarrow> [] | Some d \<Rightarrow> [d])"
    and "install_mask_full fw img w = Some (EFI_SUCCESS, e, w1)"
  shows "\<exists>slot r w2. vars w1 (EFI_GLOBAL_GUID, BOOT_ORDER) = Some (to_le 2 slot) \<and>
    uninstall_mask_full fw img' w1 = Some (EFI_SUCCESS, r, w2) \<and>
    vars w2 (EFI_GLOBAL_GUID, BOOT_ORDER) = Some (to_le 2 slot) \<and>
    vars w2 (EFI_GLOBAL_GUID, boot_varname slot) = None"
proof -
  have laws: "get_law fw vars" "set_law fw vars" "frame_law fw vars"
    using assms(1) by (simp_all add: variable_store_def)
  have del: "\<forall>nm w. nm \<noteq> [] \<longrightarrow> vars (mask_nvram_delete fw nm w) = (vars w)((BRR_GUID, nm) := None)"
    by (simp add: mask_nvram_delete_def set_variable_law [OF laws(2) assms(2)])
  have dels: "deletes_succeed fw" using assms(2) by (simp add: deletes_succeed_def writes_succeed_def)
  from laws(2,3) assms(3) del assms(6) obtain esp w3 w6
    where off: "agree_off {(BRR_GUID, BRR_VARNAME_BOOTENTRIES)} (vars w) (vars w3)"
      and v6: "vars w6 = vars (backup_boot_order fw w3)"
      and reg: "register_shim fw esp w6 = Some (EFI_SUCCESS, e, w1)"
    by (cases rule: install_stages) auto
  have o3: "vars w3 (EFI_GLOBAL_GUID, BOOT_ORDER) = vars w (EFI_GLOBAL_GUID, BOOT_ORDER)"
    using off by (simp add: agree_off_def)
  have "backup_boot_order fw w3 = w3"
    using assms(5) o3 by (auto simp: backup_boot_order_def nvram_get_raw_def
        get_variable_law [OF laws(1)] split: option.splits)
  with v6 have v63: "vars w6 = vars w3" by simp
  then have none: "old_order (vars w6) = []"
    using assms(5) o3 by (auto simp: old_order_def split: option.splits)
  obtain slot where slot: "vars w1 (BRR_GUID, BRR_VARNAME_BOOTSLOT) = Some (to_le 2 slot)"
    "vars w1 (EFI_GLOBAL_GUID, BOOT_ORDER) = Some (to_le 2 slot)"
    and off2: "agree_off {(EFI_GLOBAL_GUID, boot_varname slot), (BRR_GUID, BRR_VARNAME_BOOTSLOT),
      (EFI_GLOBAL_GUID, BOOT_ORDER), (BRR_GUID, BRR_VARNAME_STATE)} (vars w6) (vars w1)"
    using register_success [OF assms(1,2) reg] none by auto
  have "restore_boot_order fw w1 = (False, w1)"
    using off off2 assms(4) v63 by (intro restore_order_none [OF laws(1)]) (simp_all add: agree_off_def brr_names)
  from uninstall_after_restore [OF assms(1) dels assms(3) this slot(1), of img'] slot(2)
  show ?thesis by auto
qed

section \<open>The bench installs\<close>

text \<open>A laptop with one boot entry, an internal system partition, and the USB stick, with or without the
  shim on it, and with or without a boot order.\<close>

definition BOOT0080 :: "u16 list" where "BOOT0080 = str ''Boot0080''"

definition laptop :: "bool \<Rightarrow> (nat \<times> u16 list) list \<Rightarrow> machine" where
  "laptop ordered usb = blank_machine\<lparr>
     m_nv := (if ordered then [((EFI_GLOBAL_GUID, BOOT_ORDER), [0x80, 0])] else []) @
       [((EFI_GLOBAL_GUID, BOOT0080), [1, 0, 0, 0])],
     m_files := ((2, ESP_DIR), []) # map (\<lambda>f. (f, [0x4D, 0x5A])) usb\<rparr>"

definition entries_saved :: "machine \<Rightarrow> machine" where
  "entries_saved w = w\<lparr>m_nv := m_nv w @ [((BRR_GUID, BRR_VARNAME_BOOTENTRIES), str ''0080'')]\<rparr>"

lemma paths_distinct [simp]:
  "ESP_DIR \<noteq> INTERNAL_SHIM_PATH" "ESP_DIR \<noteq> INTERNAL_MASK_DIR" "ESP_DIR \<noteq> INTERNAL_BADMEM"
  "USB_SHIM_PATH \<noteq> USB_BADMEM" "INTERNAL_SHIM_PATH \<noteq> ESP_DIR" "INTERNAL_MASK_DIR \<noteq> ESP_DIR"
  "INTERNAL_BADMEM \<noteq> ESP_DIR" "USB_BADMEM \<noteq> USB_SHIM_PATH" "INTERNAL_MASK_DIR \<noteq> INTERNAL_SHIM_PATH"
  "INTERNAL_SHIM_PATH \<noteq> INTERNAL_MASK_DIR" 
  by (simp_all add: ESP_DIR_def INTERNAL_SHIM_PATH_def INTERNAL_MASK_DIR_def INTERNAL_BADMEM_def
      USB_SHIM_PATH_def USB_BADMEM_def)

lemma laptop_sel [simp]:
  "m_nv (laptop b u) = (if b then [((EFI_GLOBAL_GUID, BOOT_ORDER), [0x80, 0])] else []) @
     [((EFI_GLOBAL_GUID, BOOT0080), [1, 0, 0, 0])]"
  "m_files (laptop b u) = ((2, ESP_DIR), []) # map (\<lambda>f. (f, [0x4D, 0x5A])) u" "m_volumes (laptop b u) = [1, 2]"
  by (simp_all add: laptop_def blank_machine_def)

lemma open_laptop:
  "open_usb_root_ops bench 7 (laptop b u) = ((EFI_SUCCESS, 1), laptop b u)"
  "open_internal_esp_ops bench (loaded_device bench 7 (laptop b u)) (laptop b u) = ((EFI_SUCCESS, 2), laptop b u)"
  by (simp_all add: open_usb_root_ops_def open_internal_esp_ops_def locate_sfs_def loaded_device_def bench_simps)

lemma boot_names [simp]: "is_boot_name BOOT0080" "\<not> is_boot_name BOOT_ORDER" "BOOT0080 \<noteq> []"
    "BOOT0080 \<noteq> BOOT_ORDER"  "BOOT_ORDER \<noteq> BOOT0080"
    "append_entry BOOT0080 ([], 0) = (str ''0080'', 1)"
  by (simp_all add: BOOT0080_def BOOT_ORDER_def is_boot_name_def is_hex16_def append_entry_def CSV_MAX_def upper_hex_def)

lemma next_laptop:
  "GetNextVariableName bench [] g (laptop b u) = (EFI_SUCCESS, if b then BOOT_ORDER else BOOT0080, EFI_GLOBAL_GUID)"
  "b \<Longrightarrow> GetNextVariableName bench BOOT_ORDER EFI_GLOBAL_GUID (laptop b u) = (EFI_SUCCESS, BOOT0080, EFI_GLOBAL_GUID)"
  "GetNextVariableName bench BOOT0080 EFI_GLOBAL_GUID (laptop b u) = (EFI_NOT_FOUND, BOOT0080, EFI_GLOBAL_GUID)"
  by (simp_all add: bench_simps next_variable_def named_def)

lemma save_laptop: "save_existing_boot_entries bench (laptop b u) = Some (entries_saved (laptop b u))"
proof -
  have "boot_entries_loop bench (laptop b u) [] zero_guid ([], 0) = Some (str ''0080'', 1)"
  proof -
    have last: "boot_entries_loop bench (laptop b u) BOOT0080 EFI_GLOBAL_GUID acc = Some acc" for acc b
      by (subst boot_entries_loop.simps) (simp add: next_laptop)
    have "boot_entries_loop bench (laptop True u) BOOT_ORDER EFI_GLOBAL_GUID ([], 0) = Some (str ''0080'', 1)"
      using last by (subst boot_entries_loop.simps) (simp add: next_laptop)
    then show ?thesis
      using last by (subst boot_entries_loop.simps) (cases b; simp add: next_laptop)
  qed
  then show ?thesis by (simp add: save_existing_boot_entries_def bench_simps entries_saved_def)
qed


definition laptop_ready :: "bool \<Rightarrow> (nat \<times> u16 list) list \<Rightarrow> machine" where
  "laptop_ready b u = (entries_saved (laptop b u))\<lparr>
     m_nv := m_nv (entries_saved (laptop b u)) @
       (if b then [((BRR_GUID, BRR_VARNAME_ORIGBOOT), [0x80, 0])] else []),
     m_files := m_files (laptop b u) @ [((2, INTERNAL_MASK_DIR), [])]\<rparr>"

lemma backup_laptop:
  assumes "(2, INTERNAL_SHIM_PATH) \<notin> set u" "(2, INTERNAL_MASK_DIR) \<notin> set u"
  shows "mkdir_p_ops bench 2 INTERNAL_MASK_DIR (mkdir_p_ops bench 2 ESP_DIR
    (backup_boot_order bench (backup_shim_files bench 2 (entries_saved (laptop b u))))) = laptop_ready b u"
proof -
  have m: "map_of (map (\<lambda>f. (f, [0x4D, 0x5A])) u) k = (if k \<in> set u then Some [0x4D, 0x5A] else None)" for k :: "nat \<times> u16 list"
    by (induction u) auto
  have upd: "k \<notin> fst ` set xs \<Longrightarrow> AList.update k v xs = xs @ [(k, v)]" for k v and xs :: "('a \<times> 'b) list"
    by (induction xs) auto
  have 1: "backup_shim_files bench 2 (entries_saved (laptop b u)) = entries_saved (laptop b u)"
    using assms by (simp add: backup_shim_files_def bench_simps entries_saved_def m EFI_FILE_MODE_READ_def EFI_FILE_MODE_CREATE_def)
  have 2: "backup_boot_order bench (entries_saved (laptop b u)) = (entries_saved (laptop b u))\<lparr>
     m_nv := m_nv (entries_saved (laptop b u)) @
       (if b then [((BRR_GUID, BRR_VARNAME_ORIGBOOT), [0x80, 0])] else [])\<rparr>"
    by (simp add: backup_boot_order_def nvram_get_raw_def nvram_set_raw_def bench_simps entries_saved_def m_vars_conv)
  show ?thesis unfolding 1 2
   using assms by (simp add: mkdir_p_ops_def bench_simps entries_saved_def laptop_ready_def RWC_def
     EFI_FILE_MODE_READ_def EFI_FILE_MODE_WRITE_def EFI_FILE_MODE_CREATE_def m upd image_image)
qed

lemma bench_device_path: "dp_walk [1, 1, 6, 0, 0, 0, 0x7f, 0xff, 4, 0] 0 = Some 10"
  by (subst dp_walk.simps, simp add: dp_is_end_def dp_node_len_def,
      subst dp_walk.simps, simp add: dp_is_end_def dp_node_len_def)

lemma bench_boot_device_path:
  "boot_device_path bench 2 p w = Some (EFI_SUCCESS, [1, 1, 6, 0, 0, 0] @ file_path_node p @ end_node, w)"
  by (simp add: boot_device_path_def build_full_device_path_ops_def bench_simps dp_prefix_def
      dp_total_len_ops_def bench_device_path)

lemma length_utf16_bytes: "length (utf16_bytes s) = 2 * length s"
  by (induction s) (simp_all add: utf16_bytes_def)

lemma bench_load_option:
  "length (load_option ([1, 1, 6, 0, 0, 0] @ file_path_node BOOT_SHIM_PATH @ end_node)) \<le> LOAD_OPT_MAX"
  by (simp add: load_option_def length_utf16_bytes file_path_node_def end_node_def BOOT_DESC_def
      BOOT_SHIM_PATH_def LOAD_OPT_MAX_def)

lemma boot_varname_0100: "boot_varname 0x100 = str ''Boot0100''"
  by (simp add: boot_varname_def efi_fmt_hex_def hex_rev.simps hex_digit_def)

lemma bench_find_slot:
  assumes "map_of (m_nv w) (EFI_GLOBAL_GUID, str ''Boot0100'') = None"
  shows "find_boot_slot bench w = Some 0x100"
proof -
  have "[0x100..<0x1FF] = 0x100 # [0x101..<0x1FF]" by (simp add: upt_conv_Cons)
  then show ?thesis using assms
    by (simp add: find_boot_slot_def nvram_get_raw_def bench_simps m_vars_conv boot_varname_0100 del: upt_rec_numeral)
qed

lemma bench_register_slot:
  assumes "find_boot_slot bench w = Some slot"
  shows "\<exists>w'. register_shim bench 2 w = Some (EFI_SUCCESS, None, w')"
proof -
  have "\<exists>w1. install_boot_entry_ops bench 2 BOOT_SHIM_PATH w = Some (EFI_SUCCESS, slot, w1)"
    using bench_load_option assms
    by (simp add: install_boot_entry_ops_def bench_boot_device_path bench_simps nvram_set_raw_def)
  moreover have "fst (prepend_boot_order_ops bench slot w) = EFI_SUCCESS" for slot w
    by (simp add: prepend_boot_order_ops_def nvram_set_raw_def nvram_get_raw_def bench_simps split_def Let_def)
  ultimately show ?thesis
    by (auto simp: register_shim_def Let_def split_def)
qed

lemma bench_register:
  assumes "map_of (m_nv w) (EFI_GLOBAL_GUID, str ''Boot0100'') = None"
  shows "\<exists>w'. register_shim bench 2 w = Some (EFI_SUCCESS, None, w')"
  by (rule bench_register_slot [OF bench_find_slot [OF assms]])

lemma bench_install:
  assumes "(2, INTERNAL_SHIM_PATH) \<notin> set u" "(2, INTERNAL_MASK_DIR) \<notin> set u"
  shows "map_option fst (install_mask_full bench 7 (laptop b u)) =
    Some (if (1, USB_SHIM_PATH) \<in> set u then EFI_SUCCESS else EFI_NOT_FOUND)"
proof -
  obtain s w where cp: "copy_file_ops bench 1 USB_SHIM_PATH 2 INTERNAL_SHIM_PATH (laptop_ready b u) = (s, w)"
    by (metis surj_pair)
  have m: "map_of (map (\<lambda>f. (f, [0x4D, 0x5A])) u @ xs) k = (if k \<in> set u then Some [0x4D, 0x5A :: u8] else map_of xs k)"
    for k :: "nat \<times> u16 list" and xs
    by (induction u) auto
  have m0: "map_of (map (\<lambda>f. (f, [0x4D, 0x5A])) u) k = (if k \<in> set u then Some [0x4D, 0x5A :: u8] else None)"
    for k :: "nat \<times> u16 list"
    by (induction u) auto
  have s: "s = (if (1, USB_SHIM_PATH) \<in> set u then EFI_SUCCESS else EFI_NOT_FOUND)"
    using cp by (auto simp: copy_file_ops_def bench_simps laptop_ready_def entries_saved_def
      m m0 EFI_FILE_MODE_READ_def EFI_FILE_MODE_CREATE_def COPY_MAX_BYTES_def RWC_def EFI_FILE_MODE_WRITE_def  split: if_splits)
  have fr: "frame_law bench m_nv" using bench_frame [of "\<lambda>x. x"] by simp
  define w6 where "w6 = snd (copy_file_ops bench 1 USB_BADMEM 2 INTERNAL_BADMEM w)"
  have nv: "m_nv w6 = m_nv (laptop_ready b u)"
    using vars_copy_file [OF fr, of 1 USB_SHIM_PATH 2 INTERNAL_SHIM_PATH "laptop_ready b u"]
    unfolding cp by (simp add: w6_def vars_copy_file [OF fr])
  have "map_of (m_nv w6) (EFI_GLOBAL_GUID, str ''Boot0100'') = None"
    unfolding nv by (simp add: laptop_ready_def entries_saved_def BOOT_ORDER_def BOOT0080_def)
  from bench_register [OF this] obtain w' where reg: "register_shim bench 2 w6 = Some (EFI_SUCCESS, None, w')" ..
  have run: "install_mask_full bench 7 (laptop b u) =
     (if s \<noteq> EFI_SUCCESS
      then Some (s, Some ''failed to copy mask-shim.efi'', mask_nvram_delete bench BRR_VARNAME_BOOTENTRIES
        (mask_nvram_delete bench BRR_VARNAME_ORIGBOOT (delete_file_ops bench 2 INTERNAL_SHIM_PATH w)))
      else register_shim bench 2 w6)"
    unfolding install_mask_full_def open_laptop Let_def prod.case
    by (simp only: simp_thms if_False prod.case save_laptop bind.bind_lunit backup_laptop [OF assms])
      (simp only: cp prod.case split_def w6_def fst_conv snd_conv)
  show ?thesis unfolding run using s reg by simp
qed


lemma laptop_vars: "m_vars (laptop b u) (BRR_GUID, nm) = None"
  "m_vars (laptop b u) (EFI_GLOBAL_GUID, BOOT_ORDER) = (if b then Some [0x80, 0] else None)"
  by (simp_all add: m_vars_conv)

lemma deletes_succeed_bench: "deletes_succeed bench"
  by (simp add: deletes_succeed_def bench_simps)




theorem install_without_order_witness:
  "\<exists>(slot :: u16) e w1 r w2. install_mask_full bench 7 (laptop False [(1, USB_SHIM_PATH)]) = Some (EFI_SUCCESS, e, w1) \<and>
    uninstall_mask_full bench 7 w1 = Some (EFI_SUCCESS, r, w2) \<and>
    m_vars w2 (EFI_GLOBAL_GUID, BOOT_ORDER) = Some (to_le 2 slot)"
proof -
  obtain e w1 where r: "install_mask_full bench 7 (laptop False [(1, USB_SHIM_PATH)]) = Some (EFI_SUCCESS, e, w1)"
    using bench_install [of "[(1, USB_SHIM_PATH)]" False] by auto
  have short: "list_all (\<lambda>d. 512 < length d)
      (case m_vars (laptop False [(1, USB_SHIM_PATH)]) (EFI_GLOBAL_GUID, BOOT_ORDER) of
         None \<Rightarrow> [] | Some d \<Rightarrow> [d])"
    by (simp add: laptop_vars)
  from install_without_order [OF variable_store_bench writes_succeed_bench enum_law_bench
      laptop_vars(1) short r, of 7]
  show ?thesis using r by blast
qed

lemma uninstall_returns:
  assumes "variable_store fw vars" "deletes_succeed fw" "enum_law fw vars"
  shows "\<exists>r w'. uninstall_mask_full fw img w = Some (EFI_SUCCESS, r, w') \<and> (\<forall>nm. vars w' (BRR_GUID, nm) = None)"
proof -
  have laws: "set_law fw vars" using assms(1) by (simp add: variable_store_def)
  obtain b1 w1 where r1: "restore_boot_order fw w = (b1, w1)" by (metis surj_pair)
  obtain b2 w2 where r2: "delete_boot_entry fw w1 = (b2, w2)" by (metis surj_pair)
  obtain s3 esp w3 where r3: "open_internal_esp_ops fw (loaded_device fw img w2) w2 = ((s3, esp), w3)"
    by (metis surj_pair)
  obtain n4 w4 where r4: "(if s3 \<noteq> EFI_SUCCESS then (0, w3) else delete_shim_files fw esp w3) = (n4, w4)"
    by (metis surj_pair)
  obtain n5 w5 where r5: "delete_known fw w4 = (n5, w5)" by (metis surj_pair)
  obtain n6 w6 where "sweep_vars fw [] zero_guid n5 w5 = Some (n6, w6)"
    "vars w6 = (\<lambda>k. if fst k = BRR_GUID then None else vars w5 k)"
    using sweep_vars_returns [OF laws assms(2,3)] by blast
  then show ?thesis
    by (simp add: uninstall_mask_full_def r1 r2 r3 r4 r5)
qed



text \<open>The bench installs on any machine that has the shim on its stick, a system partition, and a free slot.\<close>

lemma bench_usb_kept:
  fixes f :: "u16 list" and w :: machine
  defines "view \<equiv> \<lambda>w :: machine. map_of (m_files w) (1, f)"
  shows "view (snd (SetVariable bench nm g a d w)) = view w"
    "view (mkdir_p_ops bench 2 q w) = view w" "view (snd (copy_file_ops bench 2 q 2 q' w)) = view w"
    "view (snd (FileOpen bench 2 q m x w)) = view w"
proof -
  show "view (snd (SetVariable bench nm g a d w)) = view w" by (simp add: view_def bench_simps)
  have op: "view (snd (FileOpen bench 2 q m x w)) = view w" for q m x w
    by (simp add: view_def bench_simps AList.update_conv')
  have wr: "view (snd (FileWrite bench 2 q d w)) = view w" for q d w
    by (simp add: view_def bench_simps AList.update_conv')
  show "view (mkdir_p_ops bench 2 q w) = view w" "view (snd (FileOpen bench 2 q m x w)) = view w"
    by (simp_all add: mkdir_p_ops_def op)
  have "AllocatePool bench n w = (EFI_SUCCESS, w)" "FreePool bench w = w" for n w by (simp_all add: bench_simps)
  then show "view (snd (copy_file_ops bench 2 q 2 q' w)) = view w"
    by (simp add: copy_file_ops_def split_def Let_def op wr)
qed

lemma bench_installs:
  assumes "m_volumes w = [1, 2]" "map_of (m_files w) (2, ESP_DIR) = Some dir"
    and shim: "map_of (m_files w) (1, USB_SHIM_PATH) = Some [0x4D, 0x5A]"
    and free: "\<And>w'. \<forall>nm. m_vars w' (EFI_GLOBAL_GUID, nm) = m_vars w (EFI_GLOBAL_GUID, nm) \<Longrightarrow>
      find_boot_slot bench w' = Some slot"
  shows "\<exists>w'. install_mask_full bench 7 w = Some (EFI_SUCCESS, None, w')"
proof -
  have laws: "set_law bench m_vars" "frame_law bench m_vars"
    using variable_store_bench by (simp_all add: variable_store_def)
  have op: "open_usb_root_ops bench 7 w = ((EFI_SUCCESS, 1), w)"
    "open_internal_esp_ops bench (loaded_device bench 7 w) w = ((EFI_SUCCESS, 2), w)"
    using assms(1,2)
    by (simp_all add: open_usb_root_ops_def open_internal_esp_ops_def locate_sfs_def loaded_device_def bench_simps)
  obtain csv count where "boot_entries_loop bench w [] zero_guid ([], 0) = Some (csv, count)"
    using boot_entries_loop_returns [OF enum_law_bench, of w "([], 0)"] by auto
  then obtain w2 where sv: "save_existing_boot_entries bench w = Some w2"
    "w2 = w \<or> w2 = snd (SetVariable bench BRR_VARNAME_BOOTENTRIES BRR_GUID NV_BS_RT csv w)"
    by (simp add: save_existing_boot_entries_def)
  define view where "view = (\<lambda>w :: machine. map_of (m_files w) (1, USB_SHIM_PATH))"
  note kept = bench_usb_kept [where f = USB_SHIM_PATH, unfolded One_nat_def]
  define w3 where "w3 = mkdir_p_ops bench 2 INTERNAL_MASK_DIR (mkdir_p_ops bench 2 ESP_DIR
    (backup_boot_order bench (backup_shim_files bench 2 w2)))"
  have "view w2 = view w" using sv(2) by (auto simp: view_def kept)
  then have "view w3 = view w"
    by (simp add: view_def w3_def backup_boot_order_def backup_shim_files_def nvram_set_raw_def split_def Let_def kept)
  then have "map_of (m_files w3) (1, USB_SHIM_PATH) = Some [0x4D, 0x5A]" using shim by (simp add: view_def)
  then have "fst (copy_file_ops bench 1 USB_SHIM_PATH 2 INTERNAL_SHIM_PATH w3) = EFI_SUCCESS"
    by (simp add: copy_file_ops_def split_def Let_def bench_simps COPY_MAX_BYTES_def RWC_def EFI_FILE_MODE_READ_def
        EFI_FILE_MODE_WRITE_def EFI_FILE_MODE_CREATE_def)
  then obtain w4 where cp: "copy_file_ops bench 1 USB_SHIM_PATH 2 INTERNAL_SHIM_PATH w3 = (EFI_SUCCESS, w4)"
    by (metis prod.collapse)
  define w5 where "w5 = snd (copy_file_ops bench 1 USB_BADMEM 2 INTERNAL_BADMEM w4)"
  have "m_vars w5 = m_vars w3"
    using vars_copy_file [OF laws(2), of 1 USB_SHIM_PATH 2 INTERNAL_SHIM_PATH w3, unfolded cp]
    by (simp add: w5_def vars_copy_file [OF laws(2)])
  also have "m_vars w3 = m_vars (backup_boot_order bench (backup_shim_files bench 2 w2))"
    by (simp add: w3_def vars_mkdir [OF laws(2)])
  finally have v5: "m_vars w5 = \<dots>" .
  have "agree_off {(BRR_GUID, BRR_VARNAME_BOOTENTRIES)} (m_vars w) (m_vars w2)"
    using save_entries_effect [OF laws(1) enum_law_bench, of w] sv(1) by simp
  then have "\<forall>nm. m_vars w5 (EFI_GLOBAL_GUID, nm) = m_vars w (EFI_GLOBAL_GUID, nm)"
    using v5 backup_order_effect [OF laws(1), of "backup_shim_files bench 2 w2"]
      vars_backup_shim_files [OF laws(2), of 2 w2] by (simp add: agree_off_def)
  from free [OF this] obtain w' where reg: "register_shim bench 2 w5 = Some (EFI_SUCCESS, None, w')"
    using bench_register_slot by blast
  have "install_mask_full bench 7 w = register_shim bench 2 w5"
    unfolding install_mask_full_def op Let_def prod.case
    by (simp only: simp_thms if_False prod.case sv(1) bind.bind_lunit flip: w3_def)
      (simp only: cp prod.case split_def w5_def fst_conv snd_conv simp_thms if_False)
  then show ?thesis using reg by simp
qed

text \<open>A laptop on which the shim is installed already.\<close>

definition laptop_installed :: machine where
  "laptop_installed = (laptop True [(1, USB_SHIM_PATH)])\<lparr>m_nv :=
     [((EFI_GLOBAL_GUID, BOOT_ORDER), to_le 2 (0x100 :: u16) @ [0x80, 0]),
      ((EFI_GLOBAL_GUID, boot_varname 0x100), [1, 0, 0, 0]),
      ((BRR_GUID, BRR_VARNAME_ORIGBOOT), [0x80, 0]), ((BRR_GUID, BRR_VARNAME_BOOTSLOT), [0, 1])]\<rparr>"

lemma laptop_installed_vars:
  "m_vars laptop_installed (EFI_GLOBAL_GUID, BOOT_ORDER) = Some (to_le 2 (0x100 :: u16) @ [0x80, 0])"
  "m_vars laptop_installed (EFI_GLOBAL_GUID, boot_varname 0x100) = Some [1, 0, 0, 0]"
  "m_vars laptop_installed (EFI_GLOBAL_GUID, str ''Boot0101'') = None"
  by (simp_all add: m_vars_conv laptop_installed_def) (simp_all add: boot_varname_0100 BOOT_ORDER_def)

lemma boot_varname_0101: "boot_varname 0x101 = str ''Boot0101''"
  by (simp add: boot_varname_def efi_fmt_hex_def hex_rev.simps hex_digit_def)

lemma laptop_installed_slot:
  assumes "\<forall>nm. m_vars w (EFI_GLOBAL_GUID, nm) = m_vars laptop_installed (EFI_GLOBAL_GUID, nm)"
  shows "find_boot_slot bench w = Some 0x101"
proof -
  have "get_law bench m_vars" using variable_store_bench by (simp add: variable_store_def)
  note get = get_variable_law [OF this]
  have "[0x100..<0x1FF] = 0x100 # 0x101 # [0x102..<0x1FF]" by (simp add: upt_conv_Cons)
  then show ?thesis
    using assms laptop_installed_vars(2,3)
    by (simp add: find_boot_slot_def nvram_get_raw_def get boot_varname_0101 del: upt_rec_numeral)
qed


end
