(* ===== verification/Shim_Nvram.thy ===== *)
theory Shim_Nvram
  imports Page_Masking Mask_Ops
begin

text \<open>
  The inputs of the boot shim (\<^verbatim>\<open>efi/mask-shim/main.c\<close>): the lists of bad pages, rows and chips it
  reads from NVRAM, \<^verbatim>\<open>badmem.txt\<close>, the status of the decoder, the load options, and the state
  machine \<open>handle_nvram_state\<close> with its confirmation prompt. The state machine is related to an
  abstract one over the states of the mask (\<open>shim_step\<close>).
\<close>

section \<open>Names\<close>

definition VARNAME_BADROWS :: "u16 list" where "VARNAME_BADROWS = str ''BrrBadRows''"
definition VARNAME_DECODER_STATUS :: "u16 list" where "VARNAME_DECODER_STATUS = str ''BrrDecoderStatus''"
definition LEGACY_VARNAME_BADROWS :: "u16 list" where "LEGACY_VARNAME_BADROWS = str ''A1990BadRows''"
definition LEGACY_VARNAME_BADCHIPS :: "u16 list" where "LEGACY_VARNAME_BADCHIPS = str ''A1990BadChips''"
definition LEGACY_VARNAME_BADPAGES :: "u16 list" where "LEGACY_VARNAME_BADPAGES = str ''A1990BadPages''"
definition DECODER_STATUS_VALIDATED :: "u8 list" where "DECODER_STATUS_VALIDATED = str ''VALIDATED''"
definition DECODER_STATUS_FAILED :: "u8 list" where "DECODER_STATUS_FAILED = str ''FAILED''"

definition APPLE_GUID_READ2 :: efi_guid where
  "APPLE_GUID_READ2 = \<lparr>guid_data1 = 0x7c436110, guid_data2 = 0xab2a, guid_data3 = 0x4bbb,
     guid_data4 = [0xa8, 0x80, 0xfe, 0x41, 0x99, 0x5c, 0x9f, 0x82]\<rparr>"

lemmas shim_names = VARNAME_BADROWS_def VARNAME_DECODER_STATUS_def LEGACY_VARNAME_BADROWS_def
  LEGACY_VARNAME_BADCHIPS_def LEGACY_VARNAME_BADPAGES_def

section \<open>Bad pages\<close>

text \<open>The blob is a header (version, count) and the addresses; it is at most 4096 addresses long.\<close>

definition BADPAGES_MAX :: nat where "BADPAGES_MAX = 4096"

definition badpages_hdr_size :: nat where "badpages_hdr_size = 8"

definition badpages_array :: "u8 list \<Rightarrow> nat \<Rightarrow> u64 list" where
  "badpages_array blob count = map (\<lambda>i. of_le (take 8 (drop (badpages_hdr_size + 8 * i) blob))) [0..<count]"

text \<open>\<open>None\<close> for a blob that is too small, has another version, or is inconsistent.\<close>

definition badpages_blob :: "u8 list \<Rightarrow> u64 list option" where
  "badpages_blob blob =
     (if length blob < badpages_hdr_size then None
      else if (of_le (take 4 blob) :: u32) \<noteq> 1 then None
      else
        let count = unat (of_le (take 4 (drop 4 blob)) :: u32);
            expected = badpages_hdr_size + count * 8
        in if length blob < expected \<or> count > BADPAGES_MAX then None
           else Some (badpages_array blob count))"

definition in_range :: "u64 \<Rightarrow> badmem_range \<Rightarrow> bool" where
  "in_range page_pa r \<longleftrightarrow> page_pa \<ge> rg_start r \<and> page_pa < rg_start r + rg_len r"

text \<open>The ranges of \<open>existing\<close> and \<open>added\<close> together, appended to in place.\<close>

fun merge_badpages :: "nat \<Rightarrow> u64 list \<Rightarrow> badmem_range list \<Rightarrow> badmem_range list" where
  "merge_badpages cap [] ranges = ranges"
| "merge_badpages cap (pa # pas) ranges =
     (let page_pa = pa AND NOT 0xfff in
      if list_ex (in_range page_pa) ranges then merge_badpages cap pas ranges
      else if length ranges \<ge> cap then ranges
      else merge_badpages cap pas (ranges @ [\<lparr>rg_start = page_pa, rg_len = 4096\<rparr>]))"

definition badpages_variable :: "'w firmware \<Rightarrow> 'w \<Rightarrow> status \<times> u8 list" where
  "badpages_variable fw w =
     (let (s, blob) = GetVariable fw BRR_VARNAME_BADPAGES BRR_GUID (8 + 4096 * 8) w
      in if s \<noteq> EFI_SUCCESS then GetVariable fw LEGACY_VARNAME_BADPAGES BRR_GUID (8 + 4096 * 8) w
         else (s, blob))"

definition read_nvram_badpages ::
  "'w firmware \<Rightarrow> badmem_range list \<Rightarrow> nat \<Rightarrow> 'w \<Rightarrow> badmem_range list" where
  "read_nvram_badpages fw ranges cap w =
     (let (s, blob) = badpages_variable fw w in
      if s \<noteq> EFI_SUCCESS then ranges
      else (case badpages_blob blob of None \<Rightarrow> ranges | Some pas \<Rightarrow> merge_badpages cap pas ranges))"

section \<open>badmem.txt\<close>

definition read_badmem ::
  "'w firmware \<Rightarrow> handle \<Rightarrow> 'w \<Rightarrow> (status \<times> badmem_range list \<times> badmem_chip list) \<times> 'w" where
  "read_badmem fw image_handle w =
     (let (s, dev) = ImageDevice fw image_handle w in
      if s \<noteq> EFI_SUCCESS then ((s, [], []), w)
      else
        let s = HandleSfs fw dev w in
        if s \<noteq> EFI_SUCCESS then ((s, [], []), w)
        else
          let s = OpenVolume fw dev w in
          if s \<noteq> EFI_SUCCESS then ((s, [], []), w)
          else
            let f = INTERNAL_BADMEM;
                (s, w) = FileOpen fw dev INTERNAL_BADMEM EFI_FILE_MODE_READ 0 w;
                (s, f, w) = (if s \<noteq> EFI_SUCCESS
                  then let (s, w) = FileOpen fw dev USB_BADMEM EFI_FILE_MODE_READ 0 w in (s, USB_BADMEM, w)
                  else (s, f, w))
            in
              if s \<noteq> EFI_SUCCESS then ((EFI_SUCCESS, [], []), w)
              else
                let (s, file_buf) = FileRead fw dev f 65535 w in
                if s \<noteq> EFI_SUCCESS then ((s, [], []), w)
                else
                  let result = badmem_parse_full file_buf BADMEM_MAX_RANGES BADMEM_MAX_CHIPS
                  in ((EFI_SUCCESS, br_ranges result, br_chips result), w))"

section \<open>Bad rows, decoder status\<close>

definition read_nvram_badrows :: "'w firmware \<Rightarrow> nat \<Rightarrow> 'w \<Rightarrow> badmem_row list" where
  "read_nvram_badrows fw cap w =
     (let sz = 8 + BADMEM_MAX_ROWS * 8;
          (s, blob) = GetVariable fw VARNAME_BADROWS BRR_GUID sz w;
          (s, blob) = (if s \<noteq> EFI_SUCCESS then GetVariable fw VARNAME_BADROWS APPLE_GUID_READ2 sz w
                       else (s, blob));
          (s, blob) = (if s \<noteq> EFI_SUCCESS then GetVariable fw LEGACY_VARNAME_BADROWS BRR_GUID sz w
                       else (s, blob))
      in if s \<noteq> EFI_SUCCESS then [] else badmem_parse_rows_blob (Some blob) True cap)"

definition decoder_status_is :: "'w firmware \<Rightarrow> u8 list \<Rightarrow> 'w \<Rightarrow> bool" where
  "decoder_status_is fw val w =
     (let (s, buf) = mask_nvram_get_ascii fw VARNAME_DECODER_STATUS (replicate 32 0) w
      in s = EFI_SUCCESS \<and> ascii_eq buf val)"

definition read_nvram_decoder_status_validated :: "'w firmware \<Rightarrow> 'w \<Rightarrow> bool" where
  "read_nvram_decoder_status_validated fw w = decoder_status_is fw DECODER_STATUS_VALIDATED w"

definition read_nvram_decoder_status_failed :: "'w firmware \<Rightarrow> 'w \<Rightarrow> bool" where
  "read_nvram_decoder_status_failed fw w = decoder_status_is fw DECODER_STATUS_FAILED w"

section \<open>Bad chips\<close>

text \<open>
  A comma-separated list of designators. A name is copied up to the next comma, at most 15
  characters of it: the rest of a longer one is read as the next designator.
\<close>

fun take_desig :: "u8 list \<Rightarrow> nat \<Rightarrow> u8 list \<times> u8 list" where
  "take_desig [] n = ([], [])"
| "take_desig (c # p) n =
     (if c \<noteq> ch CHR '','' \<and> 1 < n then let (d, p) = take_desig p (n - 1) in (c # d, p)
      else ([], c # p))"

lemma length_take_desig: "length (snd (take_desig p n)) \<le> length p"
  by (induction p n rule: take_desig.induct) (auto simp: split_def Let_def)

lemma take_desig_progress:
  "p \<noteq> [] \<Longrightarrow> c0 p \<noteq> ch CHR '','' \<Longrightarrow> 1 < n \<Longrightarrow> length (snd (take_desig p n)) < length p"
  using length_take_desig [of "tl p" "n - 1"] by (cases p) (auto simp: split_def Let_def)

definition skip_commas :: "u8 list \<Rightarrow> u8 list" where
  "skip_commas p = dropWhile (\<lambda>c. c = ch CHR '','' \<or> c = ch CHR '' '') p"

function badchips_loop :: "nat \<Rightarrow> u8 list \<Rightarrow> badmem_chip list \<Rightarrow> badmem_chip list" where
  "badchips_loop cap p chips =
     (if p = [] \<or> length chips \<ge> cap then chips
      else
        let p = skip_commas p in
        if p = [] then chips
        else
          let (d, p) = take_desig p BADMEM_DESIG_MAX
          in badchips_loop cap p (if d \<noteq> [] then chips @ [new_chip d] else chips))"
  by pat_completeness auto
termination
proof (relation "measure (\<lambda>(_, p, _). length p)", goal_cases)
  case (2 cap p chips q qd d r)
  have "length q \<le> length p" unfolding 2(2) skip_commas_def by (rule length_dropWhile_le)
  moreover have "c0 q \<noteq> ch CHR '',''"
    using 2(3) hd_dropWhile [of "\<lambda>c. c = ch CHR '','' \<or> c = ch CHR '' ''" p]
    by (cases q) (auto simp: 2(2) skip_commas_def)
  then have "length (snd (take_desig q BADMEM_DESIG_MAX)) < length q"
    using 2(3) by (intro take_desig_progress) (simp_all add: BADMEM_DESIG_MAX_def)
  moreover have "take_desig q BADMEM_DESIG_MAX = (d, r)" using 2(4,5) by simp
  ultimately show ?case by simp
qed simp

declare badchips_loop.simps [simp del]

definition read_nvram_badchips :: "'w firmware \<Rightarrow> nat \<Rightarrow> 'w \<Rightarrow> badmem_chip list" where
  "read_nvram_badchips fw cap w =
     (let (s, chip_buf) = mask_nvram_get_ascii fw BRR_VARNAME_BADCHIPS (replicate 256 0) w;
          (s, chip_buf) = (if s \<noteq> EFI_SUCCESS then mask_nvram_get_ascii fw LEGACY_VARNAME_BADCHIPS chip_buf w
                           else (s, chip_buf))
      in if s \<noteq> EFI_SUCCESS then [] else badchips_loop cap (cstr chip_buf) [])"

section \<open>The confirmation prompt\<close>

fun prompt_loop :: "'w firmware \<Rightarrow> nat \<Rightarrow> 'w \<Rightarrow> u16 \<times> 'w" where
  "prompt_loop fw 0 w = (0, w)"
| "prompt_loop fw (Suc ticks) w =
     (let (k, w) = efi_readkey fw w in
      if k = ch CHR ''Y'' \<or> k = ch CHR ''y'' then (ch CHR ''Y'', w)
      else if k = ch CHR ''N'' \<or> k = ch CHR ''n'' then (ch CHR ''N'', w)
      else prompt_loop fw ticks (efi_stall_ms fw 100 w))"

definition prompt_confirm :: "'w firmware \<Rightarrow> u32 \<Rightarrow> 'w \<Rightarrow> u16 \<times> 'w" where
  "prompt_confirm fw timeout_s w = prompt_loop fw (unat (timeout_s * 10)) w"

section \<open>The state machine\<close>

text \<open>The result is \<open>skip_mask\<close>, \<open>force_chip\<close> and the world.\<close>

definition handle_nvram_state :: "'w firmware \<Rightarrow> handle \<Rightarrow> 'w \<Rightarrow> (bool \<times> bool \<times> 'w) option" where
  "handle_nvram_state fw img w =
     (let (s, state) = mask_nvram_get_ascii fw BRR_VARNAME_STATE (replicate 64 0) w in
      if s \<noteq> EFI_SUCCESS then Some (False, False, w)
      else if ascii_eq state BRR_STATE_TRIAL_PENDING_PAGE then Some (False, False, w)
      else if ascii_eq state BRR_STATE_TRIAL_PENDING_CHIP then Some (False, True, w)
      else if ascii_eq state BRR_STATE_TRIAL_BOOTED then Some (False, False, w)
      else if ascii_eq state BRR_STATE_PERMANENT_UNCONFIRMED then
        let (answer, w) = prompt_confirm fw 30 w in
        if answer = ch CHR ''Y'' then
          Some (False, False, snd (mask_nvram_set_ascii fw BRR_VARNAME_STATE BRR_STATE_PERMANENT_CONFIRMED w))
        else if answer = ch CHR ''N'' then
          map_option (\<lambda>(_, _, w). (True, False, efi_stall_ms fw 2000 w)) (uninstall_mask_full fw img w)
        else Some (False, False, w)
      else if ascii_eq state BRR_STATE_PERMANENT_CONFIRMED then Some (False, False, w)
      else Some (False, False, w))"

section \<open>Where the shim runs, and its load options\<close>

definition u16s :: "u8 list \<Rightarrow> u16 list" where
  "u16s bs = map (\<lambda>i. of_le (take 2 (drop (2 * i) bs))) [0..<length bs div 2]"

fun has_brr :: "u16 list \<Rightarrow> bool" where
  "has_brr (a # b # c # rest) =
     ((a = ch CHR ''B'' \<or> a = ch CHR ''b'') \<and> (b = ch CHR ''R'' \<or> b = ch CHR ''r'') \<and>
      (c = ch CHR ''R'' \<or> c = ch CHR ''r'') \<or> has_brr (b # c # rest))"
| "has_brr _ = False"

text \<open>\<open>None\<close> where the walk reads past a path that has no end node.\<close>

function path_is_installed :: "u8 list \<Rightarrow> bool option" where
  "path_is_installed p =
     (if length p < 4 then None
      else if p ! 0 = 0x7f \<and> p ! 1 = 0xff then Some False
      else if dp_node_len p < 4 then Some False
      else if p ! 0 = 4 \<and> p ! 1 = 4 \<and> has_brr (cstr (u16s (drop 4 p))) then Some True
      else path_is_installed (drop (dp_node_len p) p))"
  by pat_completeness auto
termination by (relation "measure length") auto

declare path_is_installed.simps [simp del]

definition shim_is_installed :: "'w firmware \<Rightarrow> handle \<Rightarrow> 'w \<Rightarrow> bool option" where
  "shim_is_installed fw img w =
     (let (s, file_path) = ImagePath fw img w in
      if s \<noteq> EFI_SUCCESS then Some False
      else (case file_path of None \<Rightarrow> Some False | Some p \<Rightarrow> path_is_installed p))"

definition opt_at :: "u16 list \<Rightarrow> nat \<Rightarrow> u16 list \<Rightarrow> bool" where
  "opt_at opts i flag \<longleftrightarrow> i + length flag \<le> length opts \<and> take (length flag) (drop i opts) = flag"

definition no_mask_requested :: "'w firmware \<Rightarrow> handle \<Rightarrow> 'w \<Rightarrow> bool" where
  "no_mask_requested fw img w =
     (let (s2, opts) = LoadOptions fw img w in
      s2 = EFI_SUCCESS \<and>
      list_ex (\<lambda>i. opt_at opts i (str ''--no-mask'') \<or> opt_at opts i (str ''--passthrough''))
        [0..<length opts])"

section \<open>The states of the mask\<close>

datatype mask_state = Unset | Trial_Page | Trial_Chip | Trial_Booted | Unconfirmed | Confirmed | Unknown

definition state_of :: "nvram \<Rightarrow> mask_state" where
  "state_of V =
     (case V (BRR_GUID, BRR_VARNAME_STATE) of
        None \<Rightarrow> Unset
      | Some d \<Rightarrow>
          if 63 < length d then Unset
          else if cstr d = BRR_STATE_TRIAL_PENDING_PAGE then Trial_Page
          else if cstr d = BRR_STATE_TRIAL_PENDING_CHIP then Trial_Chip
          else if cstr d = BRR_STATE_TRIAL_BOOTED then Trial_Booted
          else if cstr d = BRR_STATE_PERMANENT_UNCONFIRMED then Unconfirmed
          else if cstr d = BRR_STATE_PERMANENT_CONFIRMED then Confirmed
          else Unknown)"

text \<open>
  One boot through the shim: the state before, whether the mask is skipped, whether chip mode is
  forced, and the state after. Only the unconfirmed installation asks the user.
\<close>

inductive shim_step :: "mask_state \<Rightarrow> bool \<Rightarrow> bool \<Rightarrow> mask_state \<Rightarrow> bool" where
  chip: "shim_step Trial_Chip False True Trial_Chip"
| confirm: "shim_step Unconfirmed False False Confirmed"
| revert: "shim_step Unconfirmed True False Unset"
| keep: "s \<noteq> Trial_Chip \<Longrightarrow> shim_step s False False s"

inductive_cases shim_step_skipE: "shim_step s True f s'"
inductive_cases shim_step_ConfirmedE: "shim_step Confirmed skip f s'"
inductive_cases shim_step_ChipE: "shim_step Trial_Chip skip f s'"

lemma skip_only_unconfirmed: "shim_step s True f s' \<Longrightarrow> s = Unconfirmed \<and> \<not> f \<and> s' = Unset"
  by (elim shim_step_skipE) auto

lemma confirmed_step: "shim_step Confirmed skip f s' \<Longrightarrow> \<not> skip \<and> \<not> f \<and> s' = Confirmed"
  by (elim shim_step_ConfirmedE) auto

definition boots :: "mask_state \<Rightarrow> mask_state \<Rightarrow> bool" where
  "boots = (\<lambda>s s'. \<exists>skip f. shim_step s skip f s')\<^sup>*\<^sup>*"

lemma confirmed_forever:
  assumes "boots Confirmed s"
  shows "s = Confirmed"
  using assms unfolding boots_def
  by (induction rule: rtranclp_induct) (auto dest: confirmed_step)

text \<open>Boots never lead from a trial to an installation, or from one kind of trial to the other.\<close>

lemma boots_change:
  assumes "boots s s'" "s \<noteq> s'"
  shows "s = Unconfirmed \<and> s' \<in> {Confirmed, Unset}"
  using assms unfolding boots_def
proof (induction rule: rtranclp_induct)
  case (step y z)
  then obtain skip f where "shim_step y skip f z" by blast
  then show ?case using step.IH step.prems by (cases rule: shim_step.cases) auto
qed simp

text \<open>
  The states in the order a machine goes through them. Boots only advance in it, unless the user
  declines the unconfirmed installation.
\<close>

definition state_rank :: "mask_state \<Rightarrow> nat" where
  "state_rank s = (case s of Unset \<Rightarrow> 0 | Unknown \<Rightarrow> 1 | Trial_Page \<Rightarrow> 2 | Trial_Chip \<Rightarrow> 3 | Trial_Booted \<Rightarrow> 4
     | Unconfirmed \<Rightarrow> 5 | Confirmed \<Rightarrow> 6)"

lemma state_rank_inj: "state_rank s = state_rank s' \<longleftrightarrow> s = s'"
  by (cases s; cases s') (simp_all add: state_rank_def)

instantiation mask_state :: linorder
begin

definition less_eq_mask_state :: "mask_state \<Rightarrow> mask_state \<Rightarrow> bool" where
  "less_eq_mask_state s s' \<longleftrightarrow> state_rank s \<le> state_rank s'"

definition less_mask_state :: "mask_state \<Rightarrow> mask_state \<Rightarrow> bool" where
  "less_mask_state s s' \<longleftrightarrow> state_rank s < state_rank s'"

instance
  by standard (auto simp: less_eq_mask_state_def less_mask_state_def state_rank_inj)

end

lemma step_advances:
  assumes "shim_step s skip f s'"
  shows "if skip then s' < s else s \<le> s'"
  using assms by (cases rule: shim_step.cases) (simp_all add: less_eq_mask_state_def less_mask_state_def state_rank_def)

lemma boots_advance:
  assumes "boots s s'" "s' \<noteq> Unset"
  shows "s \<le> s'"
proof (cases "s = s'")
  case False
  then have "s = Unconfirmed \<and> s' = Confirmed" using boots_change [OF assms(1)] assms(2) by auto
  then show ?thesis by (simp add: less_eq_mask_state_def state_rank_def)
qed simp

lemma prompt_loop_vars:
  "frame_law fw vars \<Longrightarrow> vars (snd (prompt_loop fw n w)) = vars w"
  by (induction n arbitrary: w)
    (simp_all add: efi_readkey_def efi_stall_ms_def split_def Let_def frame_basic)

lemma prompt_loop_answer: "fst (prompt_loop fw n w) \<in> {0, ch CHR ''Y'', ch CHR ''N''}"
  by (induction n arbitrary: w) (auto simp: split_def Let_def)

lemma prompt_confirm_answer: "fst (prompt_confirm fw t w) \<in> {0, ch CHR ''Y'', ch CHR ''N''}"
  unfolding prompt_confirm_def by (rule prompt_loop_answer)

lemma prompt_confirm_vars: "frame_law fw vars \<Longrightarrow> vars (snd (prompt_confirm fw t w)) = vars w"
  unfolding prompt_confirm_def by (rule prompt_loop_vars)

lemma get_ascii_state:
  assumes "get_law fw vars"
  shows "mask_nvram_get_ascii fw BRR_VARNAME_STATE (replicate 64 0) w =
    (case vars w (BRR_GUID, BRR_VARNAME_STATE) of
       None \<Rightarrow> (EFI_NOT_FOUND, replicate 64 0)
     | Some d \<Rightarrow> if length d \<le> 63 then (EFI_SUCCESS, d @ 0 # replicate (63 - length d) 0)
                else (EFI_BUFFER_TOO_SMALL, replicate 64 0))"
  by (simp add: mask_nvram_get_ascii_def get_variable_law [OF assms] split: option.split)

lemma cstr_states [simp]:
  "cstr BRR_STATE_TRIAL_PENDING_PAGE = BRR_STATE_TRIAL_PENDING_PAGE"
  "cstr BRR_STATE_TRIAL_PENDING_CHIP = BRR_STATE_TRIAL_PENDING_CHIP"
  "cstr BRR_STATE_TRIAL_BOOTED = BRR_STATE_TRIAL_BOOTED"
  "cstr BRR_STATE_PERMANENT_UNCONFIRMED = BRR_STATE_PERMANENT_UNCONFIRMED"
  "cstr BRR_STATE_PERMANENT_CONFIRMED = BRR_STATE_PERMANENT_CONFIRMED"
  by (simp_all add: brr_states)

lemma states_distinct:
  "distinct [BRR_STATE_TRIAL_PENDING_PAGE, BRR_STATE_TRIAL_PENDING_CHIP, BRR_STATE_TRIAL_BOOTED,
     BRR_STATE_PERMANENT_UNCONFIRMED, BRR_STATE_PERMANENT_CONFIRMED]"
  by (simp add: brr_states)

text \<open>The state machine as a function of the abstract state.\<close>

lemma handle_nvram_state_abs:
  assumes "get_law fw vars"
  shows "handle_nvram_state fw img w =
    (case state_of (vars w) of
       Trial_Chip \<Rightarrow> Some (False, True, w)
     | Unconfirmed \<Rightarrow>
         let (answer, w) = prompt_confirm fw 30 w in
         if answer = ch CHR ''Y'' then
           Some (False, False, snd (mask_nvram_set_ascii fw BRR_VARNAME_STATE BRR_STATE_PERMANENT_CONFIRMED w))
         else if answer = ch CHR ''N'' then
           map_option (\<lambda>(_, _, w). (True, False, efi_stall_ms fw 2000 w)) (uninstall_mask_full fw img w)
         else Some (False, False, w)
     | _ \<Rightarrow> Some (False, False, w))"
  using states_distinct
  by (cases "vars w (BRR_GUID, BRR_VARNAME_STATE)")
    (auto simp: handle_nvram_state_def get_ascii_state [OF assms] state_of_def ascii_eq_cstr)


text \<open>A machine with an unconfirmed installation on which the user types N.\<close>

definition declining :: machine where
  "declining = blank_machine\<lparr>m_nv := [((BRR_GUID, BRR_VARNAME_STATE), BRR_STATE_PERMANENT_UNCONFIRMED)],
     m_keys := [\<lparr>key_scan = 0, key_char = ch CHR ''n''\<rparr>]\<rparr>"

lemma state_declining: "state_of (m_vars declining) = Unconfirmed"
  using states_distinct
  by (simp add: state_of_def declining_def m_vars_conv brr_names) (simp add: brr_states)

lemma prompt_declining: "prompt_confirm bench 30 declining = (ch CHR ''N'', declining\<lparr>m_keys := []\<rparr>)"
proof -
  have "prompt_confirm bench 30 declining = prompt_loop bench (Suc 299) declining"
    by (simp add: prompt_confirm_def del: prompt_loop.simps)
  also have "\<dots> = (ch CHR ''N'', declining\<lparr>m_keys := []\<rparr>)"
    by (simp only: prompt_loop.simps) (simp add: efi_readkey_def bench_simps declining_def)
  finally show ?thesis .
qed


end
