(* ===== verification/Shim_Mask.thy ===== *)
theory Shim_Mask
  imports Shim_Nvram
begin

text \<open>
  The choice of the mask in \<open>efi_main\<close> of \<^verbatim>\<open>efi/mask-shim/main.c\<close>: row mode, chip mode or page mode,
  from the state machine, the decoder status and the lists in NVRAM. What was masked is a value
  of \<open>mask_mode\<close>; the reserved pages are in the world.
\<close>

datatype mask_mode =
    Row_Mode "badmem_row list"
  | Chip_Mode "badmem_chip list"
  | Page_Mode "badmem_range list" "badmem_chip list"

text \<open>The ranges and chips page mode works on: none when chip mode was asked for.\<close>

definition page_mode_input ::
  "'w firmware \<Rightarrow> handle \<Rightarrow> bool \<Rightarrow> 'w \<Rightarrow> (badmem_range list \<times> badmem_chip list) \<times> 'w" where
  "page_mode_input fw img force_chip w =
     (if force_chip then (([], []), w)
      else
        let ((rs, ranges, chips), w) = read_badmem fw img w
        in ((read_nvram_badpages fw ranges BADMEM_MAX_RANGES w, chips), w))"

definition page_mode ::
  "'w firmware \<Rightarrow> shim_hardware \<Rightarrow> board_profile list \<Rightarrow> handle \<Rightarrow> bool \<Rightarrow> shim_state \<Rightarrow> 'w
     \<Rightarrow> (mask_mode \<times> shim_state \<times> 'w) option" where
  "page_mode fw shw profiles img force_chip sst w =
     (let ((ranges, chips), w) = page_mode_input fw img force_chip w in
      Option.bind
        (if ranges \<noteq> []
         then map_option (\<lambda>(_, _, w). snd (verify_mask_in_memmap fw ranges w)) (mask_pages fw ranges w)
         else Some w)
        (\<lambda>w.
          if chips \<noteq> [] then
            let chips = snd (resolve_chip_entries profiles chips)
            in map_option (\<lambda>(_, _, sst, w). (Page_Mode ranges chips, sst, w)) (mask_chips fw shw chips sst w)
          else Some (Page_Mode ranges chips, sst, w)))"

definition apply_mask ::
  "'w firmware \<Rightarrow> shim_hardware \<Rightarrow> board_profile list \<Rightarrow> handle \<Rightarrow> bool \<Rightarrow> shim_state \<Rightarrow> 'w
     \<Rightarrow> (mask_mode \<times> shim_state \<times> 'w) option" where
  "apply_mask fw shw profiles img force_chip sst w =
     (let decoder_validated = read_nvram_decoder_status_validated fw w;
          decoder_failed = read_nvram_decoder_status_failed fw w;
          rows = read_nvram_badrows fw BADMEM_MAX_ROWS w
      in
        if decoder_validated \<and> rows \<noteq> [] then
          map_option (\<lambda>(_, _, sst, w). (Row_Mode rows, sst, w)) (mask_rows fw shw rows sst w)
        else if decoder_failed \<or> force_chip \<and> \<not> decoder_validated then
          let chips = read_nvram_badchips fw BADMEM_MAX_CHIPS w in
          if \<not> force_chip \<and> chips = [] then page_mode fw shw profiles img force_chip sst w
          else
            let chips = snd (resolve_chip_entries profiles chips)
            in map_option (\<lambda>(_, _, sst, w). (Chip_Mode chips, sst, w)) (mask_chips fw shw chips sst w)
        else page_mode fw shw profiles img force_chip sst w)"

text \<open>Steps 1 and 2 of \<open>efi_main\<close>: \<open>None\<close> for the mode when nothing is to be masked.\<close>

definition mask_step ::
  "'w firmware \<Rightarrow> shim_hardware \<Rightarrow> board_profile list \<Rightarrow> handle \<Rightarrow> shim_state \<Rightarrow> 'w
     \<Rightarrow> (mask_mode option \<times> shim_state \<times> 'w) option" where
  "mask_step fw shw profiles img sst w =
     Option.bind
       (if no_mask_requested fw img w then Some (True, False, w) else handle_nvram_state fw img w)
       (\<lambda>(skip_mask, force_chip, w).
         if skip_mask then Some (None, sst, w)
         else map_option (\<lambda>(m, sst, w). (Some m, sst, w)) (apply_mask fw shw profiles img force_chip sst w))"

section \<open>From the saved pages to the reserved pages\<close>

text \<open>
  The allocator with the pages it has handed out as reserved memory: a free page is taken and
  becomes reserved, any other request changes nothing. The other services the masking calls leave
  the reserved pages alone.
\<close>

definition page_reserver :: "'w firmware \<Rightarrow> ('w \<Rightarrow> u64 set) \<Rightarrow> ('w \<Rightarrow> u64 set) \<Rightarrow> bool" where
  "page_reserver fw free resv \<longleftrightarrow>
     (\<forall>pa w. free (snd (AllocatePage fw pa w)) = free w - {pa} \<and>
        resv (snd (AllocatePage fw pa w)) = (if pa \<in> free w then insert pa (resv w) else resv w)) \<and>
     (\<forall>n w. resv (snd (AllocatePool fw n w)) = resv w) \<and> (\<forall>w. resv (FreePool fw w) = resv w)"

text \<open>What allocation leaves alone, such as the files.\<close>

definition alloc_frame :: "'w firmware \<Rightarrow> ('w \<Rightarrow> 'v) \<Rightarrow> bool" where
  "alloc_frame fw view \<longleftrightarrow> (\<forall>pa w. view (snd (AllocatePage fw pa w)) = view w) \<and>
     (\<forall>n w. view (snd (AllocatePool fw n w)) = view w) \<and> (\<forall>w. view (FreePool fw w) = view w)"

lemma mask_fold_view:
  assumes "alloc_frame fw view"
  shows "view (snd (snd (snd (fold (mask_one_page fw) ps s)))) = view (snd (snd (snd s)))"
proof -
  have "view (snd (snd (snd (mask_one_page fw pa s)))) = view (snd (snd (snd s)))" for pa s
    using assms by (simp add: alloc_frame_def mask_one_page_def split_def Let_def)
  then show ?thesis by (induction ps arbitrary: s) simp_all
qed

lemma mask_one_page_reserver:
  assumes "page_reserver fw free resv"
  shows "free (snd (snd (snd (mask_one_page fw pa s)))) = free (snd (snd (snd s))) - {pa}"
    "resv (snd (snd (snd (mask_one_page fw pa s)))) =
      resv (snd (snd (snd s))) \<union> (free (snd (snd (snd s))) \<inter> {pa})"
  using assms by (auto simp: page_reserver_def mask_one_page_def split_def Let_def)

lemma mask_fold_reserver:
  assumes "page_reserver fw free resv"
  shows "free (snd (snd (snd (fold (mask_one_page fw) ps s)))) = free (snd (snd (snd s))) - set ps \<and>
    resv (snd (snd (snd (fold (mask_one_page fw) ps s)))) =
      resv (snd (snd (snd s))) \<union> (free (snd (snd (snd s))) \<inter> set ps)"
  by (induction ps arbitrary: s) (auto simp: mask_one_page_reserver [OF assms])

lemma mask_ranges_reserver:
  assumes "page_reserver fw free resv" "\<forall>r \<in> set rs. in_reach r" "alloc_frame fw view"
  shows "\<exists>rep' w'. mask_ranges fw rs rep w = Some (rep', w') \<and>
    resv w' = resv w \<union> (free w \<inter> {p. page_aligned p \<and> (\<exists>r \<in> set rs. near r p)}) \<and>
    free w' = free w - {p. page_aligned p \<and> (\<exists>r \<in> set rs. near r p)} \<and> view w' = view w"
  using assms(2)
proof (induction rs arbitrary: rep w)
  case (Cons r rs)
  obtain x y where xy: "expand_range r = (x, y)" by (cases "expand_range r")
  have "in_reach r" using Cons.prems by simp
  note ps = expand_range_pages [OF this xy]
  obtain a b c w1 where f: "fold (mask_one_page fw) (pages_between x y) (0, 0, 0, w) = (a, b, c, w1)"
    using prod_cases4 by blast
  have 1: "free w1 = free w - {p. page_aligned p \<and> near r p}"
    "resv w1 = resv w \<union> (free w \<inter> {p. page_aligned p \<and> near r p})"
    using mask_fold_reserver [OF assms(1), of "pages_between x y" "(0, 0, 0, w)"] by (simp_all add: f ps(3))
  have v1: "view w1 = view w" using mask_fold_view [OF assms(3), of "pages_between x y" "(0, 0, 0, w)"] by (simp add: f)
  obtain rep1 where m: "mask_range fw r rep w = Some (rep1, w1)"
    by (simp add: mask_range_def xy page_loop_eq ps(1,2) fold_while_True f)
  obtain rep' w' where "mask_ranges fw rs rep1 w1 = Some (rep', w')"
    "resv w' = resv w1 \<union> (free w1 \<inter> {p. page_aligned p \<and> (\<exists>r \<in> set rs. near r p)})"
    "free w' = free w1 - {p. page_aligned p \<and> (\<exists>r \<in> set rs. near r p)}" "view w' = view w1"
    using Cons.IH [of rep1 w1] Cons.prems by auto
  with m 1 v1 show ?case by auto
qed simp

lemma view_verify:
  assumes "alloc_frame fw view"
  shows "view (snd (verify_mask_in_memmap fw ranges w)) = view w"
  using assms by (simp add: verify_mask_in_memmap_def alloc_frame_def split_def Let_def)

lemma resv_verify:
  assumes "page_reserver fw free resv"
  shows "resv (snd (verify_mask_in_memmap fw ranges w)) = resv w"
  using assms by (simp add: verify_mask_in_memmap_def page_reserver_def split_def Let_def)

text \<open>The merged list holds a range for every page of the blob, as long as there is room for all.\<close>

lemma merge_Cons:
  "merge_badpages cap (pa # pas) ranges =
     (if list_ex (in_range (pa AND PAGE_MASK)) ranges then merge_badpages cap pas ranges
      else if length ranges \<ge> cap then ranges
      else merge_badpages cap pas (ranges @ [\<lparr>rg_start = pa AND PAGE_MASK, rg_len = 4096\<rparr>]))"
  by (simp add: PAGE_MASK_def PAGE_SIZE_def)

declare merge_badpages.simps(2) [simp del]
declare merge_Cons [simp]

lemma merge_keeps: "r \<in> set ranges \<Longrightarrow> r \<in> set (merge_badpages cap pas ranges)"
  by (induction pas arbitrary: ranges) auto

lemma merge_covers:
  assumes "length ranges + length pas \<le> cap"
    and "\<forall>pa \<in> set pas. unat pa + 4096 < 2 ^ 64" "pa \<in> set pas"
  shows "\<exists>r \<in> set (merge_badpages cap pas ranges). in_range (pa AND PAGE_MASK) r"
  using assms
proof (induction pas arbitrary: ranges)
  case (Cons a pas)
  define new where "new = \<lparr>rg_start = a AND PAGE_MASK, rg_len = 4096\<rparr>"
  have "unat a + 4096 < 2 ^ 64" using Cons.prems(2) by simp
  then have "unat (a AND PAGE_MASK) + 4096 < 2 ^ 64"
    using page_mask_bounds(1) [of a] by linarith
  then have new: "in_range (a AND PAGE_MASK) new"
    by (simp add: in_range_def new_def word_less_nat_alt unat_word_ariths)
  show ?case
  proof (cases "list_ex (in_range (a AND PAGE_MASK)) ranges")
    case True
    then obtain r where r: "r \<in> set ranges" "in_range (a AND PAGE_MASK) r" by (auto simp: list_ex_iff)
    then have "r \<in> set (merge_badpages cap pas ranges)" using merge_keeps by blast
    with r(2) Cons.IH [of ranges] Cons.prems True show ?thesis by auto
  next
    case False
    have "new \<in> set (merge_badpages cap pas (ranges @ [new]))" by (rule merge_keeps) simp
    with new False Cons.IH [of "ranges @ [new]"] Cons.prems show ?thesis
      by (auto simp flip: new_def)
  qed
qed simp

lemma merge_new:
  "r \<in> set (merge_badpages cap pas ranges) \<Longrightarrow>
    r \<in> set ranges \<or> (\<exists>pa \<in> set pas. r = \<lparr>rg_start = pa AND PAGE_MASK, rg_len = 4096\<rparr>)"
proof (induction pas arbitrary: ranges)
  case (Cons a pas)
  from Cons.prems Cons.IH [of ranges]
    Cons.IH [of "ranges @ [\<lparr>rg_start = a AND PAGE_MASK, rg_len = 4096\<rparr>]"]
  show ?case by (auto split: if_splits)
qed simp

lemma in_range_near:
  assumes "in_reach r" "in_range q r"
    and "unat q < unat p + 4096 + 2 ^ 20" "unat p \<le> unat q + 2 ^ 20"
  shows "near r p"
proof -
  have "unat (rg_start r + rg_len r) = unat (rg_start r) + unat (rg_len r)"
    using assms(1) by (simp add: in_reach_def unat_word_ariths)
  with assms(2-4) show ?thesis
    by (simp add: near_def in_range_def word_le_nat_alt word_less_nat_alt)
qed

lemma vars_read_badmem:
  "frame_law fw vars \<Longrightarrow> vars (snd (read_badmem fw img w)) = vars w"
  by (simp add: read_badmem_def split_def Let_def frame_basic)

lemma decoder_status_absent:
  assumes "get_law fw vars" "vars w (BRR_GUID, VARNAME_DECODER_STATUS) = None"
  shows "\<not> read_nvram_decoder_status_validated fw w" "\<not> read_nvram_decoder_status_failed fw w"
  using assms(2)
  by (simp_all add: read_nvram_decoder_status_validated_def read_nvram_decoder_status_failed_def
      decoder_status_is_def mask_nvram_get_ascii_def get_variable_law [OF assms(1)] Let_def)

lemma read_badpages_saved:
  assumes "get_law fw vars" "vars w (BRR_GUID, BRR_VARNAME_BADPAGES) = Some blob"
    "badpages_blob blob = Some pas" "length blob \<le> 32776"
  shows "read_nvram_badpages fw ranges cap w = merge_badpages cap pas ranges"
  using assms(2-4)
  by (simp add: read_nvram_badpages_def badpages_variable_def get_variable_law [OF assms(1)])

text \<open>A page within 1 MiB of the page of an address.\<close>

definition close_to :: "u64 \<Rightarrow> u64 \<Rightarrow> bool" where
  "close_to pa p \<longleftrightarrow> page_aligned p \<and> unat (pa AND PAGE_MASK) < unat p + 4096 + 2 ^ 20 \<and>
     unat p \<le> unat (pa AND PAGE_MASK) + 2 ^ 20"

definition low_enough :: "u64 \<Rightarrow> bool" where
  "low_enough pa \<longleftrightarrow> unat pa + 2 ^ 21 < 2 ^ 64"

lemma in_reach_page:
  assumes "low_enough pa"
  shows "in_reach \<lparr>rg_start = pa AND PAGE_MASK, rg_len = 4096\<rparr>"
  using assms page_mask_bounds(1) [of pa] by (simp add: low_enough_def in_reach_def)

lemma page_mode_reserves:
  assumes "page_reserver fw free resv" "get_law fw vars" "frame_law fw vars"
    and "read_badmem fw img w = ((rs, ranges, []), w1)" "\<forall>r \<in> set ranges. in_reach r"
    and "vars w (BRR_GUID, BRR_VARNAME_BADPAGES) = Some blob" "badpages_blob blob = Some pas" "length blob \<le> 32776"
    and "\<forall>pa \<in> set pas. low_enough pa" "length ranges + length pas \<le> BADMEM_MAX_RANGES"
    and "alloc_frame fw view"
  shows "\<exists>m w'. page_mode fw shw profiles img False sst w = Some (m, sst, w') \<and>
    (\<forall>pa \<in> set pas. \<forall>p. close_to pa p \<and> p \<in> free w1 \<longrightarrow> p \<in> resv w') \<and> view w' = view w1"
proof -
  define all where "all = merge_badpages BADMEM_MAX_RANGES pas ranges"
  have v1: "vars w1 = vars w" using vars_read_badmem [OF assms(3), of img w] by (simp add: assms(4))
  have inp: "page_mode_input fw img False w = ((all, []), w1)"
    using read_badpages_saved [OF assms(2) _ assms(7,8), of w1] assms(6)
    by (simp add: page_mode_input_def assms(4) all_def v1)
  have reach: "\<forall>r \<in> set all. in_reach r"
  proof
    fix r assume "r \<in> set all"
    then consider "r \<in> set ranges" | pa where "pa \<in> set pas" "r = \<lparr>rg_start = pa AND PAGE_MASK, rg_len = 4096\<rparr>"
      unfolding all_def using merge_new by blast
    then show "in_reach r" using assms(5,9) in_reach_page by cases blast+
  qed
  from mask_ranges_reserver [OF assms(1) reach assms(11), of empty_report w1] obtain rep w2
    where m: "mask_ranges fw all empty_report w1 = Some (rep, w2)"
      and r2: "resv w2 = resv w1 \<union> (free w1 \<inter> {p. page_aligned p \<and> (\<exists>r \<in> set all. near r p)})"
      and v2: "view w2 = view w1"
    by blast
  define w3 where "w3 = (if all \<noteq> [] then snd (verify_mask_in_memmap fw all w2) else w1)"
  have "page_mode fw shw profiles img False sst w = Some (Page_Mode all [], sst, w3)"
    by (simp add: page_mode_def inp mask_pages_def m w3_def)
  moreover have "view w3 = view w1" using view_verify [OF assms(11), of all w2] v2 by (simp add: w3_def)
  moreover have "p \<in> resv w3" if pa: "pa \<in> set pas" and p: "close_to pa p" "p \<in> free w1" for pa p
  proof -
    have "\<forall>pa \<in> set pas. unat pa + 4096 < 2 ^ 64" using assms(9) by (auto simp: low_enough_def)
    from merge_covers [OF assms(10) this pa] obtain r
      where r: "r \<in> set all" "in_range (pa AND PAGE_MASK) r" unfolding all_def by blast
    have "near r p" using in_range_near [OF _ r(2), of p] reach r(1) p(1) by (simp add: close_to_def)
    then have "p \<in> resv w2" using r2 r(1) p by (auto simp: close_to_def)
    moreover have "all \<noteq> []" using r(1) by auto
    ultimately show ?thesis using resv_verify [OF assms(1), of all w2] by (simp add: w3_def)
  qed
  ultimately show ?thesis by blast
qed

lemma trial_reserves:
  assumes "page_reserver fw free resv" "variable_store fw vars"
    and "\<not> no_mask_requested fw img w" "state_of (vars w) = Trial_Page"
    and "vars w (BRR_GUID, VARNAME_DECODER_STATUS) = None"
    and "read_badmem fw img w = ((rs, ranges, []), w1)" "\<forall>r \<in> set ranges. in_reach r"
    and "vars w (BRR_GUID, BRR_VARNAME_BADPAGES) = Some blob" "badpages_blob blob = Some pas" "length blob \<le> 32776"
    and "\<forall>pa \<in> set pas. low_enough pa" "length ranges + length pas \<le> BADMEM_MAX_RANGES"
    and "alloc_frame fw view"
  shows "\<exists>m w'. mask_step fw shw profiles img sst w = Some (Some m, sst, w') \<and>
    (\<forall>pa \<in> set pas. \<forall>p. close_to pa p \<and> p \<in> free w1 \<longrightarrow> p \<in> resv w') \<and> view w' = view w1"
proof -
  have laws: "get_law fw vars" "frame_law fw vars" using assms(2) by (simp_all add: variable_store_def)
  obtain m w' where r: "page_mode fw shw profiles img False sst w = Some (m, sst, w')"
    "\<forall>pa \<in> set pas. \<forall>p. close_to pa p \<and> p \<in> free w1 \<longrightarrow> p \<in> resv w'" "view w' = view w1"
    using page_mode_reserves [OF assms(1) laws assms(6-12) assms(13)] by blast
  have "apply_mask fw shw profiles img False sst w = Some (m, sst, w')"
    using r(1) decoder_status_absent [OF laws(1) assms(5)] by (simp add: apply_mask_def)
  then have "mask_step fw shw profiles img sst w = Some (Some m, sst, w')"
    using assms(3,4) by (simp add: mask_step_def handle_nvram_state_abs [OF laws(1)])
  with r(2,3) show ?thesis by blast
qed

section \<open>From the saved rows to the reserved pages\<close>

lemma reserve_fold_reserver:
  assumes "page_reserver fw free resv"
  shows "free (snd (snd (fold (reserve_page fw) ps s))) = free (snd (snd s)) - set ps \<and>
    resv (snd (snd (fold (reserve_page fw) ps s))) = resv (snd (snd s)) \<union> (free (snd (snd s)) \<inter> set ps)"
proof (induction ps arbitrary: s)
  case (Cons p ps)
  have "free (snd (snd (reserve_page fw p s))) = free (snd (snd s)) - {p}"
    "resv (snd (snd (reserve_page fw p s))) = resv (snd (snd s)) \<union> (free (snd (snd s)) \<inter> {p})"
    using assms by (auto simp: page_reserver_def reserve_page_def split_def Let_def)
  then show ?case using Cons.IH [of "reserve_page fw p s"] by auto
qed simp

lemma reserve_fold_view:
  assumes "alloc_frame fw view"
  shows "view (snd (snd (fold (reserve_page fw) ps s))) = view (snd (snd s))"
proof (induction ps arbitrary: s)
  case (Cons p ps)
  have "view (snd (snd (reserve_page fw p s))) = view (snd (snd s))"
    using assms by (simp add: alloc_frame_def reserve_page_def split_def Let_def)
  then show ?case using Cons.IH [of "reserve_page fw p s"] by simp
qed simp

lemma mask_row_list_reserver:
  assumes "page_reserver fw free resv" "mc_wf mc" "alloc_frame fw view"
  shows "\<exists>s'. mask_row_list fw (shim_view mc) rows s = Some s' \<and>
    resv (snd (snd s')) = resv (snd (snd s)) \<union>
      (free (snd (snd s)) \<inter> (\<Union>r \<in> set rows. set (take ROW_ENUM_CAP (pages_of_row mc r)))) \<and>
    view (snd (snd s')) = view (snd (snd s))"
proof (induction rows arbitrary: s)
  case (Cons r rows)
  define s1 where "s1 = fold (reserve_page fw) (take ROW_ENUM_CAP (pages_of_row mc r)) s"
  obtain s' where "mask_row_list fw (shim_view mc) rows s1 = Some s'"
    and "resv (snd (snd s')) = resv (snd (snd s1)) \<union>
      (free (snd (snd s1)) \<inter> (\<Union>r \<in> set rows. set (take ROW_ENUM_CAP (pages_of_row mc r))))"
    and "view (snd (snd s')) = view (snd (snd s1))"
    using Cons.IH by blast
  moreover have "mask_row_list fw (shim_view mc) (r # rows) s = mask_row_list fw (shim_view mc) rows s1"
    by (simp add: shim_enumerate_view [OF assms(2)] s1_def pages_of_row_def)
  ultimately show ?case
    using reserve_fold_reserver [OF assms(1), of "take ROW_ENUM_CAP (pages_of_row mc r)" s]
      reserve_fold_view [OF assms(3), of "take ROW_ENUM_CAP (pages_of_row mc r)" s]
    by (auto simp flip: s1_def)
qed simp

text \<open>With a validated decoder and rows in NVRAM the shim goes into row mode, in every state but the one
  that asks the user first.\<close>

lemma row_mode_reserves:
  assumes "page_reserver fw free resv" "get_law fw vars" "alloc_frame fw view"
    and "\<not> no_mask_requested fw img w" "state_of (vars w) \<noteq> Unconfirmed"
    and "read_nvram_decoder_status_validated fw w" "read_nvram_badrows fw BADMEM_MAX_ROWS w = rows" "rows \<noteq> []"
    and "shim_cfl_init shw sst = (True, sst')" "g_mc sst' = shim_view mc" "mc_wf mc" "0 < config_total_memory mc"
  shows "\<exists>w'. mask_step fw shw profiles img sst w = Some (Some (Row_Mode rows), sst', w') \<and>
    resv w' = resv w \<union> (free w \<inter> (\<Union>r \<in> set rows. set (take ROW_ENUM_CAP (pages_of_row mc r)))) \<and>
    view w' = view w"
proof -
  obtain x y w' where s: "mask_row_list fw (shim_view mc) rows (0, 0, w) = Some (x, y, w')"
    "resv w' = resv w \<union> (free w \<inter> (\<Union>r \<in> set rows. set (take ROW_ENUM_CAP (pages_of_row mc r))))"
    "view w' = view w"
    using mask_row_list_reserver [OF assms(1,11,3), of rows "(0, 0, w)"] by auto
  have "mask_rows fw shw rows sst w = Some (EFI_SUCCESS, (x, y), sst', w')"
    using assms(8-12) s(1) by (simp add: mask_rows_def shim_total_view)
  then have "apply_mask fw shw profiles img force sst w = Some (Row_Mode rows, sst', w')" for force
    using assms(6-8) by (simp add: apply_mask_def)
  moreover have "\<exists>force. handle_nvram_state fw img w = Some (False, force, w)"
    using assms(5) by (cases "state_of (vars w)") (auto simp: handle_nvram_state_abs [OF assms(2)])
  ultimately have "mask_step fw shw profiles img sst w = Some (Some (Row_Mode rows), sst', w')"
    using assms(4) by (auto simp: mask_step_def)
  with s(2,3) show ?thesis by blast
qed

text \<open>Rows saved in the documented layout are the rows that are read.\<close>

lemma badrows_saved:
  assumes "get_law fw vars" "vars w (BRR_GUID, VARNAME_BADROWS) = Some (rows_blob rows)"
    "length rows \<le> BADMEM_MAX_ROWS"
  shows "read_nvram_badrows fw BADMEM_MAX_ROWS w = rows"
proof -
  have "badmem_parse_rows_blob (Some (rows_blob rows)) True BADMEM_MAX_ROWS = rows"
    using rows_blob_read [of rows "[]" BADMEM_MAX_ROWS] assms(3) by (simp add: BADMEM_MAX_ROWS_def)
  then show ?thesis
    using assms(2,3) by (simp add: read_nvram_badrows_def get_variable_law [OF assms(1)] badrows_hdr_size_def
        badrows_tuple_size_def)
qed

text \<open>C21: a chip trial on a machine whose decoder is validated but has no bad rows masks nothing: the
  shim neither reads the list of bad chips nor any list of pages, and the free memory is as before.\<close>

theorem validated_chip_trial_masks_nothing:
  assumes "variable_store fw vars" "\<not> no_mask_requested fw img w" "state_of (vars w) = Trial_Chip"
    and "read_nvram_decoder_status_validated fw w" "read_nvram_badrows fw BADMEM_MAX_ROWS w = []"
  shows "mask_step fw shw profiles img sst w = Some (Some (Page_Mode [] []), sst, w)"
proof -
  have laws: "get_law fw vars" using assms(1) by (simp add: variable_store_def)
  have "\<not> read_nvram_decoder_status_failed fw w"
  proof
    assume "read_nvram_decoder_status_failed fw w"
    then have "cstr DECODER_STATUS_VALIDATED = cstr DECODER_STATUS_FAILED"
      using assms(4)
      by (simp add: read_nvram_decoder_status_failed_def read_nvram_decoder_status_validated_def
          decoder_status_is_def ascii_eq_cstr split_def Let_def)
    then show False by (simp add: DECODER_STATUS_FAILED_def DECODER_STATUS_VALIDATED_def)
  qed
  then have "apply_mask fw shw profiles img True sst w = Some (Page_Mode [] [], sst, w)"
    using assms(4,5) by (simp add: apply_mask_def page_mode_def page_mode_input_def)
  then show ?thesis
    using assms(2,3) by (simp add: mask_step_def handle_nvram_state_abs [OF laws])
qed

definition chip_trial :: machine where
  "chip_trial = blank_machine\<lparr>m_nv := [((BRR_GUID, BRR_VARNAME_STATE), BRR_STATE_TRIAL_PENDING_CHIP),
     ((BRR_GUID, BRR_VARNAME_BADCHIPS), str ''U2300''),
     ((BRR_GUID, VARNAME_DECODER_STATUS), DECODER_STATUS_VALIDATED)],
     m_free := [0x1000000]\<rparr>"

theorem validated_chip_trial_masks_nothing_witness:
  "mask_step bench a1990_shim [] 7 ready_shim chip_trial = Some (Some (Page_Mode [] []), ready_shim, chip_trial)"
proof -
  have "\<not> no_mask_requested bench 7 chip_trial" by (simp add: no_mask_requested_def bench_simps)
  moreover have "state_of (m_vars chip_trial) = Trial_Chip"
    using states_distinct
    by (simp add: state_of_def chip_trial_def m_vars_conv brr_names) (simp add: brr_states)
  moreover have "read_nvram_decoder_status_validated bench chip_trial"
    by (simp add: read_nvram_decoder_status_validated_def decoder_status_is_def mask_nvram_get_ascii_def
        bench_simps m_vars_conv chip_trial_def brr_names shim_names DECODER_STATUS_VALIDATED_def)
  moreover have "read_nvram_badrows bench BADMEM_MAX_ROWS chip_trial = []"
    by (simp add: read_nvram_badrows_def bench_simps m_vars_conv chip_trial_def brr_names shim_names
        BRR_GUID_def APPLE_GUID_READ2_def)
  ultimately show ?thesis by (rule validated_chip_trial_masks_nothing [OF variable_store_bench])
qed

end
