(* ===== verification/Shim_Finder.thy ===== *)
theory Shim_Finder
  imports Shim_Nvram
begin

text \<open>
  How the shim finds and starts macOS (\<^verbatim>\<open>efi/mask-shim/main.c\<close>): the search of every volume for
  \<^verbatim>\<open>boot.efi\<close> in its tiers (the blessed file, fixed paths, paths below the directories of the root
  and of their children, a recursive walk), and the fallback over the boot order. A directory
  that keeps answering \<open>EFI_BUFFER_TOO_SMALL\<close> makes a listing run forever; such functions are
  options. The volume and the path stand for an open file, the empty path for the root.
\<close>

section \<open>Paths\<close>

definition MACOS_BOOT_SUFFIX :: "u16 list" where
  "MACOS_BOOT_SUFFIX = BSL # efi_path [''System'', ''Library'', ''CoreServices'', ''boot.efi'']"

definition MACOS_ALT_PATHS :: "u16 list list" where
  "MACOS_ALT_PATHS = map (\<lambda>p. BSL # efi_path p)
     [[''System'', ''Library'', ''CoreServices'', ''boot.efi''],
      [''boot.efi''],
      [''boot'', ''boot.efi''],
      [''cryptex1'', ''current'', ''System'', ''Library'', ''CoreServices'', ''boot.efi''],
      [''Cryptexes'', ''OS'', ''System'', ''Library'', ''CoreServices'', ''boot.efi''],
      [''com.apple.recovery.boot'', ''boot.efi''],
      [''usr'', ''standalone'', ''i386'', ''boot.efi'']]"

definition APPLE_APFS_VOLUME_INFO_GUID :: efi_guid where
  "APPLE_APFS_VOLUME_INFO_GUID = \<lparr>guid_data1 = 0x900C7693, guid_data2 = 0x8C14, guid_data3 = 0x58BA,
     guid_data4 = [0xB4, 0x4E, 0x97, 0x45, 0x15, 0xD2, 0x7C, 0x78]\<rparr>"

definition APPLE_BLESSED_SYSTEM_FILE_INFO_GUID :: efi_guid where
  "APPLE_BLESSED_SYSTEM_FILE_INFO_GUID = \<lparr>guid_data1 = 0xCA7E4814, guid_data2 = 0x2ADC, guid_data3 = 0x4ADD,
     guid_data4 = [0xAB, 0xFF, 0x73, 0x4E, 0x3C, 0xFE, 0x13, 0xC3]\<rparr>"

definition MAX_LEVEL_DIRS :: nat where "MAX_LEVEL_DIRS = 32"
definition MAX_DIRNAME_CHARS :: nat where "MAX_DIRNAME_CHARS = 64"
definition FULL_PATH_CAP :: nat where "FULL_PATH_CAP = 512"
definition BOOT_EFI_MAX :: nat where "BOOT_EFI_MAX = 32 * 1024 * 1024"

text \<open>Appends characters up to the terminator while there is room for one more and a terminator.\<close>

definition append_cap :: "nat \<Rightarrow> u16 list \<Rightarrow> u16 list \<Rightarrow> u16 list" where
  "append_cap cap out s = out @ take (cap - 1 - length out) (cstr s)"

text \<open>The joined path; a null argument is \<open>None\<close>.\<close>

definition path_join :: "nat \<Rightarrow> u16 list option \<Rightarrow> u16 list option \<Rightarrow> u16 list option \<Rightarrow> u16 list" where
  "path_join cap pre nm suf =
     (let out = (case pre of None \<Rightarrow> [] | Some p \<Rightarrow> append_cap cap [] p);
          out = (case nm of None \<Rightarrow> out | Some n \<Rightarrow> append_cap cap (append_cap cap out [BSL]) n)
      in case suf of None \<Rightarrow> out | Some s \<Rightarrow> append_cap cap out s)"

section \<open>Directories\<close>

text \<open>The attribute and the name in an \<open>EFI_FILE_INFO\<close>.\<close>

definition FILEINFO_ATTR_OFFS :: nat where "FILEINFO_ATTR_OFFS = 72"
definition FILEINFO_FNAME_OFFS :: nat where "FILEINFO_FNAME_OFFS = 80"

definition dirent_attrs :: "u8 list \<Rightarrow> u64" where
  "dirent_attrs buf = of_le (take 8 (drop FILEINFO_ATTR_OFFS buf))"

definition dirent_name :: "u8 list \<Rightarrow> u16 list" where
  "dirent_name buf = cstr (u16s (drop FILEINFO_FNAME_OFFS buf))"

definition is_dot :: "u16 list \<Rightarrow> bool" where
  "is_dot nm \<longleftrightarrow> nm = str ''.'' \<or> nm = str ''..''"

partial_function (option) child_dirs_loop ::
  "'w firmware \<Rightarrow> handle \<Rightarrow> u16 list \<Rightarrow> u16 list list \<Rightarrow> 'w \<Rightarrow> (u16 list list \<times> 'w) option" where
  "child_dirs_loop fw v path names w =
     (let ((s, buf), w) = ReadDir fw v path 4096 w in
      if s = EFI_BUFFER_TOO_SMALL then child_dirs_loop fw v path names w
      else if s \<noteq> EFI_SUCCESS \<or> buf = [] then Some (names, w)
      else
        let fname = dirent_name buf in
        if is_dot fname \<or> fname = [] then child_dirs_loop fw v path names w
        else
          let names = names @ [take (MAX_DIRNAME_CHARS - 1) fname]
          in if length names \<ge> MAX_LEVEL_DIRS then Some (names, w)
             else child_dirs_loop fw v path names w)"

definition list_child_dirs ::
  "'w firmware \<Rightarrow> handle \<Rightarrow> u16 list \<Rightarrow> 'w \<Rightarrow> (u16 list list \<times> 'w) option" where
  "list_child_dirs fw v path w =
     (let (s, w) = SetPosition fw v path w
      in if s \<noteq> EFI_SUCCESS then Some ([], w) else child_dirs_loop fw v path [] w)"

definition lower16 :: "u16 \<Rightarrow> u16" where
  "lower16 a = (if a \<ge> ch CHR ''A'' \<and> a \<le> ch CHR ''Z'' then a - ch CHR ''A'' + ch CHR ''a'' else a)"

definition is_boot_efi :: "u16 list \<Rightarrow> bool" where
  "is_boot_efi nm \<longleftrightarrow> map lower16 nm = str ''boot.efi''"

text \<open>What the walk does with one entry of a directory.\<close>

datatype dir_step =
    End_Of_Dir
  | Skip_Entry
  | is_Boot_File: Boot_File (step_file: "u16 list")
  | is_Sub_Dir: Sub_Dir (step_dir: "u16 list")

definition bfs_entry :: "nat \<Rightarrow> nat \<Rightarrow> u16 list \<Rightarrow> nat \<Rightarrow> status \<Rightarrow> u8 list \<Rightarrow> dir_step" where
  "bfs_entry cap max_depth dir depth s buf =
     (if s = EFI_BUFFER_TOO_SMALL then Skip_Entry
      else if s \<noteq> EFI_SUCCESS \<or> buf = [] then End_Of_Dir
      else
        let nm = dirent_name buf in
        if nm = [] \<or> is_dot nm then Skip_Entry
        else if dirent_attrs buf AND 0x10 = 0 then
          if is_boot_efi nm then Boot_File (append_cap cap (append_cap cap dir [BSL]) nm)
          else Skip_Entry
        else if depth \<ge> max_depth then Skip_Entry
        else if length dir + 1 \<ge> cap then Skip_Entry
        else Sub_Dir (append_cap cap (dir @ [BSL]) nm))"

text \<open>Opens and rewinds a directory.\<close>

definition open_dir :: "'w firmware \<Rightarrow> handle \<Rightarrow> u16 list \<Rightarrow> 'w \<Rightarrow> bool \<times> 'w" where
  "open_dir fw v sub w =
     (let (so, w) = FileOpen fw v sub EFI_FILE_MODE_READ 0 w in
      if so = EFI_SUCCESS then let (s, w) = SetPosition fw v sub w in (s = EFI_SUCCESS, w)
      else (False, w))"

text \<open>The walk below the directory \<open>dir\<close>, whose listing continues where it stands.\<close>

partial_function (option) bfs_loop ::
  "'w firmware \<Rightarrow> handle \<Rightarrow> nat \<Rightarrow> nat \<Rightarrow> u16 list \<Rightarrow> nat \<Rightarrow> 'w \<Rightarrow> (u16 list option \<times> 'w) option" where
  "bfs_loop fw v cap max_depth dir depth w =
     (let ((s, buf), w) = ReadDir fw v dir 4096 w;
          step = bfs_entry cap max_depth dir depth s buf
      in
        if step = End_Of_Dir then Some (None, w)
        else if is_Boot_File step then Some (Some (step_file step), w)
        else if is_Sub_Dir step then
          let (ok, w) = open_dir fw v (step_dir step) w in
          if ok then
            Option.bind (bfs_loop fw v cap max_depth (step_dir step) (depth + 1) w) (\<lambda>(r, w).
              if r \<noteq> None then Some (r, w) else bfs_loop fw v cap max_depth dir depth w)
          else bfs_loop fw v cap max_depth dir depth w
        else bfs_loop fw v cap max_depth dir depth w)"

definition bfs_find_boot_efi ::
  "'w firmware \<Rightarrow> handle \<Rightarrow> nat \<Rightarrow> nat \<Rightarrow> 'w \<Rightarrow> (u16 list option \<times> 'w) option" where
  "bfs_find_boot_efi fw v cap max_depth w =
     (let (s, w) = SetPosition fw v [] w
      in if s \<noteq> EFI_SUCCESS then Some (None, w) else bfs_loop fw v cap max_depth [] 0 w)"

section \<open>Trying a path\<close>

definition dp_total_len :: "u8 list \<Rightarrow> nat option" where
  "dp_total_len dp = dp_walk dp 0"

definition build_file_device_path ::
  "'w firmware \<Rightarrow> handle \<Rightarrow> u16 list \<Rightarrow> 'w \<Rightarrow> (status \<times> u8 list \<times> 'w) option" where
  "build_file_device_path fw device path w =
     (let (s, hw_dp) = DevicePath fw device w
      in Option.bind
           (case (if s \<noteq> EFI_SUCCESS then None else hw_dp) of
              None \<Rightarrow> Some []
            | Some p \<Rightarrow> map_option (\<lambda>tot. take (if tot \<ge> 4 then tot - 4 else 0) p) (dp_total_len p))
           (\<lambda>prefix.
             let total_sz = length prefix + (4 + (efi_strlen16 path + 1) * 2) + 4;
                 (s, w) = AllocatePool fw total_sz w
             in Some (if s \<noteq> EFI_SUCCESS then (s, [], w)
                      else (EFI_SUCCESS, prefix @ file_path_node path @ end_node, w))))"

text \<open>Status, image and world; \<open>self\<close> is \<open>g_self_image\<close>.\<close>

definition try_path ::
  "'w firmware \<Rightarrow> handle \<Rightarrow> handle \<Rightarrow> u16 list \<Rightarrow> 'w \<Rightarrow> ((status \<times> handle) \<times> 'w) option" where
  "try_path fw self device path w =
     (let (s, w) = FileOpen fw device path EFI_FILE_MODE_READ 0 w in
      if s \<noteq> EFI_SUCCESS then Some ((s, 0), w)
      else
        let (s, file_size) = FileSize fw device path w in
        if s \<noteq> EFI_SUCCESS then Some ((s, 0), w)
        else if file_size = 0 \<or> file_size > BOOT_EFI_MAX then Some ((EFI_UNSUPPORTED, 0), w)
        else
          let (s, w) = AllocatePool fw file_size w in
          if s \<noteq> EFI_SUCCESS then Some ((s, 0), w)
          else
            let (s, buf) = FileRead fw device path file_size w in
            if s \<noteq> EFI_SUCCESS \<or> length buf \<noteq> file_size
            then Some ((if s = EFI_SUCCESS then EFI_LOAD_ERROR else s, 0), FreePool fw w)
            else
              Option.bind (build_file_device_path fw device path w) (\<lambda>(sdp, dp, w).
                let dp = (if sdp = EFI_SUCCESS then Some dp else None);
                    ((s, loaded), w) = LoadImage fw self dp (Some buf) w;
                    w = FreePool fw w
                in Some (if s \<noteq> EFI_SUCCESS then ((s, 0), if dp = None then w else FreePool fw w)
                         else ((EFI_SUCCESS, loaded), w))))"

fun try_paths ::
  "'w firmware \<Rightarrow> handle \<Rightarrow> handle \<Rightarrow> u16 list list \<Rightarrow> 'w \<Rightarrow> ((status \<times> handle) \<times> 'w) option" where
  "try_paths fw self device [] w = Some ((EFI_NOT_FOUND, 0), w)"
| "try_paths fw self device (p # ps) w =
     Option.bind (try_path fw self device p w) (\<lambda>((s, loaded), w).
       if s = EFI_SUCCESS then Some ((EFI_SUCCESS, loaded), w) else try_paths fw self device ps w)"

text \<open>The path in the blessed-file information of a volume.\<close>

function bless_walk :: "nat \<Rightarrow> u8 list \<Rightarrow> u16 list \<Rightarrow> u16 list" where
  "bless_walk cap p out =
     (if length p < 4 then out
      else if dp_node_len p < 4 \<or> dp_node_len p > length p then out
      else if p ! 0 = 0x7f \<and> p ! 1 = 0xff then out
      else bless_walk cap (drop (dp_node_len p) p)
             (if p ! 0 = 4 \<and> p ! 1 = 4
              then append_cap cap out (u16s (take (dp_node_len p - 4) (drop 4 p))) else out))"
  by pat_completeness auto
termination by (relation "measure (\<lambda>(_, p, _). length p)") auto

declare bless_walk.simps [simp del]

definition apple_bless_get_path :: "'w firmware \<Rightarrow> handle \<Rightarrow> nat \<Rightarrow> 'w \<Rightarrow> status \<times> u16 list" where
  "apple_bless_get_path fw v out_cap w =
     (if out_cap < 2 then (EFI_INVALID_PARAMETER, [])
      else
        let (s, info) = VolumeInfo fw v APPLE_BLESSED_SYSTEM_FILE_INFO_GUID 1024 w in
        if s \<noteq> EFI_SUCCESS \<or> length info < 4 then (EFI_NOT_FOUND, [])
        else
          let out = bless_walk out_cap info []
          in (if out \<noteq> [] then EFI_SUCCESS else EFI_NOT_FOUND, out))"

text \<open>The role flags, printed only.\<close>

definition apple_apfs_volume_role :: "'w firmware \<Rightarrow> handle \<Rightarrow> 'w \<Rightarrow> u32" where
  "apple_apfs_volume_role fw v w =
     (let (s, info) = VolumeInfo fw v APPLE_APFS_VOLUME_INFO_GUID 512 w
      in if s \<noteq> EFI_SUCCESS \<or> length info < 24 then 0 else of_le (take 4 (drop 4 info)))"

section \<open>One volume\<close>

text \<open>The path of the third tier, built in place.\<close>

definition level2_path :: "u16 list \<Rightarrow> u16 list \<Rightarrow> u16 list" where
  "level2_path nm nm2 =
     (let cap = FULL_PATH_CAP;
          out = append_cap cap [BSL] nm @ [BSL];
          out = append_cap cap out nm2
      in append_cap cap out MACOS_BOOT_SUFFIX)"

fun try_subdirs ::
  "'w firmware \<Rightarrow> handle \<Rightarrow> handle \<Rightarrow> u16 list list \<Rightarrow> 'w \<Rightarrow> ((status \<times> handle) \<times> 'w) option" where
  "try_subdirs fw self device [] w = Some ((EFI_NOT_FOUND, 0), w)"
| "try_subdirs fw self device (nm # nms) w =
     Option.bind
       (try_paths fw self device
          (map (\<lambda>alt. path_join FULL_PATH_CAP (Some [BSL]) (Some nm) (Some alt)) MACOS_ALT_PATHS) w)
       (\<lambda>((s, loaded), w).
         if s = EFI_SUCCESS then Some ((EFI_SUCCESS, loaded), w)
         else
           let dir_only = path_join 128 (Some [BSL]) (Some nm) (Some []);
               (s, w) = FileOpen fw device dir_only EFI_FILE_MODE_READ 0 w
           in
             if s \<noteq> EFI_SUCCESS then try_subdirs fw self device nms w
             else
               Option.bind (list_child_dirs fw device dir_only w) (\<lambda>(names2, w).
                 Option.bind (try_paths fw self device (map (level2_path nm) names2) w)
                   (\<lambda>((s, loaded), w).
                     if s = EFI_SUCCESS then Some ((EFI_SUCCESS, loaded), w)
                     else try_subdirs fw self device nms w)))"

definition try_open_candidates ::
  "'w firmware \<Rightarrow> handle \<Rightarrow> handle \<Rightarrow> 'w \<Rightarrow> ((status \<times> handle) \<times> 'w) option" where
  "try_open_candidates fw self device w =
     (let (bs, full_path) = apple_bless_get_path fw device FULL_PATH_CAP w
      in Option.bind
           (try_paths fw self device ((if bs = EFI_SUCCESS then [full_path] else []) @ MACOS_ALT_PATHS) w)
           (\<lambda>((s, loaded), w).
             if s = EFI_SUCCESS then Some ((EFI_SUCCESS, loaded), w)
             else
               Option.bind (list_child_dirs fw device [] w) (\<lambda>(names, w).
                 Option.bind (try_subdirs fw self device names w) (\<lambda>((s, loaded), w).
                   if s = EFI_SUCCESS then Some ((EFI_SUCCESS, loaded), w)
                   else
                     Option.bind (bfs_find_boot_efi fw device 512 4 w) (\<lambda>(found, w).
                       case found of
                         None \<Rightarrow> Some ((EFI_NOT_FOUND, 0), w)
                       | Some p \<Rightarrow> if p = [] then Some ((EFI_NOT_FOUND, 0), w)
                                   else try_paths fw self device [p] w)))))"

section \<open>Every volume\<close>

text \<open>The drivers are connected to every handle first.\<close>

definition connect_all_handles :: "'w firmware \<Rightarrow> 'w \<Rightarrow> 'w" where
  "connect_all_handles fw w =
     (let (s, handles) = AllHandles fw w in
      if s \<noteq> EFI_SUCCESS then w
      else FreePool fw (fold (\<lambda>h w. snd (ConnectController fw h w)) handles w))"

text \<open>The first three names of the root directory are printed on the first pass.\<close>

partial_function (option) peek_loop :: "'w firmware \<Rightarrow> handle \<Rightarrow> u16 list list \<Rightarrow> 'w \<Rightarrow> (u16 list list \<times> 'w) option" where
  "peek_loop fw v names w =
     (if length names \<ge> 3 then Some (names, w)
      else
        let ((s, buf), w) = ReadDir fw v [] 4096 w in
        if s = EFI_BUFFER_TOO_SMALL then peek_loop fw v names w
        else if s \<noteq> EFI_SUCCESS \<or> buf = [] then Some (names, w)
        else if is_dot (dirent_name buf) then peek_loop fw v names w
        else peek_loop fw v (names @ [take 12 (dirent_name buf)]) w)"

definition peek :: "'w firmware \<Rightarrow> handle \<Rightarrow> 'w \<Rightarrow> 'w option" where
  "peek fw v w =
     (let (s, w) = SetPosition fw v [] w
      in if s \<noteq> EFI_SUCCESS then Some w else map_option snd (peek_loop fw v [] w))"

text \<open>One pass over the volumes; the first one leaves out the own device and removable media.\<close>

definition left_out :: "'w firmware \<Rightarrow> handle \<Rightarrow> handle \<Rightarrow> 'w \<Rightarrow> bool" where
  "left_out fw own_dev h w \<longleftrightarrow>
     h = own_dev \<or> (let (s, removable) = IsRemovable fw h w in s = EFI_SUCCESS \<and> removable)"

fun find_pass ::
  "'w firmware \<Rightarrow> handle \<Rightarrow> handle \<Rightarrow> bool \<Rightarrow> handle list \<Rightarrow> 'w \<Rightarrow> ((status \<times> handle \<times> handle) \<times> 'w) option" where
  "find_pass fw self own_dev first [] w = Some ((EFI_NOT_FOUND, 0, 0), w)"
| "find_pass fw self own_dev first (h # hs) w =
     (if first \<and> left_out fw own_dev h w then find_pass fw self own_dev first hs w
      else if HandleSfs fw h w \<noteq> EFI_SUCCESS then find_pass fw self own_dev first hs w
      else if OpenVolume fw h w \<noteq> EFI_SUCCESS then find_pass fw self own_dev first hs w
      else
        Option.bind (if first then peek fw h w else Some w) (\<lambda>w.
          Option.bind (try_open_candidates fw self h w) (\<lambda>((s, loaded), w).
            if s = EFI_SUCCESS then Some ((EFI_SUCCESS, h, loaded), w)
            else find_pass fw self own_dev first hs w)))"

text \<open>Status, device and image.\<close>

definition find_macos_boot ::
  "'w firmware \<Rightarrow> handle \<Rightarrow> 'w \<Rightarrow> ((status \<times> handle \<times> handle) \<times> 'w) option" where
  "find_macos_boot fw img w =
     (let w = connect_all_handles fw w;
          own_dev = loaded_device fw img w;
          ((s, handles), w) = locate_sfs fw w
      in
        if s \<noteq> EFI_SUCCESS then Some ((s, 0, 0), w)
        else
          Option.bind (find_pass fw img own_dev True handles w) (\<lambda>((s, dev, loaded), w).
            map_option (\<lambda>(r, w). (r, FreePool fw w))
              (if s = EFI_SUCCESS then Some ((s, dev, loaded), w)
               else find_pass fw img own_dev False handles w)))"

section \<open>The boot order\<close>

definition upper_hex_digit :: "u16 \<Rightarrow> u16" where
  "upper_hex_digit v = str ''0123456789ABCDEF'' ! unat (v AND 0xF)"

definition boot_option_name :: "u16 \<Rightarrow> u16 list" where
  "boot_option_name slot =
     str ''Boot'' @ map (\<lambda>k. upper_hex_digit (drop_bit k slot)) [12, 8, 4, 0]"

text \<open>The number of characters of the description, as far as the walk goes.\<close>

function desc_len :: "u8 list \<Rightarrow> nat \<Rightarrow> nat" where
  "desc_len opt di =
     (if 6 + (di + 1) * 2 < length opt \<and> (of_le (take 2 (drop (6 + 2 * di) opt)) :: u16) \<noteq> 0
      then desc_len opt (di + 1) else di)"
  by pat_completeness auto
termination by (relation "measure (\<lambda>(opt, di). length opt - di)") auto

declare desc_len.simps [simp del]

definition byte_at :: "u8 list \<Rightarrow> nat \<Rightarrow> u8" where
  "byte_at p i = (if i < length p then p ! i else 0)"

text \<open>The file path in the first \<open>r\<close> bytes of a device path; bytes behind the variable read as 0.\<close>

function option_file_path :: "u8 list \<Rightarrow> nat \<Rightarrow> u16 list \<Rightarrow> u16 list" where
  "option_file_path p r fp =
     (let nlen = unat (ucast (byte_at p 2) OR push_bit 8 (ucast (byte_at p 3)) :: u16) in
      if r = 0 then fp
      else if nlen < 4 then fp
      else if byte_at p 0 = 0x7f \<and> byte_at p 1 = 0xff then fp
      else option_file_path (drop nlen p) (r - nlen)
             (if byte_at p 0 = 4 \<and> byte_at p 1 = 4
              then append_cap 256 fp (u16s (take (nlen - 4) (drop 4 p))) else fp))"
  by pat_completeness auto
termination by (relation "measure (\<lambda>(_, r, _). r)") auto

declare option_file_path.simps [simp del]

text \<open>The file a boot option names; \<open>None\<close> for an option that is skipped.\<close>

definition boot_option_file :: "u8 list \<Rightarrow> u16 list option" where
  "boot_option_file opt =
     (if length opt < 8 then None
      else
        let fpl_len = unat (ucast (opt ! 4) OR push_bit 8 (ucast (opt ! 5)) :: u16);
            desc = u16s (drop 6 opt);
            desc_bytes = (desc_len opt 0 + 1) * 2
        in
          if 6 + desc_bytes + fpl_len > length opt then None
          else if u16_contains (Some desc) (Some (str ''USB'')) then None
          else if u16_contains (Some desc) (Some (str ''BRR'')) \<or> u16_contains (Some desc) (Some (str ''mask''))
          then None
          else
            let fp = option_file_path (drop (6 + desc_bytes) opt) fpl_len []
            in if fp = [] then None else Some fp)"

text \<open>The first volume whose file of that name loads; the status is that of the last load.\<close>

fun load_from_volumes ::
  "'w firmware \<Rightarrow> handle \<Rightarrow> u16 list \<Rightarrow> handle list \<Rightarrow> status \<Rightarrow> 'w \<Rightarrow> (status \<times> handle) \<times> 'w" where
  "load_from_volumes fw self fp [] load_s w = ((load_s, 0), w)"
| "load_from_volumes fw self fp (h # hs) load_s w =
     (if HandleSfs fw h w \<noteq> EFI_SUCCESS then load_from_volumes fw self fp hs load_s w
      else if OpenVolume fw h w \<noteq> EFI_SUCCESS then load_from_volumes fw self fp hs load_s w
      else
        let (os, w) = FileOpen fw h fp EFI_FILE_MODE_READ 0 w in
        if os \<noteq> EFI_SUCCESS then load_from_volumes fw self fp hs load_s w
        else
          let (os, fs) = FileSize fw h fp w in
          if os \<noteq> EFI_SUCCESS then load_from_volumes fw self fp hs load_s w
          else if fs = 0 \<or> fs > BOOT_EFI_MAX then load_from_volumes fw self fp hs load_s w
          else
            let (os, w) = AllocatePool fw fs w in
            if os \<noteq> EFI_SUCCESS then load_from_volumes fw self fp hs load_s w
            else
              let (os, buf) = FileRead fw h fp fs w in
              if os \<noteq> EFI_SUCCESS \<or> length buf \<noteq> fs
              then load_from_volumes fw self fp hs load_s (FreePool fw w)
              else
                let ((load_s, new_image), w) = LoadImage fw self None (Some buf) w;
                    w = FreePool fw w
                in if load_s = EFI_SUCCESS then ((EFI_SUCCESS, new_image), w)
                   else load_from_volumes fw self fp hs load_s w)"

text \<open>The boot options in order; the first that loads is started, and its status returned.\<close>

fun try_boot_options :: "'w firmware \<Rightarrow> handle \<Rightarrow> u16 list \<Rightarrow> 'w \<Rightarrow> status \<times> 'w" where
  "try_boot_options fw self [] w = (EFI_NOT_FOUND, w)"
| "try_boot_options fw self (slot # slots) w =
     (let (s, opt) = GetVariable fw (boot_option_name slot) EFI_GLOBAL_GUID 4096 w in
      if s \<noteq> EFI_SUCCESS then try_boot_options fw self slots w
      else
        (case boot_option_file opt of
           None \<Rightarrow> try_boot_options fw self slots w
         | Some fp \<Rightarrow>
             let ((ls, hs), w) = locate_sfs fw w in
             if ls \<noteq> EFI_SUCCESS then try_boot_options fw self slots w
             else
               let ((load_s, new_image), w) = load_from_volumes fw self fp hs EFI_NOT_FOUND w;
                   w = FreePool fw w
               in if load_s \<noteq> EFI_SUCCESS then try_boot_options fw self slots w
                  else StartImage fw new_image w))"

definition try_bootorder_chainload :: "'w firmware \<Rightarrow> handle \<Rightarrow> 'w \<Rightarrow> status \<times> 'w" where
  "try_bootorder_chainload fw self w =
     (let (s, order) = GetVariable fw BOOT_ORDER EFI_GLOBAL_GUID 512 w
      in if s \<noteq> EFI_SUCCESS \<or> length order < 2 then (EFI_NOT_FOUND, w)
         else try_boot_options fw self (u16s order) w)"

definition chainload_macos :: "'w firmware \<Rightarrow> handle \<Rightarrow> 'w \<Rightarrow> status \<times> 'w" where
  "chainload_macos fw loaded_image w =
     (if loaded_image = 0 then (EFI_INVALID_PARAMETER, w) else StartImage fw loaded_image w)"

section \<open>What is started\<close>

text \<open>
  An image that was loaded from the contents of a file of the device, read whole, of between 1
  byte and 32 MiB, with the shim as its parent.
\<close>

definition loaded_from :: "'w firmware \<Rightarrow> handle \<Rightarrow> handle \<Rightarrow> handle \<Rightarrow> bool" where
  "loaded_from fw self device image_handle \<longleftrightarrow>
     (\<exists>path w1 w2 w3 w4 dp buf.
        FileSize fw device path w1 = (EFI_SUCCESS, length buf) \<and> 0 < length buf \<and> length buf \<le> BOOT_EFI_MAX \<and>
        FileRead fw device path (length buf) w2 = (EFI_SUCCESS, buf) \<and>
        LoadImage fw self dp (Some buf) w3 = ((EFI_SUCCESS, image_handle), w4))"

lemma loaded_fromI:
  "FileSize fw device path w1 = (EFI_SUCCESS, length buf) \<Longrightarrow> 0 < length buf \<Longrightarrow> length buf \<le> BOOT_EFI_MAX \<Longrightarrow>
    FileRead fw device path (length buf) w2 = (EFI_SUCCESS, buf) \<Longrightarrow>
    LoadImage fw self dp (Some buf) w3 = ((EFI_SUCCESS, i), w4) \<Longrightarrow> loaded_from fw self device i"
  unfolding loaded_from_def by blast

lemma try_path_sound:
  assumes "try_path fw self device path w = Some ((EFI_SUCCESS, i), w')"
  shows "loaded_from fw self device i"
proof -
  obtain s sz where fs: "FileSize fw device path (snd (FileOpen fw device path EFI_FILE_MODE_READ 0 w)) = (s, sz)"
    by (metis surj_pair)
  have s: "s = EFI_SUCCESS" and sz: "0 < sz" "sz \<le> BOOT_EFI_MAX"
    using assms fs by (auto simp: try_path_def split_def Let_def split: if_splits)
  obtain w2 s2 buf where rd: "FileRead fw device path sz w2 = (s2, buf)" "s2 = EFI_SUCCESS" "length buf = sz"
    and rest: "\<exists>dp w3 w4. LoadImage fw self dp (Some buf) w3 = ((EFI_SUCCESS, i), w4)"
  proof -
    define w2 where "w2 = snd (AllocatePool fw sz (snd (FileOpen fw device path EFI_FILE_MODE_READ 0 w)))"
    obtain s2 buf where rd: "FileRead fw device path sz w2 = (s2, buf)" by (metis surj_pair)
    have "s2 = EFI_SUCCESS \<and> length buf = sz \<and>
        (\<exists>dp w3. fst (LoadImage fw self dp (Some buf) w3) = (EFI_SUCCESS, i))"
      using assms fs rd
      by (auto simp: try_path_def split_def Let_def bind_eq_Some_conv prod_eq_iff simp flip: w2_def
          split: if_splits)
    then show ?thesis using that rd by (metis prod.collapse)
  qed
  then show ?thesis using fs s sz by (auto intro!: loaded_fromI)
qed

lemma try_paths_sound:
  assumes "try_paths fw self device ps w = Some ((EFI_SUCCESS, i), w')"
  shows "loaded_from fw self device i"
  using assms
proof (induction ps arbitrary: w)
  case (Cons p ps)
  then show ?case
    by (auto simp: bind_eq_Some_conv split: if_splits intro: try_path_sound)
qed simp

lemma try_subdirs_sound:
  assumes "try_subdirs fw self device nms w = Some ((EFI_SUCCESS, i), w')"
  shows "loaded_from fw self device i"
  using assms
proof (induction nms arbitrary: w)
  case (Cons nm nms)
  then show ?case
    by (auto simp: bind_eq_Some_conv Let_def split: if_splits prod.splits intro: try_paths_sound)
qed simp

lemma try_open_candidates_sound:
  assumes "try_open_candidates fw self device w = Some ((EFI_SUCCESS, i), w')"
  shows "loaded_from fw self device i"
  using assms
  by (auto simp: try_open_candidates_def bind_eq_Some_conv Let_def split: if_splits prod.splits option.splits
      intro: try_paths_sound try_subdirs_sound simp del: try_paths.simps)

lemma find_pass_sound:
  assumes "find_pass fw self own first hs w = Some ((EFI_SUCCESS, dev, i), w')"
  shows "loaded_from fw self dev i \<and> dev \<in> set hs \<and> (first \<longrightarrow> (\<exists>w1. \<not> left_out fw own dev w1))"
  using assms
proof (induction hs arbitrary: w)
  case (Cons h hs)
  show ?case
  proof (cases "first \<and> left_out fw own h w \<or> HandleSfs fw h w \<noteq> EFI_SUCCESS \<or> OpenVolume fw h w \<noteq> EFI_SUCCESS")
    case True
    then have "find_pass fw self own first hs w = Some ((EFI_SUCCESS, dev, i), w')"
      using Cons.prems by (auto split: if_splits)
    then show ?thesis using Cons.IH by auto
  next
    case False
    then obtain w1 s l w2 where "try_open_candidates fw self h w1 = Some ((s, l), w2)"
      "(if s = EFI_SUCCESS then Some ((EFI_SUCCESS, h, l), w2) else find_pass fw self own first hs w2) =
        Some ((EFI_SUCCESS, dev, i), w')"
      using Cons.prems by (auto simp: bind_eq_Some_conv)
    then show ?thesis
      using False Cons.IH [of w2] try_open_candidates_sound by (auto split: if_splits)
  qed
qed simp

text \<open>C16: the shim starts only what it has read: an image found by the search was loaded from the whole
  contents of a file, of at most 32 MiB, of the device it reports, one of the file system
  volumes; and it is the shim's own device or a removable one only after a pass over all others
  has found nothing.\<close>

theorem find_macos_boot_sound:
  assumes "find_macos_boot fw img w = Some ((EFI_SUCCESS, dev, i), w')"
  shows "loaded_from fw img dev i \<and>
    (let w0 = connect_all_handles fw w; own = loaded_device fw img w0
     in \<exists>handles w1. locate_sfs fw w0 = ((EFI_SUCCESS, handles), w1) \<and> dev \<in> set handles \<and>
       ((\<forall>w2. left_out fw own dev w2) \<longrightarrow>
         (\<exists>s d l w2. s \<noteq> EFI_SUCCESS \<and> find_pass fw img own True handles w1 = Some ((s, d, l), w2))))"
proof -
  define w0 where "w0 = connect_all_handles fw w"
  define own where "own = loaded_device fw img w0"
  obtain s handles w1 where l: "locate_sfs fw w0 = ((s, handles), w1)" by (metis surj_pair)
  have s: "s = EFI_SUCCESS"
    using assms l by (auto simp: find_macos_boot_def Let_def simp flip: w0_def split: if_splits)
  obtain s1 d1 l1 w2 where p1: "find_pass fw img own True handles w1 = Some ((s1, d1, l1), w2)"
    using assms l s by (auto simp: find_macos_boot_def Let_def bind_eq_Some_conv simp flip: w0_def own_def)
  have "loaded_from fw img dev i \<and> dev \<in> set handles \<and> ((\<forall>w2. left_out fw own dev w2) \<longrightarrow> s1 \<noteq> EFI_SUCCESS)"
  proof (cases "s1 = EFI_SUCCESS")
    case True
    then have "d1 = dev" "l1 = i"
      using assms l s p1 by (auto simp: find_macos_boot_def Let_def simp flip: w0_def own_def)
    then show ?thesis using find_pass_sound [of fw img own True handles w1 dev i w2] p1 True by auto
  next
    case False
    then obtain w3 where "find_pass fw img own False handles w2 = Some ((EFI_SUCCESS, dev, i), w3)"
      using assms l s p1 by (auto simp: find_macos_boot_def Let_def simp flip: w0_def own_def)
    then show ?thesis using find_pass_sound [of fw img own False handles w2 dev i w3] False by auto
  qed
  then show ?thesis using l s p1 by (auto simp: Let_def simp flip: w0_def own_def)
qed

text \<open>A machine whose only volume, the removable one the shim was started from, has the file.\<close>

definition only_stick :: machine where
  "only_stick = blank_machine\<lparr>m_volumes := [1], m_files := [((1, MACOS_ALT_PATHS ! 0), [1, 2, 3])]\<rparr>"

theorem find_macos_boot_sound_witness:
  "\<exists>w'. find_macos_boot bench 7 only_stick = Some ((EFI_SUCCESS, 1, 9), w') \<and> loaded_from bench 7 1 9 \<and>
    (\<exists>s d l w2. s \<noteq> EFI_SUCCESS \<and> find_pass bench 7 1 True [1] only_stick = Some ((s, d, l), w2))"
proof -
  define fs where "fs = [((1 :: nat, MACOS_ALT_PATHS ! 0), [1 :: u8, 2, 3])]"
  have alt: "MACOS_ALT_PATHS = MACOS_ALT_PATHS ! 0 # tl MACOS_ALT_PATHS" by (simp add: MACOS_ALT_PATHS_def)
  have files: "m_files only_stick = fs" "m_volumes only_stick = [1]" by (simp_all add: only_stick_def fs_def)
  have dp: "dp_total_len [1, 1, 6, 0, 0, 0, 0x7f, 0xff, 4, 0] \<noteq> None"
    by (simp add: dp_total_len_def dp_walk.simps dp_node_len_def dp_is_end_def)
  have path: "\<exists>w'. try_path bench 7 1 (MACOS_ALT_PATHS ! 0) only_stick = Some ((EFI_SUCCESS, 9), w')"
    using dp by (auto simp: try_path_def build_file_device_path_def bench_simps files fs_def BOOT_EFI_MAX_def)
  then have "\<exists>w'. try_open_candidates bench 7 1 only_stick = Some ((EFI_SUCCESS, 9), w')"
    unfolding try_open_candidates_def
    by (subst alt) (auto simp: apple_bless_get_path_def bench_simps FULL_PATH_CAP_def)
  moreover have own: "loaded_device bench 7 only_stick = 1" "connect_all_handles bench only_stick = only_stick"
    "locate_sfs bench only_stick = ((EFI_SUCCESS, [1]), only_stick)"
    by (simp_all add: loaded_device_def connect_all_handles_def locate_sfs_def bench_simps files)
  moreover have "\<not> left_out bench 1 1 w \<Longrightarrow> False" for w by (simp add: left_out_def)
  ultimately obtain w' where f: "find_macos_boot bench 7 only_stick = Some ((EFI_SUCCESS, 1, 9), w')"
    by (auto simp: find_macos_boot_def bench_simps left_out_def)
  show ?thesis
    using f find_macos_boot_sound [OF f] own by (auto simp: left_out_def)
qed

section \<open>The own entry in the boot order\<close>

lemma u16s_Nil [simp]: "u16s [] = []"
  by (simp add: u16s_def)

lemma u16s_Cons2: "u16s (a # b # bs) = of_le [a, b] # u16s bs"
proof -
  have "[0..<Suc (length bs div 2)] = 0 # map Suc [0..<length bs div 2]"
    by (simp add: upt_conv_Cons map_Suc_upt del: upt_Suc)
  then show ?thesis by (simp add: u16s_def o_def)
qed

lemma of_le_pair: "(of_le [ucast (c :: u16), ucast (drop_bit 8 c)] :: u16) = c"
  using of_le_to_le_take [of 2 c] by (simp add: numeral_2_eq_2 take_bit_word_eq_self)

lemma u16s_utf16: "u16s (utf16_bytes s @ bs) = s @ u16s bs"
  by (induction s) (simp_all add: utf16_bytes_def numeral_2_eq_2 u16s_Cons2 of_le_pair del: of_le.simps)

text \<open>The shim does not start itself: the boot option the installation registers is one the fallback over
  the boot order skips, for every device path, because of the word in its description.\<close>

theorem own_entry_skipped: "boot_option_file (load_option full_dp) = None"
proof -
  define desc where "desc = u16s (drop 6 (load_option full_dp))"
  have "desc = BOOT_DESC @ 0 # u16s full_dp"
    by (simp add: desc_def load_option_def u16s_utf16)
  then have c: "cstr desc = BOOT_DESC"
    by (simp add: cstr_idem BOOT_DESC_def)
  have "sublist (str ''mask'') BOOT_DESC"
    unfolding sublist_def
    by (intro exI [of _ "str ''BizarreRamRepair bad-RAM ''"] exI [of _ "[]"]) (simp add: BOOT_DESC_def)
  then have "u16_contains (Some desc) (Some (str ''mask''))"
    by (simp add: u16_contains_def scan_for_sublist c) (simp add: BOOT_DESC_def)
  then show ?thesis by (auto simp: boot_option_file_def Let_def simp flip: desc_def)
qed

text \<open>
  The name under which the fallback looks an option up has upper-case digits, the one under which
  the installation stores it lower-case ones: beyond slot \<open>0x109\<close> they differ.
\<close>

lemma boot_names_differ:
  "boot_varname 0x10A = str ''Boot010a''" "boot_option_name 0x10A = str ''Boot010A''"
  by (simp_all add: boot_varname_def efi_fmt_hex_def hex_rev.simps hex_digit_def boot_option_name_def
      upper_hex_digit_def)

text \<open>The paths of the second tier begin with two backslashes.\<close>

lemma tier2_path:
  assumes "0 \<notin> set nm" "0 \<notin> set alt" "length nm + length alt < 500"
  shows "path_join FULL_PATH_CAP (Some [BSL]) (Some nm) (Some alt) = BSL # BSL # nm @ alt"
  using assms by (simp add: path_join_def append_cap_def cstr_idem FULL_PATH_CAP_def)

section \<open>What the search leaves alone\<close>

lemma search_basic:
  assumes "search_frame fw view"
  shows "view (snd (AllocatePool fw n w)) = view w" "view (FreePool fw w) = view w"
    "view (efi_stall_ms fw ms w) = view w" "view (snd (FileOpen fw v p m a w)) = view w"
    "view (snd (ConnectController fw h w)) = view w" "view (snd (SetPosition fw v p w)) = view w"
    "view (snd (ReadDir fw v p n w)) = view w" "view (snd (LoadImage fw h dp src w)) = view w"
  using assms by (simp_all add: search_frame_def efi_stall_ms_def)

text \<open>The same, as what a call that is named by its result leaves.\<close>

lemma search_basic_eq:
  assumes "search_frame fw view"
  shows "AllocatePool fw n w = (s, w') \<Longrightarrow> view w' = view w" "FileOpen fw v p m a w = (s, w') \<Longrightarrow> view w' = view w"
    "ConnectController fw h w = (s, w') \<Longrightarrow> view w' = view w" "SetPosition fw v p w = (s, w') \<Longrightarrow> view w' = view w"
    "ReadDir fw v p n w = (r, w') \<Longrightarrow> view w' = view w" "LoadImage fw h dp src w = (l, w') \<Longrightarrow> view w' = view w"
  using search_basic [OF assms] by (metis snd_conv)+

lemma child_dirs_loop_view:
  assumes "search_frame fw view" "child_dirs_loop fw v path names w = Some r"
  shows "view (snd r) = view w"
proof -
  have "search_frame fw view \<longrightarrow> view (snd r) = view w"
    using assms(2)
  proof (rule child_dirs_loop.raw_induct [where P = "\<lambda>fw v path names w r. search_frame fw view \<longrightarrow> view (snd r) = view w", rotated])
    fix f :: "'a firmware \<Rightarrow> _" and fw v path names w r
    assume IH: "\<And>fw v path names w r. f fw v path names w = Some r \<Longrightarrow> search_frame fw view \<longrightarrow> view (snd r) = view w"
      and run: "(let ((s, buf), w) = ReadDir fw v path 4096 w in
      if s = EFI_BUFFER_TOO_SMALL then f fw v path names w
      else if s \<noteq> EFI_SUCCESS \<or> buf = [] then Some (names, w)
      else
        let fname = dirent_name buf in
        if is_dot fname \<or> fname = [] then f fw v path names w
        else
          let names = names @ [take (MAX_DIRNAME_CHARS - 1) fname]
          in if length names \<ge> MAX_LEVEL_DIRS then Some (names, w)
             else f fw v path names w) = Some r"
    obtain s buf w1 where rd: "ReadDir fw v path 4096 w = ((s, buf), w1)" by (metis surj_pair)
    have "r = (fst r, w1) \<or> (\<exists>names. f fw v path names w1 = Some r)"
      using run by (auto simp: rd Let_def split: if_splits)
    then show "search_frame fw view \<longrightarrow> view (snd r) = view w"
      using IH search_basic_eq(5) [OF _ rd] by (metis snd_conv)
  qed
  with assms(1) show ?thesis by simp
qed


lemma list_child_dirs_view:
  assumes "search_frame fw view" "list_child_dirs fw v path w = Some r"
  shows "view (snd r) = view w"
proof -
  obtain s w1 where sp: "SetPosition fw v path w = (s, w1)" by (metis surj_pair)
  have "r = ([], w1) \<or> child_dirs_loop fw v path [] w1 = Some r"
    using assms(2) by (auto simp: list_child_dirs_def sp split: if_splits)
  then show ?thesis
    using child_dirs_loop_view [OF assms(1)] search_basic_eq(4) [OF assms(1) sp] by (metis snd_conv)
qed

lemma open_dir_view:
  assumes "search_frame fw view" "open_dir fw v sub w = (ok, w')"
  shows "view w' = view w"
proof -
  have "view (snd (open_dir fw v sub w)) = view w"
    by (simp add: open_dir_def split_def Let_def search_basic [OF assms(1)])
  then show ?thesis by (simp add: assms(2))
qed

lemma bfs_loop_view:
  assumes "search_frame fw view" "bfs_loop fw v cap max_depth dir depth w = Some r"
  shows "view (snd r) = view w"
proof -
  have "search_frame fw view \<longrightarrow> view (snd r) = view w"
    using assms(2)
  proof (rule bfs_loop.raw_induct [where P = "\<lambda>fw v cap md dir depth w r. search_frame fw view \<longrightarrow> view (snd r) = view w", rotated])
    fix f :: "'a firmware \<Rightarrow> _" and fw v cap max_depth dir depth w r
    assume IH: "\<And>fw v cap md dir depth w r. f fw v cap md dir depth w = Some r \<Longrightarrow> search_frame fw view \<longrightarrow> view (snd r) = view w"
      and run: "(let ((s, buf), w) = ReadDir fw v dir 4096 w;
          step = bfs_entry cap max_depth dir depth s buf
      in
        if step = End_Of_Dir then Some (None, w)
        else if is_Boot_File step then Some (Some (step_file step), w)
        else if is_Sub_Dir step then
          let (ok, w) = open_dir fw v (step_dir step) w in
          if ok then
            Option.bind (f fw v cap max_depth (step_dir step) (depth + 1) w) (\<lambda>(r, w).
              if r \<noteq> None then Some (r, w) else f fw v cap max_depth dir depth w)
          else f fw v cap max_depth dir depth w
        else f fw v cap max_depth dir depth w) = Some r"
    obtain s buf w1 where rd: "ReadDir fw v dir 4096 w = ((s, buf), w1)" by (metis surj_pair)
    define step where "step = bfs_entry cap max_depth dir depth s buf"
    obtain ok w2 where od: "open_dir fw v (step_dir step) w1 = (ok, w2)" by (metis surj_pair)
    have "r = (fst r, w1) \<or> f fw v cap max_depth dir depth w1 = Some r \<or> f fw v cap max_depth dir depth w2 = Some r \<or>
        (\<exists>q w3. f fw v cap max_depth (step_dir step) (depth + 1) w2 = Some (q, w3) \<and>
          (r = (q, w3) \<or> f fw v cap max_depth dir depth w3 = Some r))"
      using run unfolding rd Let_def prod.case od step_def [symmetric]
      by (cases step; cases ok) (simp_all add: bind_eq_Some_conv od split: if_splits prod.splits, auto)
    then show "search_frame fw view \<longrightarrow> view (snd r) = view w"
    proof (elim disjE exE conjE, goal_cases)
      case 1
      then show ?case using search_basic_eq(5) [OF _ rd] by (metis snd_conv)
    next
      case 2
      then show ?case using IH search_basic_eq(5) [OF _ rd] by metis
    next
      case 3
      then show ?case using IH search_basic_eq(5) [OF _ rd] open_dir_view [OF _ od] by metis
    next
      case (4 q w3)
      then show ?case using IH [OF 4(1)] search_basic_eq(5) [OF _ rd] open_dir_view [OF _ od] by (metis snd_conv)
    next
      case (5 q w3)
      then show ?case using IH [OF 5(1)] IH [OF 5(2)] search_basic_eq(5) [OF _ rd] open_dir_view [OF _ od]
        by (metis snd_conv)
    qed
  qed
  with assms(1) show ?thesis by simp
qed

lemma peek_loop_view:
  assumes "search_frame fw view" "peek_loop fw v names w = Some r"
  shows "view (snd r) = view w"
proof -
  have "search_frame fw view \<longrightarrow> view (snd r) = view w"
    using assms(2)
  proof (rule peek_loop.raw_induct [where P = "\<lambda>fw v names w r. search_frame fw view \<longrightarrow> view (snd r) = view w", rotated])
    fix f :: "'a firmware \<Rightarrow> _" and fw v names w r
    assume IH: "\<And>fw v names w r. f fw v names w = Some r \<Longrightarrow> search_frame fw view \<longrightarrow> view (snd r) = view w"
      and run: "(if length names \<ge> 3 then Some (names, w)
      else
        let ((s, buf), w) = ReadDir fw v [] 4096 w in
        if s = EFI_BUFFER_TOO_SMALL then f fw v names w
        else if s \<noteq> EFI_SUCCESS \<or> buf = [] then Some (names, w)
        else if is_dot (dirent_name buf) then f fw v names w
        else f fw v (names @ [take 12 (dirent_name buf)]) w) = Some r"
    obtain s buf w1 where rd: "ReadDir fw v [] 4096 w = ((s, buf), w1)" by (metis surj_pair)
    have "snd r = w \<or> snd r = w1 \<or> (\<exists>names. f fw v names w1 = Some r)"
      using run by (auto simp: rd split: if_splits)
    then show "search_frame fw view \<longrightarrow> view (snd r) = view w"
      using IH search_basic_eq(5) [OF _ rd] by (metis snd_conv)
  qed
  with assms(1) show ?thesis by simp
qed

lemma peek_view:
  assumes "search_frame fw view" "peek fw v w = Some w'"
  shows "view w' = view w"
proof -
  obtain s w1 where sp: "SetPosition fw v [] w = (s, w1)" by (metis surj_pair)
  have "w' = w \<or> w' = w1 \<or> (\<exists>q. peek_loop fw v [] w1 = Some q \<and> w' = snd q)"
    using assms(2) by (auto simp: peek_def sp split: if_splits)
  then show ?thesis
    using peek_loop_view [OF assms(1)] search_basic_eq(4) [OF assms(1) sp] by metis
qed

lemma build_file_device_path_view:
  assumes "search_frame fw view" "build_file_device_path fw device path w = Some (s, dp, w')"
  shows "view w' = view w"
  using assms(2)
  by (auto simp: build_file_device_path_def split_def Let_def bind_eq_Some_conv search_basic [OF assms(1)] split: if_splits)

lemma try_path_view:
  assumes "search_frame fw view" "try_path fw self device path w = Some r"
  shows "view (snd r) = view w"
proof -
  note b = search_basic [OF assms(1)]
  obtain s1 w1 where o: "FileOpen fw device path EFI_FILE_MODE_READ 0 w = (s1, w1)" by (metis surj_pair)
  obtain s2 sz where z: "FileSize fw device path w1 = (s2, sz)" by (metis surj_pair)
  obtain s3 w2 where a: "AllocatePool fw sz w1 = (s3, w2)" by (metis surj_pair)
  obtain s4 buf where rd: "FileRead fw device path sz w2 = (s4, buf)" by (metis surj_pair)
  have v: "view w1 = view w" "view w2 = view w1"
    using search_basic_eq [OF assms(1)] o a by blast+
  have "snd r = w1 \<or> snd r = w2 \<or> snd r = FreePool fw w2 \<or>
    (\<exists>sdp dp w3. build_file_device_path fw device path w2 = Some (sdp, dp, w3) \<and>
      (\<exists>dp. snd r = FreePool fw (snd (LoadImage fw self dp (Some buf) w3)) \<or>
        snd r = FreePool fw (FreePool fw (snd (LoadImage fw self dp (Some buf) w3)))))"
    using assms(2) unfolding try_path_def o z a rd Let_def prod.case
    by (auto simp: bind_eq_Some_conv split_def split: if_splits)
  then show ?thesis
    by (elim disjE exE conjE) (simp_all add: b v build_file_device_path_view [OF assms(1)])
qed

lemma try_paths_view:
  assumes "search_frame fw view" "try_paths fw self device ps w = Some r"
  shows "view (snd r) = view w"
  using assms(2)
proof (induction ps arbitrary: w)
  case (Cons p ps)
  then obtain s l w1 where 1: "try_path fw self device p w = Some ((s, l), w1)"
    "r = ((EFI_SUCCESS, l), w1) \<or> try_paths fw self device ps w1 = Some r"
    by (auto simp: bind_eq_Some_conv split: if_splits)
  then show ?case using Cons.IH try_path_view [OF assms(1) 1(1)] by auto
qed auto

lemma bfs_find_boot_efi_view:
  assumes "search_frame fw view" "bfs_find_boot_efi fw v cap md w = Some r"
  shows "view (snd r) = view w"
proof -
  obtain s w1 where sp: "SetPosition fw v [] w = (s, w1)" by (metis surj_pair)
  have "r = (None, w1) \<or> bfs_loop fw v cap md [] 0 w1 = Some r"
    using assms(2) by (auto simp: bfs_find_boot_efi_def sp split: if_splits)
  then show ?thesis
    using bfs_loop_view [OF assms(1)] search_basic_eq(4) [OF assms(1) sp] by (metis snd_conv)
qed

lemma try_subdirs_view:
  assumes "search_frame fw view" "try_subdirs fw self device nms w = Some r"
  shows "view (snd r) = view w"
  using assms(2)
proof (induction nms arbitrary: w)
  case (Cons nm nms)
  obtain s l w1 where 1: "try_paths fw self device
      (map (\<lambda>alt. path_join FULL_PATH_CAP (Some [BSL]) (Some nm) (Some alt)) MACOS_ALT_PATHS) w = Some ((s, l), w1)"
    using Cons.prems by (auto simp: bind_eq_Some_conv)
  note v1 = try_paths_view [OF assms(1) 1, simplified]
  define dir where "dir = path_join 128 (Some [BSL]) (Some nm) (Some [])"
  obtain s2 w2 where 2: "FileOpen fw device dir EFI_FILE_MODE_READ 0 w1 = (s2, w2)" by (metis surj_pair)
  note v2 = search_basic_eq(2) [OF assms(1) 2]
  consider "s = EFI_SUCCESS" | "s \<noteq> EFI_SUCCESS" "s2 \<noteq> EFI_SUCCESS" | "s \<noteq> EFI_SUCCESS" "s2 = EFI_SUCCESS" by blast
  then show ?case
  proof cases
    case 1
    then show ?thesis using Cons.prems \<open>try_paths _ _ _ _ w = _\<close> v1 by auto
  next
    case 2
    then have "try_subdirs fw self device nms w2 = Some r"
      using Cons.prems 1 \<open>FileOpen _ _ _ _ _ w1 = _\<close> by (simp add: Let_def flip: dir_def)
    then show ?thesis using Cons.IH v1 v2 by metis
  next
    case 3
    then obtain names2 w3 s4 l4 w4 where 4: "list_child_dirs fw device dir w2 = Some (names2, w3)"
      "try_paths fw self device (map (level2_path nm) names2) w3 = Some ((s4, l4), w4)"
      "r = ((EFI_SUCCESS, l4), w4) \<or> try_subdirs fw self device nms w4 = Some r"
      using Cons.prems 1 2 by (auto simp: Let_def bind_eq_Some_conv simp flip: dir_def split: if_splits)
    show ?thesis
      using 4(3) Cons.IH [of w4] list_child_dirs_view [OF assms(1) 4(1)] try_paths_view [OF assms(1) 4(2)] v1 v2
      by auto
  qed
qed auto

lemma try_open_candidates_view:
  assumes "search_frame fw view" "try_open_candidates fw self device w = Some r"
  shows "view (snd r) = view w"
proof -
  obtain bs fp where b: "apple_bless_get_path fw device FULL_PATH_CAP w = (bs, fp)" by (metis surj_pair)
  obtain s1 l1 w1 where 1: "try_paths fw self device ((if bs = EFI_SUCCESS then [fp] else []) @ MACOS_ALT_PATHS) w =
      Some ((s1, l1), w1)"
    using assms(2) by (auto simp: try_open_candidates_def b bind_eq_Some_conv)
  note v1 = try_paths_view [OF assms(1) 1, simplified]
  show ?thesis
  proof (cases "s1 = EFI_SUCCESS")
    case True
    then show ?thesis using assms(2) v1 by (auto simp: try_open_candidates_def b 1)
  next
    case False
    then obtain names w2 s3 l3 w3 where 2: "list_child_dirs fw device [] w1 = Some (names, w2)"
      "try_subdirs fw self device names w2 = Some ((s3, l3), w3)"
      and rest: "(if s3 = EFI_SUCCESS then Some ((EFI_SUCCESS, l3), w3)
        else Option.bind (bfs_find_boot_efi fw device 512 4 w3) (\<lambda>(found, w).
          case found of None \<Rightarrow> Some ((EFI_NOT_FOUND, 0), w)
          | Some p \<Rightarrow> if p = [] then Some ((EFI_NOT_FOUND, 0), w) else try_paths fw self device [p] w)) = Some r"
      using assms(2) by (auto simp: try_open_candidates_def b 1 bind_eq_Some_conv simp del: try_paths.simps)
    have v3: "view w3 = view w"
      using list_child_dirs_view [OF assms(1) 2(1)] try_subdirs_view [OF assms(1) 2(2)] v1 by simp
    show ?thesis
    proof (cases "s3 = EFI_SUCCESS")
      case True
      then show ?thesis using rest v3 by auto
    next
      case False
      then obtain found w4 where 4: "bfs_find_boot_efi fw device 512 4 w3 = Some (found, w4)"
        "r = ((EFI_NOT_FOUND, 0), w4) \<or> (\<exists>p. try_paths fw self device [p] w4 = Some r)"
        using rest by (auto simp: bind_eq_Some_conv simp del: try_paths.simps split: option.splits if_splits)
      then show ?thesis
        using bfs_find_boot_efi_view [OF assms(1) 4(1)] try_paths_view [OF assms(1)] v3 by (metis snd_conv)
    qed
  qed
qed

lemma find_pass_view:
  assumes "search_frame fw view" "find_pass fw self own first hs w = Some r"
  shows "view (snd r) = view w"
  using assms(2)
proof (induction hs arbitrary: w)
  case (Cons h hs)
  show ?case
  proof (cases "first \<and> left_out fw own h w \<or> HandleSfs fw h w \<noteq> EFI_SUCCESS \<or> OpenVolume fw h w \<noteq> EFI_SUCCESS")
    case True
    then have "find_pass fw self own first hs w = Some r" using Cons.prems by (auto split: if_splits)
    then show ?thesis using Cons.IH by simp
  next
    case False
    then obtain w1 s l w2 where 1: "(if first then peek fw h w else Some w) = Some w1"
      "try_open_candidates fw self h w1 = Some ((s, l), w2)"
      "(if s = EFI_SUCCESS then Some ((EFI_SUCCESS, h, l), w2) else find_pass fw self own first hs w2) = Some r"
      using Cons.prems by (auto simp: bind_eq_Some_conv)
    have "view w1 = view w" using 1(1) peek_view [OF assms(1)] by (auto split: if_splits)
    then have "view w2 = view w" using try_open_candidates_view [OF assms(1) 1(2)] by simp
    then show ?thesis using 1(3) Cons.IH [of w2] by (auto split: if_splits)
  qed
qed auto

lemma connect_all_handles_view:
  assumes "search_frame fw view"
  shows "view (connect_all_handles fw w) = view w"
proof -
  have "view (fold (\<lambda>h w. snd (ConnectController fw h w)) hs w) = view w" for hs
    by (induction hs arbitrary: w) (simp_all add: search_basic [OF assms])
  then show ?thesis
    by (simp add: connect_all_handles_def split_def Let_def search_basic [OF assms])
qed

lemma locate_sfs_view:
  assumes "search_frame fw view"
  shows "view (snd (locate_sfs fw w)) = view w"
  by (simp add: locate_sfs_def split_def Let_def search_basic [OF assms])

lemma find_macos_boot_view:
  assumes "search_frame fw view" "find_macos_boot fw img w = Some r"
  shows "view (snd r) = view w"
proof -
  define w0 where "w0 = connect_all_handles fw w"
  define own where "own = loaded_device fw img w0"
  obtain s hs w1 where l: "locate_sfs fw w0 = ((s, hs), w1)" by (metis surj_pair)
  have v1: "view w1 = view w"
    using locate_sfs_view [OF assms(1), of w0] l connect_all_handles_view [OF assms(1), of w] by (simp add: w0_def)
  show ?thesis
  proof (cases "s = EFI_SUCCESS")
    case False
    then show ?thesis using assms(2) l v1 by (auto simp: find_macos_boot_def Let_def simp flip: w0_def)
  next
    case True
    then obtain q w2 where 2: "find_pass fw img own True hs w1 = Some (q, w2)"
      and "snd r = FreePool fw w2 \<or> (\<exists>q2. find_pass fw img own False hs w2 = Some q2 \<and> snd r = FreePool fw (snd q2))"
      using assms(2) l by (auto simp: find_macos_boot_def Let_def bind_eq_Some_conv simp flip: w0_def own_def split: if_splits)
    then show ?thesis
      using find_pass_view [OF assms(1)] v1 search_basic(2) [OF assms(1)] by (metis snd_conv)
  qed
qed

lemma load_from_volumes_view:
  assumes "search_frame fw view"
  shows "view (snd (load_from_volumes fw self fp hs ls w)) = view w"
  by (induction hs arbitrary: ls w) (simp_all add: split_def Let_def search_basic [OF assms])

section \<open>A directory entry is read where it was laid out\<close>

text \<open>The bytes of an \<open>EFI_FILE_INFO\<close>, as the structure of the header lays its fields out.\<close>

definition file_info_bytes :: "u64 \<Rightarrow> u64 \<Rightarrow> u64 \<Rightarrow> u8 list \<Rightarrow> u64 \<Rightarrow> u16 list \<Rightarrow> u8 list" where
  "file_info_bytes sz file_sz physical_sz tm attr nm =
     struct_bytes (fields_of EFI_FILE_INFO)
       [to_le 8 sz, to_le 8 file_sz, to_le 8 physical_sz, tm, to_le 8 attr, utf16_bytes (nm @ [0])] []"

text \<open>C38: the offsets at which the shim reads a directory entry are those of the structure: from the bytes
  of an \<open>EFI_FILE_INFO\<close>, whatever its sizes and times, it reads the attribute and the name that were
  put there, whatever follows in the buffer.\<close>

theorem dirent_read_back:
  assumes "length tm = 48" "0 \<notin> set nm" "buf = file_info_bytes sz file_sz physical_sz tm attr nm @ junk"
  shows "dirent_attrs buf = attr \<and> dirent_name buf = nm"
proof -
  have "buf = to_le 8 sz @ to_le 8 file_sz @ to_le 8 physical_sz @ tm @ to_le 8 attr @ utf16_bytes (nm @ [0]) @ junk"
    using assms(1) by (simp add: assms(3) file_info_bytes_def fields_of_def EFI_FILE_INFO_def round_up_def)
  moreover have "dirent_name (to_le 8 sz @ to_le 8 file_sz @ to_le 8 physical_sz @ tm @ to_le 8 attr @
      utf16_bytes (nm @ [0]) @ junk) = nm"
    using assms(1,2) by (simp add: dirent_name_def FILEINFO_FNAME_OFFS_def u16s_utf16 cstr_idem)
  ultimately show ?thesis using assms(1) by (simp add: dirent_attrs_def FILEINFO_ATTR_OFFS_def)
qed

theorem dirent_read_back_witness:
  "let buf = file_info_bytes 112 0 0 (replicate 48 0xFF) 0x10 (str ''EFI'') in
     dirent_attrs buf = 0x10 \<and> dirent_name buf = str ''EFI''"
  using dirent_read_back [of "replicate 48 0xFF" "str ''EFI''" _ 112 0 0 "0x10" "[]"] by (simp add: Let_def)

end
