(* ===== verification/Shim_Main.thy ===== *)
theory Shim_Main
  imports Shim_Mask Shim_Finder
begin

text \<open>
  \<open>efi_main\<close> of the boot shim (\<^verbatim>\<open>efi/mask-shim/main.c\<close>): the mask, the search for macOS, the fallback
  over the boot order. \<open>None\<close> is a run that does not come back. What the mask has reserved is still
  reserved when macOS is started.
\<close>

definition boot_macos :: "'w firmware \<Rightarrow> handle \<Rightarrow> 'w \<Rightarrow> (status \<times> 'w) option" where
  "boot_macos fw img w =
     Option.bind (find_macos_boot fw img w) (\<lambda>((s, boot_device, boot_img), w).
       if s = EFI_SUCCESS then Some (chainload_macos fw boot_img (efi_stall_ms fw 1000 w))
       else
         let (s, w) = try_bootorder_chainload fw img w
         in Some (if s = EFI_SUCCESS then (s, w) else (EFI_NOT_FOUND, efi_stall_ms fw 15000 w)))"

definition efi_main ::
  "'w firmware \<Rightarrow> shim_hardware \<Rightarrow> board_profile list \<Rightarrow> handle \<Rightarrow> shim_state \<Rightarrow> 'w
     \<Rightarrow> (status \<times> mask_mode option \<times> shim_state \<times> 'w) option" where
  "efi_main fw shw profiles img sst w =
     Option.bind (shim_is_installed fw img w) (\<lambda>installed.
       Option.bind (mask_step fw shw profiles img sst w) (\<lambda>(mode, sst, w).
         map_option (\<lambda>(s, w). (s, mode, sst, w)) (boot_macos fw img w)))"

section \<open>The start of macOS\<close>

text \<open>
  How a run of the shim ends, seen from the world \<open>wb\<close> right before it hands over: an image is
  started there and its status is returned, or the run fails, with nothing started since \<open>wb\<close> or
  after an image that came back with an error.
\<close>

definition hand_over :: "'w firmware \<Rightarrow> 'w \<Rightarrow> status \<Rightarrow> 'w \<Rightarrow> bool" where
  "hand_over fw wb s w' \<longleftrightarrow>
     (\<exists>i. StartImage fw i wb = (s, w')) \<or>
     s \<noteq> EFI_SUCCESS \<and> (w' = wb \<or> (\<exists>i. w' = efi_stall_ms fw 15000 (snd (StartImage fw i wb))))"

lemma try_boot_options_start:
  assumes "search_frame fw view" "try_boot_options fw self slots w = (s, w')"
  shows "\<exists>wb. view wb = view w \<and> ((\<exists>i. StartImage fw i wb = (s, w')) \<or> s = EFI_NOT_FOUND \<and> w' = wb)"
  using assms(2)
proof (induction slots arbitrary: w)
  case (Cons slot slots)
  obtain gs opt where g: "GetVariable fw (boot_option_name slot) EFI_GLOBAL_GUID 4096 w = (gs, opt)"
    by (metis surj_pair)
  show ?case
  proof (cases "gs \<noteq> EFI_SUCCESS \<or> boot_option_file opt = None")
    case True
    then have "try_boot_options fw self slots w = (s, w')" using Cons.prems g by (auto split: if_splits)
    then show ?thesis by (rule Cons.IH)
  next
    case False
    then obtain fp where fp: "gs = EFI_SUCCESS" "boot_option_file opt = Some fp" by auto
    obtain ls hs w1 where l: "locate_sfs fw w = ((ls, hs), w1)" by (metis surj_pair)
    obtain s2 i w2 where v: "load_from_volumes fw self fp hs EFI_NOT_FOUND w1 = ((s2, i), w2)" by (metis surj_pair)
    have v1: "view w1 = view w" using locate_sfs_view [OF assms(1), of w] l by simp
    have v2: "view (FreePool fw w2) = view w"
      using load_from_volumes_view [OF assms(1), of self fp hs EFI_NOT_FOUND w1] v v1 search_basic(2) [OF assms(1)]
      by simp
    have "(\<exists>w3. view w3 = view w \<and> try_boot_options fw self slots w3 = (s, w')) \<or>
        StartImage fw i (FreePool fw w2) = (s, w')"
      using Cons.prems v1 v2 by (auto simp: g fp l v Let_def split: if_splits)
    then show ?thesis using Cons.IH v2 by metis
  qed
qed auto

lemma boot_macos_hands_over:
  assumes "search_frame fw view" "boot_macos fw img w = Some (s, w')"
  shows "\<exists>wb. view wb = view w \<and> hand_over fw wb s w'"
proof -
  obtain fs dev i w1 where f: "find_macos_boot fw img w = Some ((fs, dev, i), w1)"
    using assms(2) by (auto simp: boot_macos_def bind_eq_Some_conv)
  have v1: "view w1 = view w" using find_macos_boot_view [OF assms(1) f] by simp
  show ?thesis
  proof (cases "fs = EFI_SUCCESS")
    case True
    then have "chainload_macos fw i (efi_stall_ms fw 1000 w1) = (s, w')" using assms(2) by (simp add: boot_macos_def f)
    then have "hand_over fw (efi_stall_ms fw 1000 w1) s w'"
      by (auto simp: chainload_macos_def hand_over_def split: if_splits)
    then show ?thesis using v1 search_basic(3) [OF assms(1)] by metis
  next
    case False
    obtain s2 w2 where t: "try_bootorder_chainload fw img w1 = (s2, w2)" by (metis surj_pair)
    have run: "(s, w') = (if s2 = EFI_SUCCESS then (s2, w2) else (EFI_NOT_FOUND, efi_stall_ms fw 15000 w2))"
      using assms(2) False by (auto simp: boot_macos_def f t)
    obtain wb where wb: "view wb = view w1" "(\<exists>i. StartImage fw i wb = (s2, w2)) \<or> s2 = EFI_NOT_FOUND \<and> w2 = wb"
      using t try_boot_options_start [OF assms(1), of img _ w1 s2 w2]
      by (auto simp: try_bootorder_chainload_def split_def Let_def split: if_splits)
    show ?thesis
    proof (cases "s2 = EFI_NOT_FOUND \<and> w2 = wb")
      case True
      then have "hand_over fw (efi_stall_ms fw 15000 wb) s w'" using run by (simp add: hand_over_def)
      then show ?thesis using wb(1) v1 search_basic(3) [OF assms(1)] by metis
    next
      case False
      then obtain i where i: "StartImage fw i wb = (s2, w2)" using wb(2) by blast
      then have "snd (StartImage fw i wb) = w2" by simp
      then have "s \<noteq> EFI_SUCCESS \<and> w' = efi_stall_ms fw 15000 (snd (StartImage fw i wb)) \<or> StartImage fw i wb = (s, w')"
        using run i by (auto split: if_splits)
      then have "hand_over fw wb s w'" unfolding hand_over_def by blast
      then show ?thesis using wb(1) v1 by metis
    qed
  qed
qed

end
