(* ===== verification/Brr_Entry.thy ===== *)
theory Brr_Entry
  imports Mask_Ops
begin

text \<open>
  The address prompt \<^verbatim>\<open>efi/brr-entry/main.c\<close>: the line editor, the parser of the typed addresses, the
  blob of bad pages it writes, the start of the shim, and the whole program with its prompts and
  the automatic installation. Loops that wait for a key or that may run forever are options, with
  \<open>None\<close> for not returning. A reset of the machine ends the program.
\<close>

section \<open>Hexadecimal numbers\<close>

definition is_hex_digit :: "u16 \<Rightarrow> bool" where
  "is_hex_digit c \<longleftrightarrow> c \<ge> ch CHR ''0'' \<and> c \<le> ch CHR ''9'' \<or> c \<ge> ch CHR ''a'' \<and> c \<le> ch CHR ''f'' \<or>
     c \<ge> ch CHR ''A'' \<and> c \<le> ch CHR ''F''"

definition hex_value :: "u16 \<Rightarrow> u32" where
  "hex_value c =
     (if c \<ge> ch CHR ''0'' \<and> c \<le> ch CHR ''9'' then ucast (c - ch CHR ''0'')
      else if c \<ge> ch CHR ''a'' \<and> c \<le> ch CHR ''f'' then ucast (c - ch CHR ''a'') + 10
      else if c \<ge> ch CHR ''A'' \<and> c \<le> ch CHR ''F'' then ucast (c - ch CHR ''A'') + 10
      else 0)"

fun hex_digits :: "u64 \<Rightarrow> u16 list \<Rightarrow> u64 \<times> u16 list" where
  "hex_digits v [] = (v, [])"
| "hex_digits v (c # p) =
     (if is_hex_digit c then hex_digits (push_bit 4 v OR ucast (hex_value c)) p else (v, c # p))"

definition skip_blanks :: "u16 list \<Rightarrow> u16 list" where
  "skip_blanks p = dropWhile (\<lambda>c. c = ch CHR '' '' \<or> c = 9) p"

text \<open>The value, and the text after the last digit.\<close>

definition parse_hex :: "u16 list \<Rightarrow> u64 \<times> u16 list" where
  "parse_hex p =
     (let p = skip_blanks p;
          p = (if c0 p = ch CHR ''0'' \<and> (c0 (tl p) = ch CHR ''x'' \<or> c0 (tl p) = ch CHR ''X'')
               then drop 2 p else p)
      in hex_digits 0 p)"

section \<open>The line editor\<close>

text \<open>Returns the length, or 0 for a cancelled line, and the line.\<close>

partial_function (option) read_line_loop ::
  "'w firmware \<Rightarrow> nat \<Rightarrow> u16 list \<Rightarrow> 'w \<Rightarrow> (nat \<times> u16 list \<times> 'w) option" where
  "read_line_loop fw cap buf w =
     (let ((s, key), w) = ReadKeyStroke fw w in
      if s = EFI_NOT_READY then read_line_loop fw cap buf (efi_stall_ms fw 10 w)
      else if s \<noteq> EFI_SUCCESS then read_line_loop fw cap buf w
      else if key_scan key = 0x17 then Some (0, buf, w)
      else
        let c = key_char key in
        if c = 0xD \<or> c = 0xA then Some (length buf, buf, w)
        else if c = 0x08 \<or> c = 0x7F then read_line_loop fw cap (butlast buf) w
        else if c \<ge> ch CHR '' '' \<and> c < 0x7F \<and> length buf + 1 < cap
        then read_line_loop fw cap (buf @ [c]) w
        else read_line_loop fw cap buf w)"

definition read_line :: "'w firmware \<Rightarrow> nat \<Rightarrow> 'w \<Rightarrow> (nat \<times> u16 list \<times> 'w) option" where
  "read_line fw cap w = read_line_loop fw cap [] w"

section \<open>The addresses\<close>

definition is_separator :: "u16 \<Rightarrow> bool" where
  "is_separator c \<longleftrightarrow> c = ch CHR '' '' \<or> c = 9 \<or> c = ch CHR '','' "

partial_function (option) parse_addresses_loop :: "nat \<Rightarrow> u16 list \<Rightarrow> u64 list \<Rightarrow> u64 list option" where
  "parse_addresses_loop cap p out =
     (if c0 p = 0 \<or> length out \<ge> cap then Some out
      else
        let p = dropWhile is_separator p in
        if c0 p = 0 then Some out
        else
          let (v, p) = parse_hex p;
              v = v AND NOT 0xFFF
          in parse_addresses_loop cap p (if v \<noteq> 0 then out @ [v] else out))"

definition parse_addresses :: "u16 list \<Rightarrow> nat \<Rightarrow> u64 list option" where
  "parse_addresses line cap = parse_addresses_loop cap line []"

section \<open>The blob of bad pages\<close>

definition bad_pages_blob :: "u64 list \<Rightarrow> u8 list" where
  "bad_pages_blob pas =
     (let n = (if length pas > 4096 then 4096 else length pas)
      in [1, 0, 0, 0] @ to_le 4 (of_nat n :: u32) @ concat (map (to_le 8) (take n pas)))"

definition write_bad_pages :: "'w firmware \<Rightarrow> u64 list \<Rightarrow> 'w \<Rightarrow> status \<times> 'w" where
  "write_bad_pages fw pas w = SetVariable fw BRR_VARNAME_BADPAGES BRR_GUID NV_BS_RT (bad_pages_blob pas) w"

section \<open>Starting the shim\<close>

definition SHIM_PATH :: "u16 list" where
  "SHIM_PATH = BSL # efi_path [''EFI'', ''BOOT'', ''mask-shim.efi'']"

text \<open>The first volume that has the shim, 0 for none.\<close>

fun find_shim :: "'w firmware \<Rightarrow> handle list \<Rightarrow> 'w \<Rightarrow> handle \<times> 'w" where
  "find_shim fw [] w = (0, w)"
| "find_shim fw (h # hs) w =
     (if HandleSfs fw h w \<noteq> EFI_SUCCESS then find_shim fw hs w
      else if OpenVolume fw h w \<noteq> EFI_SUCCESS then find_shim fw hs w
      else
        let (s, w) = FileOpen fw h SHIM_PATH EFI_FILE_MODE_READ 0 w
        in if s = EFI_SUCCESS then (h, w) else find_shim fw hs w)"

text \<open>The bytes of a device path before its end node.\<close>

partial_function (option) nodes_before_end :: "u8 list \<Rightarrow> nat \<Rightarrow> nat option" where
  "nodes_before_end p n =
     (if length p < 4 then None
      else if dp_is_end p then Some n
      else nodes_before_end (drop (dp_node_len p) p) (n + dp_node_len p))"

definition chainload_shim :: "'w firmware \<Rightarrow> handle \<Rightarrow> 'w \<Rightarrow> (status \<times> 'w) option" where
  "chainload_shim fw image_handle w =
     (let ((s, handles), w) = locate_sfs fw w in
      if s \<noteq> EFI_SUCCESS then Some (s, w)
      else
        let (device, w) = find_shim fw handles w;
            w = FreePool fw w
        in
          if device = 0 then Some (EFI_NOT_FOUND, w)
          else
            let (s, hw_dp) = DevicePath fw device w;
                hw_dp = (if s = EFI_SUCCESS then hw_dp else None)
            in Option.bind
                 (case hw_dp of None \<Rightarrow> Some []
                  | Some p \<Rightarrow> map_option (\<lambda>n. take n p) (nodes_before_end p 0))
                 (\<lambda>prefix.
                   let dp = prefix @ file_path_node SHIM_PATH @ end_node in
                   if length dp > 512 then Some (EFI_INVALID_PARAMETER, w)
                   else
                     let ((s, new_image), w) = LoadImage fw image_handle (Some dp) None w
                     in Some (if s \<noteq> EFI_SUCCESS then (s, w) else StartImage fw new_image w)))"

section \<open>The program\<close>

datatype entry_result = Machine_Reset | Returned status

definition reset_after :: "'w firmware \<Rightarrow> u64 \<Rightarrow> 'w \<Rightarrow> entry_result \<times> 'w" where
  "reset_after fw ms w = (Machine_Reset, efi_stall_ms fw ms w)"

text \<open>The number of saved pages, when a usable list is in NVRAM.\<close>

definition existing_mask :: "'w firmware \<Rightarrow> 'w \<Rightarrow> u32 option" where
  "existing_mask fw w =
     (let (sg, existing) = GetVariable fw BRR_VARNAME_BADPAGES BRR_GUID (8 + 4096 * 8) w in
      if sg = EFI_SUCCESS \<and> length existing \<ge> 8 then
        let n_existing = (of_le (take 4 (drop 4 existing)) :: u32)
        in if n_existing > 0 \<and> n_existing \<le> 4096 \<and> length existing \<ge> 8 + unat n_existing * 8
           then Some n_existing else None
      else None)"

text \<open>Is the shim installed: an 8-byte buffer tells whether the variable exists.\<close>

definition install_present :: "'w firmware \<Rightarrow> 'w \<Rightarrow> bool" where
  "install_present fw w =
     (let (qg, _) = GetVariable fw BRR_VARNAME_ORIGBOOT BRR_GUID 8 w
      in qg = EFI_SUCCESS \<or> qg = EFI_BUFFER_TOO_SMALL)"

text \<open>Installs where needed; the pauses after success and after failure.\<close>

definition auto_install :: "'w firmware \<Rightarrow> handle \<Rightarrow> u64 \<Rightarrow> u64 \<Rightarrow> 'w \<Rightarrow> 'w option" where
  "auto_install fw image_handle ok_ms fail_ms w =
     (if install_present fw w then Some w
      else
        map_option (\<lambda>(iis, ierr, w).
            if iis = EFI_SUCCESS then
              let w = snd (mask_nvram_set_ascii fw BRR_VARNAME_STATE BRR_STATE_TRIAL_PENDING_PAGE w)
              in if ok_ms = 0 then w else efi_stall_ms fw ok_ms w
            else efi_stall_ms fw fail_ms w)
          (install_mask_full fw image_handle w))"

definition apply_saved :: "'w firmware \<Rightarrow> handle \<Rightarrow> 'w \<Rightarrow> (entry_result \<times> 'w) option" where
  "apply_saved fw image_handle w =
     (let w = snd (mask_nvram_set_ascii fw BRR_VARNAME_STATE BRR_STATE_TRIAL_PENDING_PAGE w)
      in Option.bind (auto_install fw image_handle 0 10000 w) (\<lambda>w.
           let w = efi_stall_ms fw 800 w
           in map_option (\<lambda>(cs, w). reset_after fw 15000 w) (chainload_shim fw image_handle w)))"

datatype saved_choice = Apply_Saved | Cancel_Saved | New_Addresses

partial_function (option) saved_prompt :: "'w firmware \<Rightarrow> 'w \<Rightarrow> (saved_choice \<times> 'w) option" where
  "saved_prompt fw w =
     (let (k, w) = efi_readkey fw w in
      if k = ch CHR ''Y'' \<or> k = ch CHR ''y'' then Some (Apply_Saved, w)
      else if k = 0x1B then Some (Cancel_Saved, w)
      else if k = ch CHR ''N'' \<or> k = ch CHR ''n'' then Some (New_Addresses, w)
      else saved_prompt fw (efi_stall_ms fw 50 w))"

partial_function (option) confirm_addresses :: "'w firmware \<Rightarrow> 'w \<Rightarrow> (bool \<times> 'w) option" where
  "confirm_addresses fw w =
     (let (k, w) = efi_readkey fw w in
      if k = ch CHR ''Y'' \<or> k = ch CHR ''y'' then Some (True, w)
      else if k \<noteq> 0 then Some (False, w)
      else confirm_addresses fw (efi_stall_ms fw 50 w))"

text \<open>From the confirmed addresses on: the two writes, the installation, the shim.\<close>

definition apply_addresses ::
  "'w firmware \<Rightarrow> handle \<Rightarrow> u64 list \<Rightarrow> 'w \<Rightarrow> (entry_result \<times> 'w) option" where
  "apply_addresses fw image_handle pas w =
     (let (s, w) = write_bad_pages fw pas w in
      if s \<noteq> EFI_SUCCESS then Some (Returned s, efi_stall_ms fw 10000 w)
      else
        let (s, w) = mask_nvram_set_ascii fw BRR_VARNAME_STATE BRR_STATE_TRIAL_PENDING_PAGE w in
        if s \<noteq> EFI_SUCCESS then Some (Returned s, efi_stall_ms fw 10000 w)
        else
          Option.bind (auto_install fw image_handle 8000 15000 w) (\<lambda>w.
            let w = efi_stall_ms fw 1000 w
            in map_option (\<lambda>(s, w). reset_after fw 15000 w) (chainload_shim fw image_handle w)))"

definition LINE_MAX :: nat where "LINE_MAX = 512"
definition PAS_MAX :: nat where "PAS_MAX = 256"

definition enter_addresses :: "'w firmware \<Rightarrow> handle \<Rightarrow> 'w \<Rightarrow> (entry_result \<times> 'w) option" where
  "enter_addresses fw image_handle w =
     Option.bind (read_line fw LINE_MAX w) (\<lambda>(n, line, w).
       if n = 0 then Some (reset_after fw 3000 w)
       else
         Option.bind (parse_addresses line PAS_MAX) (\<lambda>pas.
           if pas = [] then Some (reset_after fw 5000 w)
           else
             Option.bind (confirm_addresses fw w) (\<lambda>(yes, w).
               if yes then apply_addresses fw image_handle pas w
               else Some (reset_after fw 3000 w))))"

text \<open>The console mode chosen at the start: of the first eight, the one with the most characters. \<open>query\<close> is
  \<open>QueryMode\<close>, with the columns and rows of a mode; the choice only goes to \<open>SetMode\<close>.\<close>

definition mode_step :: "(nat \<Rightarrow> status \<times> u64 \<times> u64) \<Rightarrow> nat \<Rightarrow> nat \<times> u64 \<Rightarrow> nat \<times> u64" where
  "mode_step query m = (\<lambda>(best_mode, best_area).
     let (q, cols, rows) = query m in
     if q \<noteq> EFI_SUCCESS then (best_mode, best_area)
     else if cols * rows > best_area then (m, cols * rows) else (best_mode, best_area))"

definition best_text_mode :: "(nat \<Rightarrow> status \<times> u64 \<times> u64) \<Rightarrow> nat" where
  "best_text_mode query = fst (fold (mode_step query) [0..<8] (0, 0))"

definition brr_entry_main :: "'w firmware \<Rightarrow> handle \<Rightarrow> 'w \<Rightarrow> (entry_result \<times> 'w) option" where
  "brr_entry_main fw image_handle w =
     (case existing_mask fw w of
        None \<Rightarrow> enter_addresses fw image_handle w
      | Some _ \<Rightarrow>
          Option.bind (saved_prompt fw w) (\<lambda>(choice, w).
            case choice of
              Apply_Saved \<Rightarrow> apply_saved fw image_handle w
            | Cancel_Saved \<Rightarrow> Some (reset_after fw 1500 w)
            | New_Addresses \<Rightarrow> enter_addresses fw image_handle w))"

section \<open>Typed addresses\<close>

text \<open>
  The reference reading of a line: a list of entries, each a gap of separators, an optional \<open>0x\<close>,
  and hexadecimal digits of either case.
\<close>

record entry =
  en_gap :: "u16 list"
  en_prefix :: bool
  en_digits :: "u16 list"

definition entry_text :: "entry \<Rightarrow> u16 list" where
  "entry_text e = en_gap e @ (if en_prefix e then str ''0x'' else []) @ en_digits e"

definition entry_value :: "entry \<Rightarrow> u64" where
  "entry_value e = foldl (\<lambda>v c. push_bit 4 v OR ucast (hex_value c)) 0 (en_digits e)"

definition entry_ok :: "entry \<Rightarrow> bool" where
  "entry_ok e \<longleftrightarrow> list_all is_separator (en_gap e) \<and> list_all is_hex_digit (en_digits e) \<and>
     (en_prefix e \<or> en_digits e \<noteq> [])"

text \<open>Every entry but the first is separated from the one before it.\<close>

definition line_ok :: "entry list \<Rightarrow> bool" where
  "line_ok es \<longleftrightarrow> list_all entry_ok es \<and> list_all (\<lambda>e. en_gap e \<noteq> []) (tl es)"

definition addresses_of :: "entry list \<Rightarrow> u64 list" where
  "addresses_of es = filter (\<lambda>v. v \<noteq> 0) (map (\<lambda>e. entry_value e AND PAGE_MASK) es)"

lemma hex_digits_run:
  "list_all is_hex_digit ds \<Longrightarrow> \<not> is_hex_digit (c0 rest) \<Longrightarrow>
    hex_digits v (ds @ rest) = (foldl (\<lambda>v c. push_bit 4 v OR ucast (hex_value c)) v ds, rest)"
proof (induction ds arbitrary: v)
  case Nil
  then show ?case by (cases rest) auto
qed auto

lemma hex_not_separator: "is_hex_digit c \<Longrightarrow> \<not> is_separator c"
  by (auto simp: is_hex_digit_def is_separator_def)

lemma not_hex_0 [simp]: "\<not> is_hex_digit 0"
  by (simp add: is_hex_digit_def)

lemma not_separator_0 [simp]: "\<not> is_separator 0"
  by (simp add: is_separator_def)

lemma separator_not_x: "is_separator c \<Longrightarrow> c \<noteq> ch CHR ''x'' \<and> c \<noteq> ch CHR ''X''"
  by (auto simp: is_separator_def)

lemma hex_not_x: "is_hex_digit c \<Longrightarrow> c \<noteq> ch CHR ''x'' \<and> c \<noteq> ch CHR ''X''"
  by (auto simp: is_hex_digit_def)

lemma dropWhile_gap:
  "list_all P gap \<Longrightarrow> \<not> P (c0 rest) \<Longrightarrow> dropWhile P (gap @ rest) = rest"
  by (induction gap) (auto simp: neq_Nil_conv c0_def dropWhile_eq_self_iff split: list.splits)

text \<open>What ends an entry: the end of the line, or a separator.\<close>

definition entry_end :: "u16 list \<Rightarrow> bool" where
  "entry_end rest \<longleftrightarrow> c0 rest = 0 \<or> is_separator (c0 rest)"

lemma parse_hex_entry:
  assumes "list_all is_hex_digit ds" "pre \<or> ds \<noteq> []" "entry_end rest"
  shows "parse_hex ((if pre then str ''0x'' else []) @ ds @ rest) =
    (foldl (\<lambda>v c. push_bit 4 v OR ucast (hex_value c)) 0 ds, rest)"
proof -
  have nh: "\<not> is_hex_digit (c0 rest)" using assms(3) hex_not_separator by (auto simp: entry_end_def)
  have blank: "skip_blanks (c # p) = c # p" if "is_hex_digit c" for c p
    using hex_not_separator [OF that] by (auto simp: skip_blanks_def is_separator_def)
  have zero: "is_hex_digit (ch CHR ''0'')" by (simp add: is_hex_digit_def)
  show ?thesis
  proof (cases pre)
    case True
    then show ?thesis
      using blank [OF zero] hex_digits_run [OF assms(1) nh] by (simp add: parse_hex_def)
  next
    case False
    then obtain d ds' where ds: "ds = d # ds'" using assms(2) by (cases ds) auto
    have "c0 (ds' @ rest) \<noteq> ch CHR ''x'' \<and> c0 (ds' @ rest) \<noteq> ch CHR ''X''"
      using assms(1,3) hex_not_x separator_not_x by (cases ds') (auto simp: ds entry_end_def)
    then show ?thesis
      using False blank [of d] hex_digits_run [OF assms(1) nh, of 0] assms(1)
      by (simp add: parse_hex_def ds)
  qed
qed

lemma parse_loop_entry:
  assumes "entry_ok e" "entry_end rest" "length out < cap"
  shows "parse_addresses_loop cap (entry_text e @ rest) out =
    parse_addresses_loop cap rest (out @ addresses_of [e])"
proof -
  define body where "body = (if en_prefix e then str ''0x'' else []) @ en_digits e @ rest"
  have ne: "c0 body \<noteq> 0" "\<not> is_separator (c0 body)"
    using assms(1) hex_not_separator
    by (cases "en_digits e"; auto simp: body_def entry_ok_def is_separator_def is_hex_digit_def)+
  have split: "entry_text e @ rest = en_gap e @ body" by (simp add: entry_text_def body_def)
  have c: "c0 (entry_text e @ rest) \<noteq> 0"
    using assms(1) ne(1) by (cases "en_gap e") (auto simp: split entry_ok_def)
  have d: "dropWhile is_separator (entry_text e @ rest) = body"
    unfolding split using assms(1) ne(2) by (intro dropWhile_gap) (simp_all add: entry_ok_def)
  have p: "parse_hex body = (entry_value e, rest)"
    unfolding body_def entry_value_def using assms(1,2) by (intro parse_hex_entry) (simp_all add: entry_ok_def)
  show ?thesis
    using c ne(1) assms(3)
    by (subst parse_addresses_loop.simps) (simp add: d p Let_def addresses_of_def PAGE_MASK_def PAGE_SIZE_def)
qed

lemma entry_end_next: "entry_ok e \<Longrightarrow> en_gap e \<noteq> [] \<Longrightarrow> entry_end (entry_text e @ rest)"
  by (cases "en_gap e") (auto simp: entry_end_def entry_text_def entry_ok_def)

lemma parse_loop_line:
  assumes "list_all entry_ok es" "list_all (\<lambda>e. en_gap e \<noteq> []) (tl es)" "es = [] \<or> entry_end rest"
    and "length out \<le> cap"
  shows "parse_addresses_loop cap (concat (map entry_text es) @ rest) out =
    (if length (out @ addresses_of es) < cap
     then parse_addresses_loop cap rest (out @ addresses_of es)
     else Some (take cap (out @ addresses_of es)))"
  using assms
proof (induction es arbitrary: out)
  case Nil
  then show ?case
    by (cases "length out < cap") (simp_all add: addresses_of_def parse_addresses_loop.simps)
next
  case (Cons e es)
  show ?case
  proof (cases "length out < cap")
    case False
    with Cons.prems have "length out = cap" by simp
    then show ?thesis by (subst parse_addresses_loop.simps) simp
  next
    case True
    define rest' where "rest' = concat (map entry_text es) @ rest"
    have "entry_end rest'"
    proof (cases es)
      case (Cons e' es')
      then show ?thesis
        using Cons.prems entry_end_next [of e' "concat (map entry_text es') @ rest"] by (simp add: rest'_def)
    qed (use Cons.prems in \<open>simp add: rest'_def\<close>)
    moreover have "entry_ok e" using Cons.prems by simp
    ultimately have step: "parse_addresses_loop cap (concat (map entry_text (e # es)) @ rest) out =
        parse_addresses_loop cap rest' (out @ addresses_of [e])"
      using parse_loop_entry [of e rest' out cap] True by (simp add: rest'_def)
    have all: "out @ addresses_of (e # es) = (out @ addresses_of [e]) @ addresses_of es"
      by (simp add: addresses_of_def)
    have "length (out @ addresses_of [e]) \<le> cap" using True by (simp add: addresses_of_def)
    moreover have "list_all (\<lambda>e. en_gap e \<noteq> []) (tl es)" using Cons.prems(2) by (cases es) auto
    ultimately show ?thesis
      unfolding step rest'_def all using Cons.prems Cons.IH [of "out @ addresses_of [e]"]
      by (simp add: addresses_of_def)
  qed
qed

lemma parse_separators:
  assumes "list_all is_separator p" "length out \<le> cap"
  shows "parse_addresses_loop cap p out = Some out"
proof -
  have dw: "dropWhile is_separator p = []" using assms(1) by (simp add: list_all_iff)
  show ?thesis by (subst parse_addresses_loop.simps) (simp add: dw Let_def)
qed

lemma parse_line:
  assumes "line_ok es" "list_all is_separator trailing"
  shows "parse_addresses (concat (map entry_text es) @ trailing) cap = Some (take cap (addresses_of es))"
  using parse_loop_line [of es trailing "[]" cap] parse_separators [OF assms(2), of "addresses_of es" cap]
    assms
  by (cases trailing) (auto simp: parse_addresses_def line_ok_def entry_end_def)

text \<open>
  A list of addresses as a program shows it: each behind \<open>0x\<close>, with a comma and a blank between two.
  \<open>address_writer\<close> is the contract of the routine that writes the digits; what it writes is what the
  prompt reads.
\<close>

fun comma_text :: "(u64 \<Rightarrow> u16 list) \<Rightarrow> u64 list \<Rightarrow> u16 list" where
  "comma_text digits [] = []"
| "comma_text digits (v # vs) =
     str ''0x'' @ digits v @ (if vs \<noteq> [] then str '', '' else []) @ comma_text digits vs"

fun listed :: "(u64 \<Rightarrow> u16 list) \<Rightarrow> u64 list \<Rightarrow> entry list" where
  "listed digits [] = []"
| "listed digits (v # vs) =
     \<lparr>en_gap = [], en_prefix = True, en_digits = digits v\<rparr> #
     map (\<lambda>v. \<lparr>en_gap = str '', '', en_prefix = True, en_digits = digits v\<rparr>) vs"

lemma comma_text_listed: "comma_text digits vs = concat (map entry_text (listed digits vs))"
proof -
  have "comma_text digits (v # vs) = str ''0x'' @ digits v @ concat (map (\<lambda>v. str '', 0x'' @ digits v) vs)" for v vs
    by (induction vs arbitrary: v) simp_all
  then show ?thesis by (cases vs) (simp_all add: entry_text_def o_def del: comma_text.simps(2))
qed

locale address_writer =
  fixes digits :: "u64 \<Rightarrow> u16 list"
  assumes digits_hex: "list_all is_hex_digit (digits v)"
    and digits_value: "foldl (\<lambda>v c. push_bit 4 v OR ucast (hex_value c)) 0 (digits v) = v"
begin

lemma line_listed: "line_ok (listed digits vs)"
  using digits_hex by (cases vs) (auto simp: line_ok_def entry_ok_def list_all_iff is_separator_def)

lemma addresses_listed:
  assumes "list_all page_aligned vs"
  shows "addresses_of (listed digits vs) = filter (\<lambda>v. v \<noteq> 0) vs"
proof -
  have "map (\<lambda>e. entry_value e AND PAGE_MASK) (listed digits vs) = map (\<lambda>v. v AND PAGE_MASK) vs"
    by (cases vs) (simp_all add: entry_value_def digits_value)
  also have "\<dots> = vs" using assms page_mask_aligned by (simp add: list_all_iff map_idI)
  finally show ?thesis by (simp add: addresses_of_def)
qed

lemma values_listed: "e \<in> set (listed digits vs) \<Longrightarrow> entry_value e \<in> set vs"
  by (cases vs) (auto simp: entry_value_def digits_value)

lemma listed_value: "v \<in> set vs \<Longrightarrow> \<exists>e \<in> set (listed digits vs). entry_value e = v"
  by (cases vs) (auto simp: entry_value_def digits_value)

lemma length_listed: "length (listed digits vs) = length vs"
  by (cases vs) simp_all

lemma retyped:
  assumes "list_all page_aligned vs"
  shows "parse_addresses (comma_text digits vs) cap = Some (take cap (filter (\<lambda>v. v \<noteq> 0) vs))"
  using parse_line [OF line_listed, of "[]" vs cap] addresses_listed [OF assms]
  by (simp add: comma_text_listed)

end

text \<open>C19: the prompt understands every line of hexadecimal addresses separated by blanks, tabs and commas,
  with or without \<open>0x\<close> and in either case: parsing returns, and the result is the addresses
  rounded down to pages, in order, without the zero ones, up to the capacity.\<close>

theorem parse_addresses_typed:
  assumes "line_ok es" "list_all is_separator trailing"
  shows "parse_addresses (concat (map entry_text es) @ trailing) cap = Some (take cap (addresses_of es))"
  by (rule parse_line [OF assms])

text \<open>A character that is neither a digit nor a separator stops the scan for good.\<close>

definition stuck_at :: "u16 \<Rightarrow> bool" where
  "stuck_at c \<longleftrightarrow> c \<noteq> 0 \<and> \<not> is_separator c \<and> \<not> is_hex_digit c"

lemma parse_hex_stuck:
  assumes "stuck_at c"
  shows "parse_hex (c # p) = (0, c # p)"
proof -
  have "c \<noteq> ch CHR ''0''" using assms by (auto simp: stuck_at_def is_hex_digit_def)
  moreover have "skip_blanks (c # p) = c # p"
    using assms by (auto simp: stuck_at_def skip_blanks_def is_separator_def)
  ultimately show ?thesis using assms by (simp add: parse_hex_def stuck_at_def)
qed

lemma parse_loop_stuck:
  assumes "stuck_at c" "length out < cap"
  shows "parse_addresses_loop cap (c # p) out = None"
proof -
  have "\<not> (k = cap \<and> q = c # p \<and> length out' < cap)" if ret: "parse_addresses_loop k q out' = Some r"
    for k q out' r
  proof (rule parse_addresses_loop.raw_induct [where P = "\<lambda>k q out' r.
      \<not> (k = cap \<and> q = c # p \<and> length out' < cap)", OF _ ret], goal_cases)
    case (1 f k q out' r)
    show ?case
    proof
      assume q: "k = cap \<and> q = c # p \<and> length out' < cap"
      then have "f cap (c # p) out' = Some r"
        using 1(2) assms(1) parse_hex_stuck [OF assms(1)] by (simp add: stuck_at_def)
      from 1(1) [OF this] q show False by blast
    qed
  qed
  then show ?thesis using assms(2) by (cases "parse_addresses_loop cap (c # p) out") auto
qed

text \<open>C20: the prompt hangs on a typing error: after any number of good addresses that leave room for more, a
  character that is neither a hexadecimal digit nor a separator is never passed, and the program
  does not come back from the parser.\<close>

theorem parse_addresses_stuck:
  assumes "line_ok es" "list_all is_separator gap" "gap \<noteq> [] \<or> es = []" "stuck_at c"
    and "length (addresses_of es) < cap"
  shows "parse_addresses (concat (map entry_text es) @ gap @ c # rest) cap = None"
proof -
  define out where "out = addresses_of es"
  have "parse_addresses (concat (map entry_text es) @ gap @ c # rest) cap =
      parse_addresses_loop cap (gap @ c # rest) out"
    using parse_loop_line [of es "gap @ c # rest" "[]" cap] assms
    by (cases gap) (auto simp: parse_addresses_def line_ok_def entry_end_def out_def)
  also have "\<dots> = parse_addresses_loop cap (c # rest) out"
  proof -
    have "dropWhile is_separator (gap @ c # rest) = c # rest"
      using assms(2,4) by (intro dropWhile_gap) (simp_all add: stuck_at_def)
    moreover have "c0 (gap @ c # rest) \<noteq> 0" using assms(2,4) by (cases gap) (auto simp: stuck_at_def)
    ultimately show ?thesis
      using assms(4,5) parse_hex_stuck [OF assms(4)]
      by (subst parse_addresses_loop.simps) (simp add: stuck_at_def out_def)
  qed
  also have "\<dots> = None" using parse_loop_stuck [OF assms(4)] assms(5) by (simp add: out_def)
  finally show ?thesis .
qed

theorem parse_addresses_typed_witness:
  "parse_addresses (str ''0xb2100000, B2200FFF'') 256 = Some [0xb2100000, 0xb2200000]"
proof -
  define es where "es = [\<lparr>en_gap = [], en_prefix = True, en_digits = str ''b2100000''\<rparr>,
    \<lparr>en_gap = str '', '', en_prefix = False, en_digits = str ''B2200FFF''\<rparr>]"
  have "line_ok es" by (simp add: es_def line_ok_def entry_ok_def is_separator_def is_hex_digit_def)
  moreover have "concat (map entry_text es) @ [] = str ''0xb2100000, B2200FFF''"
    by (simp add: es_def entry_text_def)
  moreover have "addresses_of es = [0xb2100000, 0xb2200000]"
    by (simp add: es_def addresses_of_def entry_value_def hex_value_def PAGE_MASK_def PAGE_SIZE_def push_bit_eq_mult)
  ultimately show ?thesis using parse_addresses_typed [of es "[]" 256] by simp
qed

theorem parse_addresses_stuck_witness:
  "parse_addresses (str ''0xb2100000, g1'') 256 = None"
proof -
  define es where "es = [\<lparr>en_gap = [], en_prefix = True, en_digits = str ''b2100000''\<rparr>]"
  have "line_ok es" by (simp add: es_def line_ok_def entry_ok_def is_hex_digit_def)
  moreover have "concat (map entry_text es) @ str '', '' @ ch CHR ''g'' # str ''1'' = str ''0xb2100000, g1''"
    by (simp add: es_def entry_text_def)
  moreover have "stuck_at (ch CHR ''g'')" by (simp add: stuck_at_def is_separator_def is_hex_digit_def)
  moreover have "length (addresses_of es) < 256" by (simp add: es_def addresses_of_def)
  moreover have "list_all is_separator (str '', '')" by (simp add: is_separator_def)
  ultimately show ?thesis
    using parse_addresses_stuck [of es "str '', ''" "ch CHR ''g''" 256 "str ''1''"] by simp
qed

section \<open>The typed line\<close>

text \<open>
  What the keyboard will deliver: \<open>keys w\<close> are the results of the next \<open>ReadKeyStroke\<close> calls, as
  far as they are known, times when there is no key included. Waiting does not use them up.
\<close>

definition scripted :: "'w firmware \<Rightarrow> ('w \<Rightarrow> (status \<times> input_key) list) \<Rightarrow> bool" where
  "scripted fw keys \<longleftrightarrow>
     (\<forall>w r rs. keys w = r # rs \<longrightarrow> fst (ReadKeyStroke fw w) = r \<and> keys (snd (ReadKeyStroke fw w)) = rs) \<and>
     (\<forall>us w. keys (Stall fw us w) = keys w)"

definition ends_line :: "status \<times> input_key \<Rightarrow> bool" where
  "ends_line = (\<lambda>(s, k). s = EFI_SUCCESS \<and> (key_scan k = 0x17 \<or> key_char k = 0xD \<or> key_char k = 0xA))"

text \<open>The effect of a key on the text.\<close>

definition edit :: "nat \<Rightarrow> status \<times> input_key \<Rightarrow> u16 list \<Rightarrow> u16 list" where
  "edit cap = (\<lambda>(s, k) buf.
     if s \<noteq> EFI_SUCCESS then buf
     else if key_char k = 0x08 \<or> key_char k = 0x7F then butlast buf
     else if key_char k \<ge> ch CHR '' '' \<and> key_char k < 0x7F \<and> length buf + 1 < cap then buf @ [key_char k]
     else buf)"

lemma scripted_read:
  assumes "scripted fw keys" "keys w = r # rs"
  shows "\<exists>w1. ReadKeyStroke fw w = (r, w1) \<and> keys w1 = rs"
proof (cases "ReadKeyStroke fw w")
  case (Pair a w1)
  then show ?thesis
    using assms(1) [unfolded scripted_def, THEN conjunct1, rule_format, OF assms(2)] by simp
qed

lemma read_line_step:
  assumes "scripted fw keys" "keys w = r # rs" "\<not> ends_line r"
  shows "\<exists>w'. read_line_loop fw cap buf w = read_line_loop fw cap (edit cap r buf) w' \<and> keys w' = rs"
proof -
  obtain s k where r: "r = (s, k)" by (cases r)
  obtain w1 where rd: "ReadKeyStroke fw w = ((s, k), w1)" "keys w1 = rs"
    using scripted_read [OF assms(1,2)] r by blast
  have st: "keys (efi_stall_ms fw 10 w1) = rs" using assms(1) rd(2) by (simp add: scripted_def efi_stall_ms_def)
  show ?thesis
  proof (cases "s = EFI_NOT_READY")
    case True
    then show ?thesis
      using st by (intro exI [of _ "efi_stall_ms fw 10 w1"])
        (simp add: read_line_loop.simps [of fw cap buf w] rd(1) r edit_def)
  next
    case False
    then show ?thesis
      using assms(3) rd(2)
      by (intro exI [of _ w1])
        (auto simp: read_line_loop.simps [of fw cap buf w] rd(1) r edit_def ends_line_def Let_def)
  qed
qed

lemma edit_length: "length buf < cap \<Longrightarrow> length (edit cap r buf) < cap"
  by (cases r) (auto simp: edit_def)

text \<open>C17: the line editor comes back as soon as the user ends the line: whatever was typed before, waiting
  times included, when Enter or Escape is pressed the call returns, with the edited text and its
  length, or length 0 for Escape, and the text fits the buffer.\<close>

theorem read_line_returns:
  assumes "scripted fw keys" "keys w = evs @ (EFI_SUCCESS, k) # rest"
    and "\<forall>r \<in> set evs. \<not> ends_line r" "ends_line (EFI_SUCCESS, k)" "0 < cap"
  shows "\<exists>line w'. read_line fw cap w = Some (if key_scan k = 0x17 then 0 else length line, line, w') \<and>
    keys w' = rest \<and> line = fold (edit cap) evs [] \<and> length line < cap"
proof -
  have "\<exists>line w'. read_line_loop fw cap buf w = Some (if key_scan k = 0x17 then 0 else length line, line, w') \<and>
      keys w' = rest \<and> line = fold (edit cap) evs buf \<and> length line < cap"
    if "keys w = evs @ (EFI_SUCCESS, k) # rest" "length buf < cap" for buf w
    using that assms(3)
  proof (induction evs arbitrary: buf w)
    case Nil
    then obtain w1 where rd: "ReadKeyStroke fw w = ((EFI_SUCCESS, k), w1)" "keys w1 = rest"
      using scripted_read [OF assms(1), of w] by auto
    then show ?case
      using Nil.prems(2) assms(4)
      by (auto simp: read_line_loop.simps [of fw cap buf w] ends_line_def)
  next
    case (Cons r evs)
    then obtain w' where "read_line_loop fw cap buf w = read_line_loop fw cap (edit cap r buf) w'"
      "keys w' = evs @ (EFI_SUCCESS, k) # rest"
      using read_line_step [OF assms(1), of w r "evs @ (EFI_SUCCESS, k) # rest" cap buf] by auto
    with Cons.IH [of w' "edit cap r buf"] Cons.prems edit_length [of buf cap r] show ?case by simp
  qed
  from this [OF assms(2), of "[]"] assms(5) show ?thesis by (simp add: read_line_def)
qed

definition bench_keys :: "machine \<Rightarrow> (status \<times> input_key) list" where
  "bench_keys w = map (Pair EFI_SUCCESS) (m_keys w)"

lemma scripted_bench: "scripted bench bench_keys"
  by (auto simp: scripted_def bench_keys_def bench_simps)

definition key :: "u16 \<Rightarrow> input_key" where
  "key c = \<lparr>key_scan = 0, key_char = c\<rparr>"

theorem read_line_returns_witness:
  "\<exists>w'. read_line bench 512 (blank_machine\<lparr>m_keys := map key [0x31, 0x32, 0x08, 0x33, 0xD]\<rparr>) =
    Some (2, [0x31, 0x33], w')"
  using read_line_returns [OF scripted_bench, of "blank_machine\<lparr>m_keys := map key [0x31, 0x32, 0x08, 0x33, 0xD]\<rparr>"
      "map (\<lambda>c. (EFI_SUCCESS, key c)) [0x31, 0x32, 0x08, 0x33]" "key 0xD" "[]" 512]
  by (simp add: bench_keys_def ends_line_def edit_def key_def) (metis One_nat_def Suc_1)

section \<open>Escape at the prompt for a saved mask\<close>

text \<open>
  The firmware reports Escape as scan code \<open>0x17\<close> with no character. The line editor tests the
  scan code; the prompt tests the character, which is 0, so that Escape is not noticed.
\<close>

definition esc_key :: input_key where
  "esc_key = \<lparr>key_scan = 0x17, key_char = 0\<rparr>"

lemma saved_prompt_ignores_escape:
  assumes "HasConIn fw" "ReadKeyStroke fw w = ((EFI_SUCCESS, esc_key), w')"
  shows "saved_prompt fw w = saved_prompt fw (efi_stall_ms fw 50 w')"
  using assms by (subst saved_prompt.simps) (simp add: efi_readkey_def esc_key_def)

section \<open>The blob read back\<close>

lemma bad_pages_blob_records:
  assumes "i < length pas"
  shows "(of_le (take 8 (drop (8 + 8 * i) ([1, 0, 0, 0] @ to_le 4 (n :: u32) @ concat (map (to_le 8) pas)))) :: u64) = pas ! i"
proof -
  have "drop (i * 8) (concat (map (to_le 8) pas) @ []) = to_le 8 (pas ! i) @ drop (Suc i * 8) (concat (map (to_le 8) pas) @ [])"
    using assms by (intro drop_records) simp_all
  moreover have "drop (8 + 8 * i) ([1, 0, 0, 0] @ to_le 4 n @ concat (map (to_le 8) pas)) =
      drop (i * 8) (concat (map (to_le 8) pas))"
  proof -
    have "drop (8 + 8 * i) (hdr @ xs) = drop (i * 8) xs" if "length hdr = 8" for hdr xs :: "u8 list"
      using that by (simp add: mult.commute)
    from this [of "[1, 0, 0, 0] @ to_le 4 n" "concat (map (to_le 8) pas)"] show ?thesis by simp
  qed
  ultimately show ?thesis by simp
qed

lemma length_bad_pages_blob: "length (bad_pages_blob pas) = 8 + 8 * min 4096 (length pas)"
proof -
  have "length (concat (map (to_le 8) xs)) = length xs * 8" for xs :: "u64 list"
    by (rule length_records) simp
  then show ?thesis by (simp add: bad_pages_blob_def Let_def min_def)
qed

text \<open>No mode that the console has is larger than the chosen one.\<close>

definition mode_area :: "(nat \<Rightarrow> status \<times> u64 \<times> u64) \<Rightarrow> nat \<Rightarrow> u64" where
  "mode_area query m = (let (q, cols, rows) = query m in if q = EFI_SUCCESS then cols * rows else 0)"

lemma best_text_mode_largest:
  assumes "m < 8"
  shows "mode_area query m \<le> mode_area query (best_text_mode query)"
proof -
  have step: "mode_step query m (b, a) = (if mode_area query m > a then (m, mode_area query m) else (b, a))" for m b a
    by (simp add: mode_step_def mode_area_def split: prod.splits)
  have "a \<le> mode_area query b \<Longrightarrow> fold (mode_step query) ms (b, a) = (b', a') \<Longrightarrow>
      a' \<le> mode_area query b' \<and> a \<le> a' \<and> (\<forall>m \<in> set ms. mode_area query m \<le> a')" for ms b a b' a'
  proof (induction ms arbitrary: b a)
    case (Cons m ms)
    then show ?case
      by (cases "mode_area query m > a") (fastforce simp: step)+
  qed simp
  from this [of 0 0 "[0..<8]"] obtain b' a' where "fold (mode_step query) [0..<8] (0, 0) = (b', a')"
    "a' \<le> mode_area query b'" "\<forall>m \<in> set [0..<8]. mode_area query m \<le> a'"
    by (metis surj_pair word_zero_le)
  moreover from this(3) have "mode_area query m \<le> a'" using assms by (simp del: upt_rec_numeral)
  ultimately show ?thesis unfolding best_text_mode_def by simp
qed

end
