(* ===== verification/Mask_Install.thy ===== *)
theory Mask_Install
  imports Shim_Nvram Brr_Entry
begin

text \<open>
  The two programs an advanced user starts by hand: \<^verbatim>\<open>efi/mask-install/main.c\<close>, which installs the
  shim or with \<open>--uninstall\<close> removes it, and \<^verbatim>\<open>efi/revert/main.c\<close>, which removes it. Both ask
  first, call \<open>install_mask_full\<close> or \<open>uninstall_mask_full\<close> of \<open>Mask_Ops\<close>, and reset the machine on
  success. \<open>ResetSystem\<close> ends the program, as in \<open>Brr_Entry\<close>.
\<close>

section \<open>The prompts\<close>

text \<open>The four prompts differ in what they print; they share the loop over the keys: one try each
  100 ms, \<open>Y\<close> or \<open>y\<close> confirms, any other key and the end of the time cancel.\<close>

fun yes_loop :: "'w firmware \<Rightarrow> nat \<Rightarrow> 'w \<Rightarrow> u16 \<times> 'w" where
  "yes_loop fw 0 w = (0, w)"
| "yes_loop fw (Suc ticks) w =
     (let (k, w) = efi_readkey fw w in
      if k = ch CHR ''Y'' \<or> k = ch CHR ''y'' then (ch CHR ''Y'', w)
      else if k \<noteq> 0 then (0, w)
      else yes_loop fw ticks (efi_stall_ms fw 100 w))"

definition install_prompt_yesno :: "'w firmware \<Rightarrow> u32 \<Rightarrow> 'w \<Rightarrow> u16 \<times> 'w" where
  "install_prompt_yesno fw timeout_s w = yes_loop fw (unat (timeout_s * 10)) w"

definition install_prompt_yesno_2 :: "'w firmware \<Rightarrow> u32 \<Rightarrow> 'w \<Rightarrow> u16 \<times> 'w" where
  "install_prompt_yesno_2 fw timeout_s w = yes_loop fw (unat (timeout_s * 10)) w"

definition uninstall_prompt_yesno :: "'w firmware \<Rightarrow> u32 \<Rightarrow> 'w \<Rightarrow> u16 \<times> 'w" where
  "uninstall_prompt_yesno fw timeout_s w = yes_loop fw (unat (timeout_s * 10)) w"

definition revert_prompt :: "'w firmware \<Rightarrow> u32 \<Rightarrow> 'w \<Rightarrow> u16 \<times> 'w" where
  "revert_prompt fw timeout_s w = yes_loop fw (unat (timeout_s * 10)) w"

section \<open>Removal\<close>

text \<open>Removal and the reset after it, once confirmed.\<close>

definition uninstall_and_reset :: "'w firmware \<Rightarrow> handle \<Rightarrow> 'w \<Rightarrow> (entry_result \<times> 'w) option" where
  "uninstall_and_reset fw img w =
     map_option (\<lambda>(us, _, w).
         if us \<noteq> EFI_SUCCESS then (Returned us, efi_stall_ms fw 5000 w) else reset_after fw 3000 w)
       (uninstall_mask_full fw img w)"

definition uninstall_main :: "'w firmware \<Rightarrow> handle \<Rightarrow> 'w \<Rightarrow> (entry_result \<times> 'w) option" where
  "uninstall_main fw img w =
     (let (ans, w) = uninstall_prompt_yesno fw 30 w in
      if ans \<noteq> ch CHR ''Y'' then Some (Returned EFI_ABORTED, efi_stall_ms fw 2000 w)
      else uninstall_and_reset fw img w)"

definition revert_main :: "'w firmware \<Rightarrow> handle \<Rightarrow> 'w \<Rightarrow> (entry_result \<times> 'w) option" where
  "revert_main fw img w =
     (let (ans, w) = revert_prompt fw 30 w in
      if ans \<noteq> ch CHR ''Y'' then Some (Returned EFI_ABORTED, efi_stall_ms fw 3000 w)
      else uninstall_and_reset fw img w)"

section \<open>Installation\<close>

definition uninstall_requested :: "'w firmware \<Rightarrow> handle \<Rightarrow> 'w \<Rightarrow> bool" where
  "uninstall_requested fw img w =
     (let (s, opts) = LoadOptions fw img w;
          flag = str ''--uninstall''
      in s = EFI_SUCCESS \<and> list_ex (\<lambda>i. opt_at opts i flag) [0..<Suc (length opts) - length flag])"

text \<open>The number of saved pages that the program shows, read with a buffer of 8 bytes.\<close>

definition bad_pages_shown :: "'w firmware \<Rightarrow> 'w \<Rightarrow> u32 option" where
  "bad_pages_shown fw w =
     (let (sv, probe_blob) = GetVariable fw BRR_VARNAME_BADPAGES BRR_GUID 8 w in
      if sv = EFI_SUCCESS \<and> length probe_blob \<ge> 8 then Some (of_le (take 4 (drop 4 probe_blob))) else None)"

definition TEST_VAR :: "u16 list" where "TEST_VAR = str ''BrrMaskProbe''"

text \<open>The test write: its status, and on success the deletion of what it wrote.\<close>

definition nvram_write_test :: "'w firmware \<Rightarrow> 'w \<Rightarrow> status \<times> 'w" where
  "nvram_write_test fw w =
     (let (sp, w) = SetVariable fw TEST_VAR BRR_GUID NV_BS_RT [0x42] w in
      if sp \<noteq> EFI_SUCCESS then (sp, w)
      else (EFI_SUCCESS, snd (SetVariable fw TEST_VAR BRR_GUID NV_BS_RT [] w)))"

definition install_main :: "'w firmware \<Rightarrow> handle \<Rightarrow> 'w \<Rightarrow> (entry_result \<times> 'w) option" where
  "install_main fw img w =
     (let (sp, w) = nvram_write_test fw w in
      if sp \<noteq> EFI_SUCCESS then Some (Returned sp, efi_stall_ms fw 5000 w)
      else
        let (ans1, w) = install_prompt_yesno fw 30 w in
        if ans1 \<noteq> ch CHR ''Y'' then Some (Returned EFI_ABORTED, efi_stall_ms fw 2000 w)
        else
          let (ans2, w) = install_prompt_yesno_2 fw 30 w in
          if ans2 \<noteq> ch CHR ''Y'' then Some (Returned EFI_ABORTED, efi_stall_ms fw 2000 w)
          else
            map_option (\<lambda>(iis, _, w).
                if iis \<noteq> EFI_SUCCESS then (Returned iis, efi_stall_ms fw 5000 w) else reset_after fw 3000 w)
              (install_mask_full fw img w))"

text \<open>The whole program, with the number of pages it showed first in installation mode.\<close>

definition mask_install_main ::
  "'w firmware \<Rightarrow> handle \<Rightarrow> 'w \<Rightarrow> u32 option \<times> (entry_result \<times> 'w) option" where
  "mask_install_main fw img w =
     (if uninstall_requested fw img w then (None, uninstall_main fw img w)
      else (bad_pages_shown fw w, install_main fw img w))"

section \<open>The prompts answer only what was typed\<close>

lemma yes_loop_vars: "frame_law fw vars \<Longrightarrow> vars (snd (yes_loop fw n w)) = vars w"
  by (induction n arbitrary: w)
    (simp_all add: efi_readkey_def efi_stall_ms_def split_def Let_def frame_basic)

lemma stall_vars: "frame_law fw vars \<Longrightarrow> vars (efi_stall_ms fw ms w) = vars w"
  by (simp add: efi_stall_ms_def frame_basic)

lemma prompt_vars:
  assumes "frame_law fw vars"
  shows "vars (snd (install_prompt_yesno fw t w)) = vars w" "vars (snd (install_prompt_yesno_2 fw t w)) = vars w"
    "vars (snd (uninstall_prompt_yesno fw t w)) = vars w" "vars (snd (revert_prompt fw t w)) = vars w"
  by (simp_all add: install_prompt_yesno_def install_prompt_yesno_2_def uninstall_prompt_yesno_def
      revert_prompt_def yes_loop_vars [OF assms])

text \<open>Without a keyboard the answer is never yes.\<close>

lemma yes_loop_no_keyboard: "\<not> HasConIn fw \<Longrightarrow> fst (yes_loop fw n w) = 0"
  by (induction n arbitrary: w) (simp_all add: efi_readkey_def)

section \<open>All or nothing\<close>

lemma uninstall_and_reset_effect:
  assumes "variable_store fw vars" "deletes_succeed fw" "enum_law fw vars"
  shows "\<exists>w'. uninstall_and_reset fw img w = Some (Machine_Reset, w') \<and> (\<forall>nm. vars w' (BRR_GUID, nm) = None)"
proof -
  have fr: "frame_law fw vars" using assms(1) by (simp add: variable_store_def)
  obtain r w1 where "uninstall_mask_full fw img w = Some (EFI_SUCCESS, r, w1)" "\<forall>nm. vars w1 (BRR_GUID, nm) = None"
    using uninstall_returns [OF assms, of img w] by blast
  then show ?thesis by (simp add: uninstall_and_reset_def reset_after_def stall_vars [OF fr])
qed

lemma removal_all_or_nothing:
  assumes "variable_store fw vars" "deletes_succeed fw" "enum_law fw vars"
    and "vars w1 = vars w"
  shows "\<exists>r w'. (if ans \<noteq> ch CHR ''Y'' then Some (Returned EFI_ABORTED, efi_stall_ms fw ms w1)
      else uninstall_and_reset fw img w1) = Some (r, w') \<and>
    (if r = Machine_Reset then \<forall>nm. vars w' (BRR_GUID, nm) = None
     else r = Returned EFI_ABORTED \<and> vars w' = vars w)"
proof (cases "ans = ch CHR ''Y''")
  case True
  then show ?thesis using uninstall_and_reset_effect [OF assms(1-3), of img w1] by auto
next
  case False
  have "frame_law fw vars" using assms(1) by (simp add: variable_store_def)
  with False show ?thesis by (simp add: stall_vars assms(4))
qed



text \<open>The same holds of the removal mode of the installer.\<close>

lemma uninstall_main_all_or_nothing:
  assumes "variable_store fw vars" "deletes_succeed fw" "enum_law fw vars" "uninstall_requested fw img w"
  shows "\<exists>r w'. mask_install_main fw img w = (None, Some (r, w')) \<and>
    (if r = Machine_Reset then \<forall>nm. vars w' (BRR_GUID, nm) = None
     else r = Returned EFI_ABORTED \<and> vars w' = vars w)"
proof -
  obtain ans w1 where p: "uninstall_prompt_yesno fw 30 w = (ans, w1)" by (metis surj_pair)
  have v: "vars w1 = vars w" using prompt_vars(3) [of fw vars 30 w] assms(1) p by (simp add: variable_store_def)
  have run: "mask_install_main fw img w = (None, if ans \<noteq> ch CHR ''Y'' then Some (Returned EFI_ABORTED, efi_stall_ms fw 2000 w1)
      else uninstall_and_reset fw img w1)"
    using assms(4) by (simp only: mask_install_main_def uninstall_main_def p if_True Let_def prod.case)
  show ?thesis
    by (simp only: run prod.inject simp_thms) (rule removal_all_or_nothing [OF assms(1-3) v])
qed

text \<open>The test write leaves no trace, whether it succeeds or not.\<close>

lemma nvram_write_test_vars:
  assumes "set_law fw vars" "deletes_succeed fw" "vars w (BRR_GUID, TEST_VAR) = None"
  shows "vars (snd (nvram_write_test fw w)) = vars w"
proof -
  have ne: "TEST_VAR \<noteq> []" by (simp add: TEST_VAR_def)
  have "(vars w)((BRR_GUID, TEST_VAR) := None) = vars w" using assms(3) by (simp add: fun_upd_idem)
  then show ?thesis
    using assms(1) [unfolded set_law_def, rule_format, of TEST_VAR BRR_GUID NV_BS_RT "[0x42]" w]
    by (simp add: nvram_write_test_def split_def Let_def delete_effect [OF assms(1,2) ne])
qed


text \<open>A machine on which the user confirms once and then presses another key.\<close>

definition wavering :: machine where
  "wavering = blank_machine\<lparr>m_keys := [\<lparr>key_scan = 0, key_char = ch CHR ''y''\<rparr>,
     \<lparr>key_scan = 0, key_char = ch CHR ''n''\<rparr>]\<rparr>"

lemma yes_loop_bench:
  "m_keys w = \<lparr>key_scan = 0, key_char = c\<rparr> # ks \<Longrightarrow> c \<noteq> 0 \<Longrightarrow>
    yes_loop bench (Suc n) w = (if c = ch CHR ''Y'' \<or> c = ch CHR ''y'' then ch CHR ''Y'' else 0, w\<lparr>m_keys := ks\<rparr>)"
  by (simp add: efi_readkey_def bench_simps)

lemma install_wavering: "\<exists>w'. install_main bench 7 wavering = Some (Returned EFI_ABORTED, w')"
proof -
  have t: "nvram_write_test bench wavering = (EFI_SUCCESS, wavering)"
    by (simp add: nvram_write_test_def bench_simps TEST_VAR_def wavering_def blank_machine_def)
  have n: "unat (30 * 10 :: u32) = Suc 299" by simp
  have "install_prompt_yesno bench 30 wavering =
      (ch CHR ''Y'', wavering\<lparr>m_keys := [\<lparr>key_scan = 0, key_char = ch CHR ''n''\<rparr>]\<rparr>)"
    unfolding install_prompt_yesno_def n
    using yes_loop_bench [of wavering "ch CHR ''y''" "[\<lparr>key_scan = 0, key_char = ch CHR ''n''\<rparr>]" 299]
    by (simp add: wavering_def del: yes_loop.simps)
  moreover have "fst (install_prompt_yesno_2 bench 30 (wavering\<lparr>m_keys := [\<lparr>key_scan = 0, key_char = ch CHR ''n''\<rparr>]\<rparr>)) = 0"
    unfolding install_prompt_yesno_2_def n
    using yes_loop_bench [of "wavering\<lparr>m_keys := [\<lparr>key_scan = 0, key_char = ch CHR ''n''\<rparr>]\<rparr>" "ch CHR ''n''" "[]" 299]
    by (simp del: yes_loop.simps)
  ultimately show ?thesis by (simp add: install_main_def t split_def)
qed


text \<open>
  The buffer of 8 bytes is too small for every list with a page, so that the installer says that
  there is none.
\<close>

lemma bad_pages_never_shown:
  assumes "get_law fw vars" "vars w (BRR_GUID, BRR_VARNAME_BADPAGES) = Some blob" "8 < length blob"
  shows "bad_pages_shown fw w = None"
  using assms(2,3) by (simp add: bad_pages_shown_def get_variable_law [OF assms(1)])

end
