(* ===== verification/Decoder_Selftest.thy ===== *)
theory Decoder_Selftest
  imports Imc_Dispatch Efi_Firmware "HOL-Library.Multiset"
begin

text \<open>
  \<^verbatim>\<open>src/decoder_selftest.c\<close>: the test of the address decoder by bank-conflict timing, run while boot
  services are alive: the search for three pairs of pages, the median of a hundred timed accesses
  of each, the verdict, and the status it leaves in NVRAM for the boot shim. Loads, cache flushes,
  fences, the time stamp counter and the boot services are the parameter \<open>svc\<close>; printed lines
  are left out.
\<close>

section \<open>Status, services\<close>

datatype brr_decoder_status =
    BRR_DECODER_UNKNOWN
  | BRR_DECODER_VALIDATED
  | BRR_DECODER_FAILED
  | BRR_DECODER_NOT_APPLICABLE

text \<open>A null pointer to a service or a table of services is \<open>None\<close>.\<close>

record 'w probe_services =
  ps_boot :: bool
  ps_stall :: "(u64 \<Rightarrow> 'w \<Rightarrow> 'w) option"
  ps_allocate_pages :: "nat \<Rightarrow> 'w \<Rightarrow> (status \<times> u64) \<times> 'w"
  ps_free_pages :: "u64 \<Rightarrow> nat \<Rightarrow> 'w \<Rightarrow> 'w"
  ps_set_variable :: "(u16 list \<Rightarrow> efi_guid \<Rightarrow> u32 \<Rightarrow> u8 list \<Rightarrow> 'w \<Rightarrow> 'w) option"
  ps_load :: "u64 \<Rightarrow> 'w \<Rightarrow> 'w"
  ps_store :: "u64 \<Rightarrow> u8 \<Rightarrow> 'w \<Rightarrow> 'w"
  ps_clflush :: "u64 \<Rightarrow> 'w \<Rightarrow> 'w"
  ps_mfence :: "'w \<Rightarrow> 'w"
  ps_rdtsc :: "'w \<Rightarrow> (u32 \<times> u32) \<times> 'w"

definition BRR_GUID_ST :: efi_guid where
  "BRR_GUID_ST = \<lparr>guid_data1 = 0x3e3e9db2, guid_data2 = 0x1a2b, guid_data3 = 0x4b5c,
     guid_data4 = [0x9d, 0x1e, 0x5f, 0x6a, 0x7b, 0x8c, 0x9d, 0x0e]\<rparr>"

definition BRR_DECODER_VARNAME :: "u16 list" where
  "BRR_DECODER_VARNAME = str ''BrrDecoderStatus''"

definition EFI_VAR_NV_BS_RT :: u32 where "EFI_VAR_NV_BS_RT = 1 OR 2 OR 4"

definition SAMPLES :: nat where "SAMPLES = 100"
definition STALL_PER_SAMPLE_US :: u32 where "STALL_PER_SAMPLE_US = 10"
definition BUF_PAGES :: nat where "BUF_PAGES = 1024"
definition PAGE_BYTES :: u64 where "PAGE_BYTES = 4096"

section \<open>Timing\<close>

definition rdtsc_lfence :: "'w probe_services \<Rightarrow> 'w \<Rightarrow> u64 \<times> 'w" where
  "rdtsc_lfence svc w =
     (let ((lo, hi), w) = ps_rdtsc svc w in (push_bit 32 (ucast hi) OR ucast lo, w))"

definition measure_pair :: "'w probe_services \<Rightarrow> u64 \<Rightarrow> u64 \<Rightarrow> 'w \<Rightarrow> u64 \<times> 'w" where
  "measure_pair svc ptr1 ptr2 w =
     (let w = ps_load svc ptr1 w;
          w = ps_clflush svc ptr1 w;
          w = ps_clflush svc ptr2 w;
          w = ps_mfence svc w;
          (t0, w) = rdtsc_lfence svc w;
          w = ps_load svc ptr2 w;
          (t1, w) = rdtsc_lfence svc w
      in (t1 - t0, w))"

text \<open>The insertion sort, in place: the gap moves down while the element below it is greater.\<close>

fun sift_down :: "u64 list \<Rightarrow> nat \<Rightarrow> u64 \<Rightarrow> u64 list \<times> nat" where
  "sift_down a 0 key = (a, 0)"
| "sift_down a (Suc j) key =
     (if a ! j > key then sift_down (a[Suc j := a ! j]) j key else (a, Suc j))"

definition sort_u64 :: "u64 list \<Rightarrow> nat \<Rightarrow> u64 list" where
  "sort_u64 a n =
     fold (\<lambda>i a. let key = a ! i; (a, j) = sift_down a i key in a[j := key]) [1..<n] a"

text \<open>The samples still to be taken; \<open>None\<close> when the budget is used up.\<close>

fun sample_loop ::
  "'w probe_services \<Rightarrow> u64 \<Rightarrow> u64 \<Rightarrow> nat \<Rightarrow> u64 list \<Rightarrow> u32 \<Rightarrow> 'w \<Rightarrow> u64 list option \<times> u32 \<times> 'w" where
  "sample_loop svc ptr1 ptr2 0 samples budget_us w = (Some samples, budget_us, w)"
| "sample_loop svc ptr1 ptr2 (Suc k) samples budget_us w =
     (let (x, w) = measure_pair svc ptr1 ptr2 w;
          w = ps_clflush svc ptr1 w;
          w = ps_clflush svc ptr2 w;
          w = ps_mfence svc w
      in
        if ps_stall svc \<noteq> None \<and> budget_us \<ge> STALL_PER_SAMPLE_US then
          sample_loop svc ptr1 ptr2 k (samples @ [x]) (budget_us - STALL_PER_SAMPLE_US)
            (the (ps_stall svc) (ucast STALL_PER_SAMPLE_US) w)
        else if budget_us = 0 then (None, budget_us, w)
        else sample_loop svc ptr1 ptr2 k (samples @ [x]) budget_us w)"

definition median_latency ::
  "'w probe_services \<Rightarrow> u64 \<Rightarrow> u64 \<Rightarrow> u32 \<Rightarrow> 'w \<Rightarrow> u64 \<times> u32 \<times> 'w" where
  "median_latency svc ptr1 ptr2 budget_us w =
     (let (r, budget_us, w) = sample_loop svc ptr1 ptr2 SAMPLES [] budget_us w
      in (case r of None \<Rightarrow> (0, budget_us, w)
          | Some samples \<Rightarrow> (sort_u64 samples SAMPLES ! (SAMPLES div 2), budget_us, w)))"

section \<open>Pairs of pages\<close>

text \<open>
  The walk the three searches share: the first page that decodes is kept, and the first later one
  that stands in the relation to it ends the search.
\<close>

function pair_loop ::
  "(pa_decoded \<times> u64 \<Rightarrow> pa_decoded \<times> u64 \<Rightarrow> bool) \<Rightarrow> 's imc_ops list \<Rightarrow> u64 \<Rightarrow> nat \<Rightarrow> (pa_decoded \<times> u64) option
     \<Rightarrow> 's dispatch \<Rightarrow> (u64 \<times> u64) option \<times> 's dispatch" where
  "pair_loop rel families pa_base i first ds =
     (if i \<ge> BUF_PAGES then (None, ds)
      else
        let pa = pa_base + of_nat i * PAGE_BYTES;
            (d, ds) = imc_decode_pa families pa ds
        in
          if \<not> d_valid d \<or> \<not> d_bank_row_valid d then pair_loop rel families pa_base (i + 1) first ds
          else
            (case first of
               None \<Rightarrow> pair_loop rel families pa_base (i + 1) (Some (d, pa)) ds
             | Some f \<Rightarrow>
                 if rel f (d, pa) then (Some (snd f, pa), ds)
                 else pair_loop rel families pa_base (i + 1) first ds))"
  by pat_completeness auto
termination by (relation "measure (\<lambda>(_, _, _, i, _, _). BUF_PAGES - i)") (auto simp: BUF_PAGES_def)

declare pair_loop.simps [simp del]

definition same_row :: "pa_decoded \<times> u64 \<Rightarrow> pa_decoded \<times> u64 \<Rightarrow> bool" where
  "same_row = (\<lambda>(first, first_pa) (d, pa).
     d_bank_group d = d_bank_group first \<and> d_bank d = d_bank first \<and> d_row d = d_row first \<and> pa \<noteq> first_pa)"

definition row_conflict :: "pa_decoded \<times> u64 \<Rightarrow> pa_decoded \<times> u64 \<Rightarrow> bool" where
  "row_conflict = (\<lambda>(first, first_pa) (d, pa).
     d_bank_group d = d_bank_group first \<and> d_bank d = d_bank first \<and> d_row d \<noteq> d_row first)"

definition other_bank :: "pa_decoded \<times> u64 \<Rightarrow> pa_decoded \<times> u64 \<Rightarrow> bool" where
  "other_bank = (\<lambda>(first, first_pa) (d, pa).
     d_bank_group d \<noteq> d_bank_group first \<or> d_bank d \<noteq> d_bank first)"

text \<open>The pointers into the buffer at \<open>buf\<close>.\<close>

definition in_buffer :: "u64 \<Rightarrow> u64 \<Rightarrow> (u64 \<times> u64) option \<Rightarrow> (u64 \<times> u64) option" where
  "in_buffer pa_base buf = map_option (\<lambda>(p, q). (buf + (p - pa_base), buf + (q - pa_base)))"

definition find_row_hit ::
  "'s imc_ops list \<Rightarrow> u64 \<Rightarrow> u64 \<Rightarrow> 's dispatch \<Rightarrow> (u64 \<times> u64) option \<times> 's dispatch" where
  "find_row_hit families pa_base buf ds =
     (let (r, ds) = pair_loop same_row families pa_base 0 None ds in (in_buffer pa_base buf r, ds))"

definition find_bank_conflict ::
  "'s imc_ops list \<Rightarrow> u64 \<Rightarrow> u64 \<Rightarrow> 's dispatch \<Rightarrow> (u64 \<times> u64) option \<times> 's dispatch" where
  "find_bank_conflict families pa_base buf ds =
     (let (r, ds) = pair_loop row_conflict families pa_base 0 None ds in (in_buffer pa_base buf r, ds))"

definition find_diff_bank ::
  "'s imc_ops list \<Rightarrow> u64 \<Rightarrow> u64 \<Rightarrow> 's dispatch \<Rightarrow> (u64 \<times> u64) option \<times> 's dispatch" where
  "find_diff_bank families pa_base buf ds =
     (let (r, ds) = pair_loop other_bank families pa_base 0 None ds in (in_buffer pa_base buf r, ds))"

section \<open>The test\<close>

definition status_text :: "brr_decoder_status \<Rightarrow> u8 list" where
  "status_text r =
     (case r of
        BRR_DECODER_VALIDATED \<Rightarrow> str ''VALIDATED''
      | BRR_DECODER_FAILED \<Rightarrow> str ''FAILED''
      | BRR_DECODER_NOT_APPLICABLE \<Rightarrow> str ''NOT_APPLICABLE''
      | BRR_DECODER_UNKNOWN \<Rightarrow> str ''UNKNOWN'')"

definition write_status :: "'w probe_services \<Rightarrow> brr_decoder_status \<Rightarrow> 'w \<Rightarrow> 'w" where
  "write_status svc r w =
     (case ps_set_variable svc of
        None \<Rightarrow> w
      | Some set_var \<Rightarrow> set_var BRR_DECODER_VARNAME BRR_GUID_ST EFI_VAR_NV_BS_RT (status_text r) w)"

text \<open>The three medians give the verdict: a conflict has to take more than half as long again.\<close>

definition verdict :: "u64 \<Rightarrow> u64 \<Rightarrow> u64 \<Rightarrow> brr_decoder_status" where
  "verdict r_med c_med d_med =
     (let pass_cr = 2 * c_med > 3 * r_med;
          pass_cd = 2 * c_med > 3 * d_med
      in if pass_cr \<and> pass_cd then BRR_DECODER_VALIDATED else BRR_DECODER_FAILED)"

definition measure_and_report ::
  "'w probe_services \<Rightarrow> u64 \<Rightarrow> u64 \<times> u64 \<Rightarrow> u64 \<times> u64 \<Rightarrow> u64 \<times> u64 \<Rightarrow> 'w \<Rightarrow> brr_decoder_status \<times> 'w" where
  "measure_and_report svc buf_pa r c d w =
     (let budget_us = 5000000;
          (r_med, budget_us, w) = median_latency svc (fst r) (snd r) budget_us w;
          (c_med, budget_us, w) = median_latency svc (fst c) (snd c) budget_us w;
          (d_med, budget_us, w) = median_latency svc (fst d) (snd d) budget_us w;
          w = ps_free_pages svc buf_pa BUF_PAGES w
      in
        if r_med = 0 \<or> c_med = 0 \<or> d_med = 0 then (BRR_DECODER_UNKNOWN, w)
        else
          let result = verdict r_med c_med d_med
          in (result, write_status svc result w))"

text \<open>From the allocation of the buffer on.\<close>

definition run_probe ::
  "'w probe_services \<Rightarrow> 's imc_ops list \<Rightarrow> 's dispatch \<Rightarrow> 'w \<Rightarrow> brr_decoder_status \<times> 's dispatch \<times> 'w" where
  "run_probe svc families ds w =
     (let ((s, buf_pa), w) = ps_allocate_pages svc BUF_PAGES w in
      if s \<noteq> EFI_SUCCESS \<or> buf_pa = 0 then (BRR_DECODER_UNKNOWN, ds, w)
      else
        let w = fold (\<lambda>i w. ps_store svc (buf_pa + of_nat i * PAGE_BYTES) (of_nat i) w) [0..<BUF_PAGES] w;
            w = ps_mfence svc w;
            (r, ds) = find_row_hit families buf_pa buf_pa ds;
            (c, ds) = find_bank_conflict families buf_pa buf_pa ds;
            (d, ds) = find_diff_bank families buf_pa buf_pa ds
        in
          if r = None \<or> c = None \<or> d = None
          then (BRR_DECODER_UNKNOWN, ds, ps_free_pages svc buf_pa BUF_PAGES w)
          else
            let (result, w) = measure_and_report svc buf_pa (the r) (the c) (the d) w
            in (result, ds, w))"

definition decoder_selftest_run ::
  "'w probe_services option \<Rightarrow> 's imc_ops list \<Rightarrow> 's dispatch \<Rightarrow> 'w \<Rightarrow> brr_decoder_status \<times> 's dispatch \<times> 'w" where
  "decoder_selftest_run st families ds w =
     (case st of
        None \<Rightarrow> (BRR_DECODER_UNKNOWN, ds, w)
      | Some svc \<Rightarrow>
          if \<not> ps_boot svc then (BRR_DECODER_UNKNOWN, ds, w)
          else if ps_stall svc = None then (BRR_DECODER_UNKNOWN, ds, w)
          else
            let (ops, ds) = imc_active families ds in
            case Option.bind ops ops_decode_pa of
              None \<Rightarrow> (BRR_DECODER_NOT_APPLICABLE, ds, w)
            | Some decode_pa \<Rightarrow>
                let (probe, s) = decode_pa 0 (family_state ds);
                    ds = ds\<lparr>family_state := s\<rparr>
                in if \<not> d_bank_row_valid probe then (BRR_DECODER_NOT_APPLICABLE, ds, w)
                   else run_probe svc families ds w)"

section \<open>The sort\<close>

lemma insort_max:
  fixes key :: u64
  assumes "sorted xs" "\<forall>x \<in> set xs. x \<le> key"
  shows "insort key xs = xs @ [key]"
proof -
  have "sort (key # xs) = xs @ [key]"
    using assms by (intro properties_for_sort) (simp_all add: sorted_append)
  then show ?thesis using assms(1) by (simp add: sorted_sort_id)
qed

lemma insort_below:
  fixes key :: u64
  assumes "key < x"
  shows "insort key (xs @ [x]) = insort key xs @ [x]"
  using assms by (induction xs) auto

lemma sift_down_insort:
  assumes "sorted xs"
  shows "(case sift_down (xs @ y # rest) (length xs) key of (a, j) \<Rightarrow> a[j := key]) = insort key xs @ rest"
  using assms
proof (induction xs arbitrary: y rest rule: rev_induct)
  case (snoc x xs)
  then have xs: "sorted xs" "\<forall>z \<in> set xs. z \<le> x" by (simp_all add: sorted_append)
  show ?case
  proof (cases "key < x")
    case True
    have "(xs @ [x] @ y # rest)[Suc (length xs) := x] = xs @ x # x # rest"
      by (simp add: list_update_append)
    then show ?thesis
      using True snoc.IH [OF xs(1), of x "x # rest"]
      by (simp add: nth_append insort_below)
  next
    case False
    then have "insort key (xs @ [x]) = xs @ [x, key]"
      using xs snoc.prems by (subst insort_max) (auto intro: order_trans)
    then show ?thesis using False by (simp add: nth_append list_update_append)
  qed
qed simp

lemma sort_u64_prefix:
  assumes "0 < n" "n \<le> length a"
  shows "sort_u64 a n = sort (take n a) @ drop n a"
  using assms
proof (induction n)
  case (Suc n)
  show ?case
  proof (cases "n = 0")
    case True
    then show ?thesis using Suc.prems by (cases a) (simp_all add: sort_u64_def)
  next
    case False
    define key where "key = a ! n"
    have d: "drop n a = key # drop (Suc n) a"
      using Suc.prems by (simp add: key_def Cons_nth_drop_Suc)
    have IH: "sort_u64 a n = sort (take n a) @ key # drop (Suc n) a"
      using Suc False by (simp add: d)
    have len: "length (sort (take n a)) = n" using Suc.prems by simp
    have "sort_u64 a (Suc n) =
        (let key = sort_u64 a n ! n; (b, j) = sift_down (sort_u64 a n) n key in b[j := key])"
      using False by (simp add: sort_u64_def)
    also have "\<dots> = insort key (sort (take n a)) @ drop (Suc n) a"
      using sift_down_insort [where xs = "sort (take n a)" and y = key and rest = "drop (Suc n) a" and key = key] len
      by (simp add: IH Let_def nth_append)
    also have "insort key (sort (take n a)) = sort (take (Suc n) a)"
    proof -
      have "take (Suc n) a = take n a @ [key]" using Suc.prems by (simp add: take_Suc_conv_app_nth key_def)
      then show ?thesis
        by (intro properties_for_sort [symmetric]) (simp_all add: sorted_insort)
    qed
    finally show ?thesis .
  qed
qed simp

text \<open>The sort the self-test takes its medians from is a sort: the array holds the same readings in
  ascending order.\<close>

theorem sort_u64_sorts: "sort_u64 a (length a) = sort a"
  by (cases "a = []") (simp_all add: sort_u64_prefix, simp add: sort_u64_def)

section \<open>The median\<close>

lemma sample_loop_budget:
  assumes "ps_stall svc \<noteq> None" "unat budget \<ge> 10 * k"
  shows "\<exists>xs w'. sample_loop svc p q k samples budget w = (Some (samples @ xs), budget - of_nat (10 * k), w') \<and>
    length xs = k \<and> (\<forall>x \<in> set xs. \<exists>v. x = fst (measure_pair svc p q v))"
  using assms(2)
proof (induction k arbitrary: samples budget w)
  case (Suc k)
  define x where "x = fst (measure_pair svc p q w)"
  define w1 where "w1 = the (ps_stall svc) (ucast STALL_PER_SAMPLE_US)
    (ps_mfence svc (ps_clflush svc q (ps_clflush svc p (snd (measure_pair svc p q w)))))"
  have ge: "budget \<ge> STALL_PER_SAMPLE_US"
    using Suc.prems by (simp add: STALL_PER_SAMPLE_US_def word_le_nat_alt)
  have "unat (budget - 10) = unat budget - 10"
    using ge by (simp add: STALL_PER_SAMPLE_US_def unat_sub)
  then have "unat (budget - STALL_PER_SAMPLE_US) \<ge> 10 * k"
    using Suc.prems by (simp add: STALL_PER_SAMPLE_US_def)
  from Suc.IH [OF this, of "samples @ [x]" w1] obtain xs w' where
    "sample_loop svc p q k (samples @ [x]) (budget - STALL_PER_SAMPLE_US) w1 =
      (Some ((samples @ [x]) @ xs), budget - STALL_PER_SAMPLE_US - of_nat (10 * k), w')" "length xs = k"
    "\<forall>x \<in> set xs. \<exists>v. x = fst (measure_pair svc p q v)"
    by blast
  moreover have "sample_loop svc p q (Suc k) samples budget w =
      sample_loop svc p q k (samples @ [x]) (budget - STALL_PER_SAMPLE_US) w1"
    using assms(1) ge by (simp add: x_def w1_def split_def Let_def)
  moreover have "budget - STALL_PER_SAMPLE_US - of_nat (10 * k) = budget - of_nat (10 * Suc k)"
    by (simp add: STALL_PER_SAMPLE_US_def)
  ultimately show ?case
    by (intro exI [of _ "x # xs"] exI [of _ w']) (auto simp: x_def)
qed simp

lemma sorted_count_le:
  fixes ys :: "u64 list"
  assumes "sorted ys" "i < length ys"
  shows "i < length (filter (\<lambda>y. y \<le> ys ! i) ys)" "length ys - i \<le> length (filter (\<lambda>y. ys ! i \<le> y) ys)"
proof -
  have l: "\<forall>y \<in> set (take (Suc i) ys). y \<le> ys ! i"
    using assms by (auto simp: in_set_conv_nth intro!: sorted_nth_mono)
  have r: "\<forall>y \<in> set (drop i ys). ys ! i \<le> y"
    using assms by (auto simp: in_set_conv_nth intro!: sorted_nth_mono)
  have split: "filter P ys = filter P (take n ys) @ filter P (drop n ys)" for P n
    by (simp flip: filter_append)
  show "i < length (filter (\<lambda>y. y \<le> ys ! i) ys)"
    using l assms(2) by (subst split [of _ "Suc i"]) simp
  show "length ys - i \<le> length (filter (\<lambda>y. ys ! i \<le> y) ys)"
    using r by (subst split [of _ i]) simp
qed

lemma length_filter_sort: "length (filter P (sort xs)) = length (filter P (xs :: u64 list))"
  by (metis mset_filter mset_sort size_mset)

lemma median_of_samples:
  assumes "ps_stall svc \<noteq> None" "unat budget \<ge> 1000"
  shows "\<exists>xs w'. median_latency svc p q budget w = (sort xs ! 50, budget - 1000, w') \<and> length xs = 100 \<and>
    sample_loop svc p q 100 [] budget w = (Some xs, budget - 1000, w') \<and>
    (\<forall>x \<in> set xs. \<exists>v. x = fst (measure_pair svc p q v))"
proof -
  have "(10 :: nat) * 100 \<le> unat budget" "(of_nat (10 * 100) :: u32) = 1000" using assms(2) by simp_all
  then obtain xs w' where run: "sample_loop svc p q 100 [] budget w = (Some xs, budget - 1000, w')"
    and len: "length xs = 100" and read: "\<forall>x \<in> set xs. \<exists>v. x = fst (measure_pair svc p q v)"
    using sample_loop_budget [OF assms(1), of 100 budget p q "[]" w] by force
  have "sort_u64 xs 100 = sort xs" using sort_u64_prefix [of 100 xs] len by simp
  then have "median_latency svc p q budget w = (sort xs ! 50, budget - 1000, w')"
    unfolding median_latency_def SAMPLES_def run by simp
  then show ?thesis using run len read by blast
qed

text \<open>While the time budget lasts, the latency of a pair is the median of a hundred readings: more than
  half of them are not above it, at least half not below; the readings use up 1000 of the five
  million microseconds, so three medians never exhaust the budget.\<close>

theorem median_latency_median:
  assumes "ps_stall svc \<noteq> None" "unat budget \<ge> 1000"
  shows "\<exists>m xs w'. median_latency svc p q budget w = (m, budget - 1000, w') \<and> length xs = 100 \<and>
    sample_loop svc p q 100 [] budget w = (Some xs, budget - 1000, w') \<and> m \<in> set xs \<and>
    50 < length (filter (\<lambda>x. x \<le> m) xs) \<and> 50 \<le> length (filter (\<lambda>x. m \<le> x) xs)"
proof -
  obtain xs w' where m: "median_latency svc p q budget w = (sort xs ! 50, budget - 1000, w')"
    and len: "length xs = 100" and run: "sample_loop svc p q 100 [] budget w = (Some xs, budget - 1000, w')"
    using median_of_samples [OF assms, of p q w] by blast
  have "sort xs ! 50 \<in> set xs" using nth_mem [of 50 "sort xs"] len by simp
  moreover have "50 < length (filter (\<lambda>x. x \<le> sort xs ! 50) xs)"
    "50 \<le> length (filter (\<lambda>x. sort xs ! 50 \<le> x) xs)"
    using sorted_count_le [of "sort xs" 50] len by (simp_all add: length_filter_sort)
  ultimately show ?thesis using m run len by blast
qed

lemma median_constant:
  assumes "ps_stall svc \<noteq> None" "unat budget \<ge> 1000" "\<forall>v. fst (measure_pair svc p q v) = c"
  shows "\<exists>w'. median_latency svc p q budget w = (c, budget - 1000, w')"
proof -
  obtain xs w' where m: "median_latency svc p q budget w = (sort xs ! 50, budget - 1000, w')"
    and len: "length xs = 100" and read: "\<forall>x \<in> set xs. \<exists>v. x = fst (measure_pair svc p q v)"
    using median_of_samples [OF assms(1,2), of p q w] by blast
  have "sort xs ! 50 \<in> set xs" using nth_mem [of 50 "sort xs"] len by simp
  then show ?thesis using m read assms(3) by metis
qed

section \<open>The pairs\<close>

text \<open>
  The decoder once its family is chosen and its configuration read: it answers \<open>dec pa\<close> for every
  address and its state stays as it is.
\<close>

definition steady :: "'s imc_ops list \<Rightarrow> 's dispatch \<Rightarrow> (u64 \<Rightarrow> pa_decoded) \<Rightarrow> bool" where
  "steady families ds dec \<longleftrightarrow> (\<forall>pa. imc_decode_pa families pa ds = (dec pa, ds))"

lemma steady_cfl:
  assumes "dispatch_inv (g_families hw) ds" "g_detected ds" "cfl_skl_detect hw" "imc_ready mc (family_state ds)"
  shows "steady (g_families hw) ds (config_decode_pa mc (config_row_bits (Some mc)))"
  using assms imc_ready_ops(3) [OF assms(4), of hw]
  by (auto simp: steady_def imc_decode_pa_def imc_active_cfl [OF assms(1,3)] cfl_skl_kbl_ops_def dispatch_inv_def
      first_detected_cfl)

text \<open>The pages of the buffer that decode, and the first pair of them the search takes.\<close>

definition buffer_pages :: "u64 \<Rightarrow> nat \<Rightarrow> u64 list" where
  "buffer_pages base i = map (\<lambda>k. base + of_nat k * PAGE_BYTES) [i..<BUF_PAGES]"

definition decodable :: "(u64 \<Rightarrow> pa_decoded) \<Rightarrow> u64 list \<Rightarrow> u64 list" where
  "decodable dec ps = filter (\<lambda>pa. d_valid (dec pa) \<and> d_bank_row_valid (dec pa)) ps"

fun first_pair ::
  "(pa_decoded \<times> u64 \<Rightarrow> pa_decoded \<times> u64 \<Rightarrow> bool) \<Rightarrow> (u64 \<Rightarrow> pa_decoded) \<Rightarrow> u64 list \<Rightarrow> (u64 \<times> u64) option" where
  "first_pair rel dec [] = None"
| "first_pair rel dec (p # ps) = map_option (Pair p) (List.find (\<lambda>q. rel (dec p, p) (dec q, q)) ps)"

lemma buffer_pages_step:
  "i < BUF_PAGES \<Longrightarrow> buffer_pages base i = (base + of_nat i * PAGE_BYTES) # buffer_pages base (Suc i)"
  by (simp add: buffer_pages_def upt_conv_Cons)

lemma buffer_pages_end: "\<not> i < BUF_PAGES \<Longrightarrow> buffer_pages base i = []"
  by (simp add: buffer_pages_def)

lemma pair_loop_found:
  assumes "steady families ds dec"
  shows "pair_loop rel families base i (Some (dec p, p)) ds =
    (map_option (Pair p) (List.find (\<lambda>q. rel (dec p, p) (dec q, q)) (decodable dec (buffer_pages base i))), ds)"
proof (induction "BUF_PAGES - i" arbitrary: i rule: less_induct)
  case less
  then show ?case
    using assms
    by (cases "i < BUF_PAGES")
      (auto simp: pair_loop.simps [of _ _ _ i] buffer_pages_step buffer_pages_end decodable_def steady_def Let_def)
qed

lemma pair_loop_first:
  assumes "steady families ds dec"
  shows "pair_loop rel families base i None ds = (first_pair rel dec (decodable dec (buffer_pages base i)), ds)"
proof (induction "BUF_PAGES - i" arbitrary: i rule: less_induct)
  case less
  then show ?case
    using assms pair_loop_found [OF assms]
    by (cases "i < BUF_PAGES")
      (auto simp: pair_loop.simps [of _ _ _ i] buffer_pages_step buffer_pages_end decodable_def steady_def Let_def)
qed

lemma first_pair_SomeD:
  "first_pair rel dec ps = Some (p, q) \<Longrightarrow> p \<in> set ps \<and> q \<in> set ps \<and> rel (dec p, p) (dec q, q)"
  by (cases ps) (auto simp: find_Some_iff)

lemma first_pair_None:
  "first_pair rel dec ps = None \<longleftrightarrow> (\<forall>q \<in> set (tl ps). \<not> rel (dec (hd ps), hd ps) (dec q, q))"
  by (cases ps) (auto simp: find_None_iff)

text \<open>What the three searches share.\<close>

locale pair_search =
  fixes rel :: "pa_decoded \<times> u64 \<Rightarrow> pa_decoded \<times> u64 \<Rightarrow> bool"
    and search :: "'s imc_ops list \<Rightarrow> u64 \<Rightarrow> u64 \<Rightarrow> 's dispatch \<Rightarrow> (u64 \<times> u64) option \<times> 's dispatch"
  assumes search_loop: "search families base buf ds =
    (let (r, ds) = pair_loop rel families base 0 None ds in (in_buffer base buf r, ds))"
begin

lemma search_first:
  assumes "steady families ds dec"
  shows "search families base base ds = (first_pair rel dec (decodable dec (buffer_pages base 0)), ds)"
  by (simp add: search_loop pair_loop_first [OF assms] in_buffer_def option.map_ident_strong)

end

interpretation row_hits: pair_search same_row find_row_hit
  by unfold_locales (simp add: find_row_hit_def)

interpretation conflicts: pair_search row_conflict find_bank_conflict
  by unfold_locales (simp add: find_bank_conflict_def)

interpretation other_banks: pair_search other_bank find_diff_bank
  by unfold_locales (simp add: find_diff_bank_def)

text \<open>The pairs the self-test times are what their names say, for the decoder under test: two pages
  of the buffer that share bank and row, two in the same bank and different rows, two in
  different banks; where no pair is reported, no other page goes with the first one that decodes.\<close>

theorem selftest_pairs:
  assumes "steady families ds dec"
  shows "let pages = decodable dec (buffer_pages base 0); f = hd pages;
      same_bank = (\<lambda>p q. d_bank_group (dec q) = d_bank_group (dec p) \<and> d_bank (dec q) = d_bank (dec p))
    in
      (case fst (find_row_hit families base base ds) of
         Some (p, q) \<Rightarrow> {p, q} \<subseteq> set pages \<and> q \<noteq> p \<and> same_bank p q \<and> d_row (dec q) = d_row (dec p)
       | None \<Rightarrow> \<forall>q \<in> set (tl pages). \<not> (q \<noteq> f \<and> same_bank f q \<and> d_row (dec q) = d_row (dec f))) \<and>
      (case fst (find_bank_conflict families base base ds) of
         Some (p, q) \<Rightarrow> {p, q} \<subseteq> set pages \<and> same_bank p q \<and> d_row (dec q) \<noteq> d_row (dec p)
       | None \<Rightarrow> \<forall>q \<in> set (tl pages). \<not> (same_bank f q \<and> d_row (dec q) \<noteq> d_row (dec f))) \<and>
      (case fst (find_diff_bank families base base ds) of
         Some (p, q) \<Rightarrow> {p, q} \<subseteq> set pages \<and> \<not> same_bank p q
       | None \<Rightarrow> \<forall>q \<in> set (tl pages). same_bank f q)"
proof -
  define pages where "pages = decodable dec (buffer_pages base 0)"
  have report: "case first_pair rel dec pages of
      Some (p, q) \<Rightarrow> {p, q} \<subseteq> set pages \<and> rel (dec p, p) (dec q, q)
    | None \<Rightarrow> \<forall>q \<in> set (tl pages). \<not> rel (dec (hd pages), hd pages) (dec q, q)" for rel
    using first_pair_SomeD [of rel dec pages] first_pair_None [of rel dec pages]
    by (cases "first_pair rel dec pages") auto
  have rows: "case first_pair same_row dec pages of
      Some (p, q) \<Rightarrow> {p, q} \<subseteq> set pages \<and> q \<noteq> p \<and>
        (d_bank_group (dec q) = d_bank_group (dec p) \<and> d_bank (dec q) = d_bank (dec p)) \<and> d_row (dec q) = d_row (dec p)
    | None \<Rightarrow> \<forall>q \<in> set (tl pages). \<not> (q \<noteq> hd pages \<and>
        (d_bank_group (dec q) = d_bank_group (dec (hd pages)) \<and> d_bank (dec q) = d_bank (dec (hd pages))) \<and>
        d_row (dec q) = d_row (dec (hd pages)))"
    using report [of same_row] by (cases "first_pair same_row dec pages") (simp_all add: same_row_def split_def, metis)
  have conflicts: "case first_pair row_conflict dec pages of
      Some (p, q) \<Rightarrow> {p, q} \<subseteq> set pages \<and>
        (d_bank_group (dec q) = d_bank_group (dec p) \<and> d_bank (dec q) = d_bank (dec p)) \<and> d_row (dec q) \<noteq> d_row (dec p)
    | None \<Rightarrow> \<forall>q \<in> set (tl pages). \<not> (
        (d_bank_group (dec q) = d_bank_group (dec (hd pages)) \<and> d_bank (dec q) = d_bank (dec (hd pages))) \<and>
        d_row (dec q) \<noteq> d_row (dec (hd pages)))"
    using report [of row_conflict] by (cases "first_pair row_conflict dec pages") (simp_all add: row_conflict_def split_def)
  have banks: "case first_pair other_bank dec pages of
      Some (p, q) \<Rightarrow> {p, q} \<subseteq> set pages \<and>
        \<not> (d_bank_group (dec q) = d_bank_group (dec p) \<and> d_bank (dec q) = d_bank (dec p))
    | None \<Rightarrow> \<forall>q \<in> set (tl pages).
        (d_bank_group (dec q) = d_bank_group (dec (hd pages)) \<and> d_bank (dec q) = d_bank (dec (hd pages)))"
    using report [of other_bank] by (cases "first_pair other_bank dec pages") (simp_all add: other_bank_def split_def)
  show ?thesis
    unfolding row_hits.search_first [OF assms] conflicts.search_first [OF assms]
      other_banks.search_first [OF assms] fst_conv Let_def pages_def [symmetric]
    using rows conflicts banks by (intro conjI)
qed

text \<open>The A1990 of the other theories, with its configuration read.\<close>

definition a1990_ready :: "unit imc_state dispatch" where
  "a1990_ready = \<lparr>g_active = Some 0, g_detected = True,
     family_state = snd (cfl_skl_config (a1990_hw 0x410) blank_imc)\<rparr>"

lemma steady_a1990: "steady (g_families (a1990_hw 0x410)) a1990_ready (config_decode_pa a1990_mc 17)"
proof -
  have d: "cfl_skl_detect (a1990_hw 0x410)" by (simp add: cfl_skl_detect_def a1990_hw_def)
  then have "dispatch_inv (g_families (a1990_hw 0x410)) a1990_ready"
    by (simp add: dispatch_inv_def first_detected_cfl a1990_ready_def)
  moreover have "g_detected a1990_ready" "imc_ready a1990_mc (family_state a1990_ready)"
    using cfl_skl_config_ready [OF imc_inv_blank a1990_read] by (simp_all add: a1990_ready_def)
  ultimately show ?thesis using steady_cfl d by (metis a1990_row_bits)
qed

lemma a1990_page_decode:
  "d_valid (config_decode_pa a1990_mc 17 0x1000000)" "d_bank_row_valid (config_decode_pa a1990_mc 17 0x1000000)"
  "d_valid (config_decode_pa a1990_mc 17 0x1001000)" "d_bank_row_valid (config_decode_pa a1990_mc 17 0x1001000)"
  "d_bank_group (config_decode_pa a1990_mc 17 0x1000000) = 0" "d_bank_group (config_decode_pa a1990_mc 17 0x1001000) = 2"
  by (simp_all add: config_decode_pa_def cfl_skl_decode_channel_def cfl_skl_decode_rank_def a1990_mc_def
      a1990_config channel_max_ranks_def decode_mad_dimm_def mad_dimm_def no_decode_def
      cfl_skl_decode_bank_row_col_def bit_at_def)

theorem selftest_pairs_witness:
  "find_diff_bank (g_families (a1990_hw 0x410)) 0x1000000 0x1000000 a1990_ready =
      (Some (0x1000000, 0x1001000), a1990_ready) \<and>
    0x1001000 \<in> set (buffer_pages 0x1000000 0) \<and>
    \<not> (d_bank_group (config_decode_pa a1990_mc 17 0x1001000) = d_bank_group (config_decode_pa a1990_mc 17 0x1000000) \<and>
       d_bank (config_decode_pa a1990_mc 17 0x1001000) = d_bank (config_decode_pa a1990_mc 17 0x1000000))"
proof -
  define rest where "rest = decodable (config_decode_pa a1990_mc 17) (buffer_pages 0x1000000 2)"
  have "buffer_pages 0x1000000 0 = 0x1000000 # 0x1001000 # buffer_pages 0x1000000 2"
    using buffer_pages_step [of 0 "0x1000000"] buffer_pages_step [of 1 "0x1000000"]
    by (simp add: BUF_PAGES_def PAGE_BYTES_def numeral_2_eq_2)
  then have "decodable (config_decode_pa a1990_mc 17) (buffer_pages 0x1000000 0) = 0x1000000 # 0x1001000 # rest"
    by (simp add: decodable_def rest_def a1990_page_decode)
  then have f: "find_diff_bank (g_families (a1990_hw 0x410)) 0x1000000 0x1000000 a1990_ready =
      (Some (0x1000000, 0x1001000), a1990_ready)"
    by (simp add: other_banks.search_first [OF steady_a1990] other_bank_def a1990_page_decode)
  note t = conjunct2 [OF conjunct2 [OF selftest_pairs [OF steady_a1990, of "0x1000000", unfolded Let_def]],
    unfolded f fst_conv option.case prod.case]
  then have "0x1001000 \<in> set (buffer_pages 0x1000000 0)"
    unfolding decodable_def set_filter by blast
  then show ?thesis using f t by blast
qed

section \<open>What is left in NVRAM\<close>

text \<open>
  The services over a machine whose NVRAM is \<open>nv w\<close>: writing a variable replaces it, and time,
  memory and the processor leave the variables alone.
\<close>

definition status_store :: "'w probe_services \<Rightarrow> ('w \<Rightarrow> nvram) \<Rightarrow> bool" where
  "status_store svc nv \<longleftrightarrow>
     (\<exists>sv. ps_set_variable svc = Some sv \<and>
       (\<forall>nm g a d w. d \<noteq> [] \<longrightarrow> nv (sv nm g a d w) = (nv w)((g, nm) \<mapsto> d))) \<and>
     (\<forall>st us w. ps_stall svc = Some st \<longrightarrow> nv (st us w) = nv w) \<and>
     (\<forall>n w. nv (snd (ps_allocate_pages svc n w)) = nv w) \<and>
     (\<forall>pa n w. nv (ps_free_pages svc pa n w) = nv w) \<and>
     (\<forall>p w. nv (ps_load svc p w) = nv w) \<and> (\<forall>p b w. nv (ps_store svc p b w) = nv w) \<and>
     (\<forall>p w. nv (ps_clflush svc p w) = nv w) \<and> (\<forall>w. nv (ps_mfence svc w) = nv w) \<and>
     (\<forall>w. nv (snd (ps_rdtsc svc w)) = nv w)"

lemma status_store_simps:
  assumes "status_store svc nv"
  shows "nv (snd (ps_allocate_pages svc n w)) = nv w" "nv (ps_free_pages svc pa n w) = nv w"
    "nv (ps_load svc p w) = nv w" "nv (ps_store svc p b w) = nv w" "nv (ps_clflush svc p w) = nv w"
    "nv (ps_mfence svc w) = nv w" "nv (snd (ps_rdtsc svc w)) = nv w"
    "ps_stall svc \<noteq> None \<Longrightarrow> nv (the (ps_stall svc) us w) = nv w"
  using assms by (auto simp: status_store_def)

lemma write_status_law:
  "status_store svc nv \<Longrightarrow> nv (write_status svc r w) = (nv w)((BRR_GUID_ST, BRR_DECODER_VARNAME) \<mapsto> status_text r)"
  by (cases r) (auto simp: status_store_def write_status_def status_text_def)

lemma measure_pair_frame: "status_store svc nv \<Longrightarrow> nv (snd (measure_pair svc p q w)) = nv w"
  by (simp add: measure_pair_def rdtsc_lfence_def split_def Let_def status_store_simps)

lemma sample_loop_frame:
  "status_store svc nv \<Longrightarrow> nv (snd (snd (sample_loop svc p q k xs b w))) = nv w"
  by (induction k arbitrary: xs b w)
    (auto simp: split_def Let_def status_store_simps measure_pair_frame)

lemma median_latency_frame:
  "status_store svc nv \<Longrightarrow> nv (snd (snd (median_latency svc p q b w))) = nv w"
  using sample_loop_frame [of svc nv p q SAMPLES "[]" b w]
  by (simp add: median_latency_def split_def Let_def split: option.split)

lemma fill_frame:
  "status_store svc nv \<Longrightarrow> nv (fold (\<lambda>i w. ps_store svc (f i) (g i) w) is w) = nv w"
  by (induction "is" arbitrary: w) (simp_all add: status_store_simps)

text \<open>A verdict is written, no other result is.\<close>

definition status_left :: "brr_decoder_status \<Rightarrow> nvram \<Rightarrow> nvram" where
  "status_left r V =
     (if r = BRR_DECODER_VALIDATED \<or> r = BRR_DECODER_FAILED
      then V((BRR_GUID_ST, BRR_DECODER_VARNAME) \<mapsto> status_text r) else V)"

lemma verdict_cases: "verdict r c d = BRR_DECODER_VALIDATED \<or> verdict r c d = BRR_DECODER_FAILED"
  by (simp add: verdict_def Let_def)

lemma measure_and_report_nvram:
  assumes "status_store svc nv" "measure_and_report svc pa r c d w = (s, w')"
  shows "nv w' = status_left s (nv w)"
  using assms(2) verdict_cases
  by (auto simp: measure_and_report_def Let_def split_def status_left_def write_status_law [OF assms(1)]
      status_store_simps [OF assms(1)] median_latency_frame [OF assms(1)] split: if_splits)

lemma run_probe_nvram:
  assumes "status_store svc nv" "run_probe svc families ds w = (s, ds', w')"
  shows "nv w' = status_left s (nv w)"
proof -
  define w0 where "w0 = snd (ps_allocate_pages svc BUF_PAGES w)"
  define pa where "pa = snd (fst (ps_allocate_pages svc BUF_PAGES w))"
  define w1 where "w1 = ps_mfence svc
    (fold (\<lambda>i w. ps_store svc (pa + of_nat i * PAGE_BYTES) (of_nat i) w) [0..<BUF_PAGES] w0)"
  have w1: "nv w1 = nv w"
    by (simp add: w1_def w0_def status_store_simps [OF assms(1)] fill_frame [OF assms(1)])
  from assms(2) consider "s = BRR_DECODER_UNKNOWN" "w' = w0"
    | "s = BRR_DECODER_UNKNOWN" "w' = ps_free_pages svc pa BUF_PAGES w1"
    | r c d where "measure_and_report svc pa r c d w1 = (s, w')"
    unfolding run_probe_def
    by (auto simp: split_def Let_def w0_def [symmetric] pa_def [symmetric] simp flip: w1_def
        split: if_splits intro: prod_eqI)
  then show ?thesis
    using measure_and_report_nvram [OF assms(1)] w1
    by cases (simp_all add: status_left_def w0_def status_store_simps [OF assms(1)])
qed

lemma selftest_nvram:
  assumes "status_store svc nv" "decoder_selftest_run (Some svc) families ds w = (s, ds', w')"
  shows "nv w' = status_left s (nv w)"
proof -
  from assms(2) consider "s = BRR_DECODER_UNKNOWN \<or> s = BRR_DECODER_NOT_APPLICABLE" "w' = w"
    | ds1 where "run_probe svc families ds1 w = (s, ds', w')"
    by (auto simp: decoder_selftest_run_def Let_def split: if_splits prod.splits option.splits)
  then show ?thesis
  proof cases
    case 1
    then show ?thesis by (auto simp: status_left_def)
  next
    case 2
    then show ?thesis by (rule run_probe_nvram [OF assms(1)])
  qed
qed

section \<open>A decoder that is right passes\<close>

text \<open>
  The decoder with its family chosen, and a machine that behaves as it says: an access takes \<open>hi\<close>
  cycles after one to another row of the same bank, and \<open>lo\<close> cycles otherwise.
\<close>

definition decoding :: "'s imc_ops list \<Rightarrow> 's dispatch \<Rightarrow> (u64 \<Rightarrow> pa_decoded) \<Rightarrow> bool" where
  "decoding families ds dec \<longleftrightarrow>
     (\<exists>ops decode. imc_active families ds = (Some ops, ds) \<and> ops_decode_pa ops = Some decode \<and>
       (\<forall>pa. decode pa (family_state ds) = (dec pa, family_state ds)))"

definition timing :: "'w probe_services \<Rightarrow> (u64 \<Rightarrow> pa_decoded) \<Rightarrow> u64 \<Rightarrow> u64 \<Rightarrow> bool" where
  "timing svc dec lo hi \<longleftrightarrow>
     (\<forall>p q w. fst (measure_pair svc p q w) = (if row_conflict (dec p, p) (dec q, q) then hi else lo))"

lemma decoding_steady: "decoding families ds dec \<Longrightarrow> steady families ds dec"
  by (auto simp: decoding_def steady_def imc_decode_pa_def)

lemma measure_right_decoder:
  assumes "ps_stall svc \<noteq> None" "timing svc dec lo hi" "lo \<noteq> 0" "hi \<noteq> 0"
    and "same_row (dec (fst r), fst r) (dec (snd r), snd r)" "row_conflict (dec (fst c), fst c) (dec (snd c), snd c)"
    and "other_bank (dec (fst d), fst d) (dec (snd d), snd d)"
  shows "fst (measure_and_report svc pa r c d w) = verdict lo hi lo"
proof -
  have lat: "\<forall>v. fst (measure_pair svc (fst r) (snd r) v) = lo" "\<forall>v. fst (measure_pair svc (fst c) (snd c) v) = hi"
    "\<forall>v. fst (measure_pair svc (fst d) (snd d) v) = lo"
    using assms(2,5,6,7) by (auto simp: timing_def same_row_def row_conflict_def other_bank_def)
  obtain w1 where 1: "median_latency svc (fst r) (snd r) 5000000 w = (lo, 4999000, w1)"
    using median_constant [OF assms(1) _ lat(1), of 5000000 w] by auto
  obtain w2 where 2: "median_latency svc (fst c) (snd c) 4999000 w1 = (hi, 4998000, w2)"
    using median_constant [OF assms(1) _ lat(2), of 4999000 w1] by auto
  obtain w3 where 3: "median_latency svc (fst d) (snd d) 4998000 w2 = (lo, 4997000, w3)"
    using median_constant [OF assms(1) _ lat(3), of 4998000 w2] by auto
  show ?thesis using assms(3,4) by (simp add: measure_and_report_def 1 2 3 Let_def)
qed

lemma right_decoder_validated:
  assumes "decoding families ds dec" "d_bank_row_valid (dec 0)"
    and "ps_boot svc" "ps_stall svc \<noteq> None" "ps_allocate_pages svc BUF_PAGES w = ((EFI_SUCCESS, base), w1)" "base \<noteq> 0"
    and "timing svc dec lo hi" "lo \<noteq> 0" "2 * unat hi > 3 * unat lo" "unat hi < 2 ^ 62"
    and "decodable dec (buffer_pages base 0) = f # rest"
    and "q1 \<in> set rest" "same_row (dec f, f) (dec q1, q1)"
    and "q2 \<in> set rest" "row_conflict (dec f, f) (dec q2, q2)"
    and "q3 \<in> set rest" "other_bank (dec f, f) (dec q3, q3)"
  shows "fst (decoder_selftest_run (Some svc) families ds w) = BRR_DECODER_VALIDATED"
proof -
  note st = decoding_steady [OF assms(1)]
  have pair: "\<exists>q. first_pair rel dec (f # rest) = Some (f, q) \<and> rel (dec f, f) (dec q, q)"
    if "q0 \<in> set rest" "rel (dec f, f) (dec q0, q0)" for rel q0
  proof -
    have "first_pair rel dec (f # rest) \<noteq> None" using that first_pair_None [of rel dec "f # rest"] by auto
    then obtain x q where p: "first_pair rel dec (f # rest) = Some (x, q)" by auto
    then have "x = f" by auto
    then show ?thesis using p first_pair_SomeD [OF p] by auto
  qed
  obtain r where r: "find_row_hit families base base ds = (Some (f, r), ds)" "same_row (dec f, f) (dec r, r)"
    using pair [where rel = same_row, OF assms(12,13)] row_hits.search_first [OF st, of base] assms(11) by auto
  obtain c where c: "find_bank_conflict families base base ds = (Some (f, c), ds)" "row_conflict (dec f, f) (dec c, c)"
    using pair [where rel = row_conflict, OF assms(14,15)] conflicts.search_first [OF st, of base] assms(11) by auto
  obtain d where d: "find_diff_bank families base base ds = (Some (f, d), ds)" "other_bank (dec f, f) (dec d, d)"
    using pair [where rel = other_bank, OF assms(16,17)] other_banks.search_first [OF st, of base] assms(11) by auto
  have big: "unat lo < 2 ^ 62" using assms(9,10) by simp
  have "3 * lo < 2 * hi"
  proof -
    have "unat (3 * lo) = 3 * unat lo" "unat (2 * hi) = 2 * unat hi"
      using assms(9,10) big by (simp_all add: unat_word_ariths)
    then show ?thesis using assms(9) by (simp add: word_less_nat_alt)
  qed
  then have v: "verdict lo hi lo = BRR_DECODER_VALIDATED" by (simp add: verdict_def)
  have hi: "hi \<noteq> 0" using assms(9) by auto
  have "fst (run_probe svc families ds w) = BRR_DECODER_VALIDATED"
    using measure_right_decoder [OF assms(4,7,8) hi, of "(f, r)" "(f, c)" "(f, d)"] r c d assms(6)
    by (simp add: run_probe_def assms(5) split_def v)
  then show ?thesis
    using assms(1-4) by (auto simp: decoder_selftest_run_def decoding_def Let_def)
qed

text \<open>The A1990 with DRAM that answers in 100 cycles, and in 300 after an access to another row of the bank.\<close>

record probe_machine =
  pm_nv :: nvram
  pm_clock :: u64
  pm_open :: u64

definition a1990_probe :: "probe_machine probe_services" where
  "a1990_probe = \<lparr>
     ps_boot = True, ps_stall = Some (\<lambda>us w. w),
     ps_allocate_pages = (\<lambda>n w. ((EFI_SUCCESS, 0x1000000), w)), ps_free_pages = (\<lambda>pa n w. w),
     ps_set_variable = Some (\<lambda>nm g a d w. w\<lparr>pm_nv := (pm_nv w)((g, nm) \<mapsto> d)\<rparr>),
     ps_load = (\<lambda>p w. w\<lparr>pm_open := p, pm_clock := pm_clock w +
       (if row_conflict (config_decode_pa a1990_mc 17 (pm_open w), pm_open w) (config_decode_pa a1990_mc 17 p, p)
        then 300 else 100)\<rparr>),
     ps_store = (\<lambda>p b w. w), ps_clflush = (\<lambda>p w. w), ps_mfence = (\<lambda>w. w),
     ps_rdtsc = (\<lambda>w. ((ucast (pm_clock w), ucast (drop_bit 32 (pm_clock w))), w))\<rparr>"

lemma split_clock: "push_bit 32 (ucast (ucast (drop_bit 32 t) :: u32)) OR ucast (ucast t :: u32) = (t :: u64)"
  by (rule bit_word_eqI) (auto simp: bit_simps)

lemma timing_a1990: "timing a1990_probe (config_decode_pa a1990_mc 17) 100 300"
  by (simp add: timing_def measure_pair_def rdtsc_lfence_def a1990_probe_def split_clock)

lemma status_store_a1990: "status_store a1990_probe pm_nv"
  by (simp add: status_store_def a1990_probe_def)

lemma decoding_a1990: "decoding (g_families (a1990_hw 0x410)) a1990_ready (config_decode_pa a1990_mc 17)"
proof -
  have "imc_active (g_families (a1990_hw 0x410)) a1990_ready = (Some (cfl_skl_kbl_ops (a1990_hw 0x410)), a1990_ready)"
    by (simp add: imc_active_def a1990_ready_def g_families_def)
  then show ?thesis
    using imc_ready_ops(3) [OF cfl_skl_config_ready [OF imc_inv_blank a1990_read], of "a1990_hw 0x410"]
    by (simp add: decoding_def cfl_skl_kbl_ops_def a1990_ready_def a1990_row_bits)
qed

lemma a1990_bank_row:
  "d_bank_row_valid (config_decode_pa a1990_mc 17 0)"
  "d_valid (config_decode_pa a1990_mc 17 0x1003000)" "d_bank_row_valid (config_decode_pa a1990_mc 17 0x1003000)"
  "d_valid (config_decode_pa a1990_mc 17 0x1049000)" "d_bank_row_valid (config_decode_pa a1990_mc 17 0x1049000)"
  by (simp_all add: config_decode_pa_def cfl_skl_decode_channel_def cfl_skl_decode_rank_def a1990_mc_def
      a1990_config channel_max_ranks_def decode_mad_dimm_def mad_dimm_def no_decode_def
      cfl_skl_decode_bank_row_col_def bit_at_def)

lemma a1990_relations:
  "same_row (config_decode_pa a1990_mc 17 0x1000000, 0x1000000) (config_decode_pa a1990_mc 17 0x1003000, 0x1003000)"
  "row_conflict (config_decode_pa a1990_mc 17 0x1000000, 0x1000000) (config_decode_pa a1990_mc 17 0x1049000, 0x1049000)"
  "other_bank (config_decode_pa a1990_mc 17 0x1000000, 0x1000000) (config_decode_pa a1990_mc 17 0x1001000, 0x1001000)"
  by (simp_all add: same_row_def row_conflict_def other_bank_def)
    (simp_all add: config_decode_pa_def cfl_skl_decode_channel_def cfl_skl_decode_rank_def a1990_mc_def
      a1990_config channel_max_ranks_def decode_mad_dimm_def mad_dimm_def no_decode_def
      cfl_skl_decode_bank_row_col_def bit_at_def)

lemma in_buffer_pages: "i \<le> k \<Longrightarrow> k < BUF_PAGES \<Longrightarrow> base + of_nat k * PAGE_BYTES \<in> set (buffer_pages base i)"
  by (auto simp: buffer_pages_def)

lemma a1990_buffer:
  "\<exists>rest. decodable (config_decode_pa a1990_mc 17) (buffer_pages 0x1000000 0) = 0x1000000 # rest \<and>
    {0x1003000, 0x1049000, 0x1001000} \<subseteq> set rest"
proof -
  define rest where "rest = decodable (config_decode_pa a1990_mc 17) (buffer_pages 0x1000000 1)"
  have "decodable (config_decode_pa a1990_mc 17) (buffer_pages 0x1000000 0) = 0x1000000 # rest"
    using buffer_pages_step [of 0 "0x1000000"]
    by (simp add: decodable_def rest_def a1990_page_decode BUF_PAGES_def)
  moreover have "{0x1003000, 0x1049000, 0x1001000} \<subseteq> set (buffer_pages 0x1000000 1)"
    using in_buffer_pages [of 1 3 "0x1000000"] in_buffer_pages [of 1 73 "0x1000000"] in_buffer_pages [of 1 1 "0x1000000"]
    by (simp add: BUF_PAGES_def PAGE_BYTES_def)
  then have "{0x1003000, 0x1049000, 0x1001000} \<subseteq> set rest"
    by (simp add: rest_def decodable_def a1990_page_decode a1990_bank_row)
  ultimately show ?thesis by blast
qed

lemma a1990_validated:
  "fst (decoder_selftest_run (Some a1990_probe) (g_families (a1990_hw 0x410)) a1990_ready w) = BRR_DECODER_VALIDATED"
proof -
  obtain rest where rest: "decodable (config_decode_pa a1990_mc 17) (buffer_pages 0x1000000 0) = 0x1000000 # rest"
    "{0x1003000, 0x1049000, 0x1001000} \<subseteq> set rest"
    using a1990_buffer by blast
  have "ps_allocate_pages a1990_probe BUF_PAGES w = ((EFI_SUCCESS, 0x1000000), w)" "ps_boot a1990_probe"
    "ps_stall a1990_probe \<noteq> None"
    by (simp_all add: a1990_probe_def)
  then show ?thesis
    using right_decoder_validated [OF decoding_a1990 a1990_bank_row(1) _ _ _ _ timing_a1990 _ _ _ rest(1)
        _ a1990_relations(1) _ a1990_relations(2) _ a1990_relations(3)] rest(2)
    by simp
qed



theorem median_latency_median_witness:
  "\<exists>m w'. median_latency a1990_probe 0x1000000 0x1049000 5000000 \<lparr>pm_nv = Map.empty, pm_clock = 0, pm_open = 0\<rparr> =
    (m, 4999000, w')"
proof -
  have "ps_stall a1990_probe \<noteq> None" by (simp add: a1990_probe_def)
  then show ?thesis
    using median_latency_median [of a1990_probe 5000000 "0x1000000" "0x1049000"] by force
qed

end
