(* ===== verification/Calibration.thy ===== *)
theory Calibration
  imports Imc_Dispatch Board_Topology
begin

text \<open>
  The start of a memtest86+ run: the boot-time parser of the command line (\<^verbatim>\<open>src/efi_menu.c\<close>), the
  calibration screens with their countdowns and the test filter (\<^verbatim>\<open>src/calibration.c\<close>), and the
  beep at the end of a pass (\<^verbatim>\<open>src/beeper.c\<close>). What is shown and waited for is a list of events; a
  printed line is a constructor with the values it prints. memtest86+'s boot parameters, its
  memory, its list of tests and the rows of its screen are parameters.
\<close>

section \<open>Flags of the boot menu\<close>

definition BRR_FLAG_SKIP_COUNTDOWNS :: u32 where "BRR_FLAG_SKIP_COUNTDOWNS = push_bit 0 1"
definition BRR_FLAG_CALIBRATE_ONLY :: u32 where "BRR_FLAG_CALIBRATE_ONLY = push_bit 1 1"

definition efi_menu :: "u8 list option \<Rightarrow> u32" where
  "efi_menu cmdline =
     (if cmdline_has cmdline (Some (str ''brr_fast'')) then BRR_FLAG_SKIP_COUNTDOWNS else 0)"

section \<open>The command line after the start\<close>

record boot_params =
  bo_brr_flags :: u32
  bo_cmd_line_ptr :: u64
  bo_cmd_line_size :: u32

text \<open>\<open>None\<close> for a null \<open>boot_params_addr\<close>.\<close>

definition read_brr_flags :: "boot_params option \<Rightarrow> u32" where
  "read_brr_flags bp = (case bp of None \<Rightarrow> 0 | Some b \<Rightarrow> bo_brr_flags b)"

text \<open>The number of characters of the needle that the text at \<open>hay\<close> begins with.\<close>

fun agreeing :: "(nat \<Rightarrow> u8) \<Rightarrow> u8 list \<Rightarrow> nat" where
  "agreeing hay [] = 0"
| "agreeing hay (c # needle) = (if hay 0 = c then Suc (agreeing (\<lambda>k. hay (Suc k)) needle) else 0)"

definition search_length :: "u32 \<Rightarrow> nat" where
  "search_length cmd_line_size = (if cmd_line_size = 0 \<or> cmd_line_size > 4096 then 4096 else unat cmd_line_size)"

definition cmdline_contains :: "(u64 \<Rightarrow> u8) \<Rightarrow> boot_params option \<Rightarrow> u8 list \<Rightarrow> bool" where
  "cmdline_contains mem bp needle =
     (case bp of
        None \<Rightarrow> False
      | Some b \<Rightarrow>
          if bo_cmd_line_ptr b = 0 then False
          else
            let nlen = strlen needle;
                hlen = search_length (bo_cmd_line_size b)
            in
              if nlen = 0 then False
              else if nlen > hlen then False
              else
                list_ex (\<lambda>i. agreeing (\<lambda>j. mem (bo_cmd_line_ptr b + of_nat (i + j))) (take nlen needle) = nlen)
                  [0..<Suc (hlen - nlen)])"

text \<open>The tests that stay enabled, where the line asks for the fast mode.\<close>

definition fast_tests :: "nat list" where "fast_tests = [0, 3, 5]"

definition filter_tests :: "bool list \<Rightarrow> bool list" where
  "filter_tests test_list = map (\<lambda>i. i \<in> set fast_tests) [0..<length test_list]"

section \<open>What is shown\<close>

datatype rank_source = Rank_Ambiguous | Rank_Speculative | Rank_Certain
datatype bank_source = Bank_Speculative | Bank_Validated | Bank_Unavailable

datatype cal_line =
    No_Imc
  | Mchbar_Base u64
  | Channels u8 u8
  | Channel nat u32 bool
  | Dimm nat u32 u8 u8
  | Mad u32 u32 u32
  | Mad_Intra u32 u32
  | Rank_Probe u8 u8 rank_source
  | Bank_Probe u8 u8 u32 bank_source
  | Board_Header
  | Smbios_Source int u64 u32
  | Smbios_Product "u8 list option"
  | Overlay "u8 list"
  | Packages nat u8 u8 u8
  | No_Overlay
  | Dump_Header
  | Dump_Line dump_row
  | Halting
  | Power_Off
  | Tests_Starting

datatype cal_event =
    Cmdline_Echo "u8 list"
  | Cmdline_Empty
  | Fast_Active
  | Fast_Inactive
  | Clear_Phase
  | Clear_Status
  | Photo string nat
  | Sleep nat
  | Line int cal_line

definition apply_test_filter ::
  "(u64 \<Rightarrow> u8) \<Rightarrow> boot_params option \<Rightarrow> bool list \<Rightarrow> cal_event list \<times> bool list" where
  "apply_test_filter mem bp test_list =
     (if \<not> cmdline_contains mem bp (str ''brr_fast'') then ([Fast_Inactive], test_list)
      else ([Fast_Active], filter_tests test_list))"

definition PAUSE_SECONDS :: nat where "PAUSE_SECONDS = 5"

fun countdown_loop :: "string \<Rightarrow> nat \<Rightarrow> cal_event list" where
  "countdown_loop tag 0 = [Clear_Status]"
| "countdown_loop tag (Suc s) = [Clear_Status, Photo tag (Suc s), Sleep 1] @ countdown_loop tag s"

definition countdown :: "boot_params option \<Rightarrow> string \<Rightarrow> nat \<Rightarrow> cal_event list" where
  "countdown bp tag seconds =
     (if read_brr_flags bp AND BRR_FLAG_SKIP_COUNTDOWNS \<noteq> 0 then [Clear_Status]
      else countdown_loop tag seconds)"

text \<open>The line as the screen shows it: NULs are blanks again, and those at the end are cut off.\<close>

definition cmdline_echo :: "(u64 \<Rightarrow> u8) \<Rightarrow> boot_params option \<Rightarrow> cal_event list" where
  "cmdline_echo mem bp =
     (case bp of
        None \<Rightarrow> []
      | Some b \<Rightarrow>
          if bo_cmd_line_ptr b \<noteq> 0 \<and> bo_cmd_line_size b > 0 then
            let sz = (if unat (bo_cmd_line_size b) > 71 then 71 else unat (bo_cmd_line_size b));
                buf = map (\<lambda>j. let c = mem (bo_cmd_line_ptr b + of_nat j) in if c = 0 then ch CHR '' '' else c) [0..<sz]
            in [Cmdline_Echo (rev (dropWhile (\<lambda>c. c = ch CHR '' '') (rev buf)))]
          else [Cmdline_Empty])"

section \<open>The phases\<close>

text \<open>A printed line takes the next row, \<open>r\<close>.\<close>

definition emit :: "cal_line \<Rightarrow> int \<times> cal_event list \<Rightarrow> int \<times> cal_event list" where
  "emit l = (\<lambda>(r, es). (r + 1, es @ [Line r l]))"

definition dimm_line :: "int \<Rightarrow> mc_channel \<Rightarrow> nat \<Rightarrow> int \<times> cal_event list \<Rightarrow> int \<times> cal_event list" where
  "dimm_line row_bot chan d s =
     (if fst s \<le> row_bot - 1 then
        let dd = chan_dimm chan ! d
        in if \<not> dimm_populated dd then s
           else emit (Dimm d (dimm_size_mb dd) (dimm_ranks dd) (dimm_width dd)) s
      else s)"

definition channel_lines :: "int \<Rightarrow> mc_config \<Rightarrow> nat \<Rightarrow> int \<times> cal_event list \<Rightarrow> int \<times> cal_event list" where
  "channel_lines row_bot mc c s =
     (if fst s \<le> row_bot - 1 then
        let chan = mc_channel mc ! c
        in fold (dimm_line row_bot chan) [0, 1] (emit (Channel c (chan_mad_dimm_raw chan) (chan_populated chan)) s)
      else s)"

definition rank_source_of :: "pa_decoded \<Rightarrow> rank_source" where
  "rank_source_of p =
     (if \<not> d_rank_valid p then Rank_Ambiguous
      else if d_rank_speculative p then Rank_Speculative else Rank_Certain)"

definition bank_source_of :: "pa_decoded \<Rightarrow> bank_source" where
  "bank_source_of p =
     (if d_bank_row_valid p
      then (if d_bank_row_speculative p then Bank_Speculative else Bank_Validated) else Bank_Unavailable)"

definition imc_phase :: "int \<Rightarrow> int \<Rightarrow> mc_config \<Rightarrow> pa_decoded \<Rightarrow> int \<times> cal_event list" where
  "imc_phase row_top row_bot mc probe =
     (let s = emit (Mchbar_Base (mc_mchbar_base mc)) (row_top, []);
          s = emit (Channels (mc_channels_populated mc) (mc_chip_width mc)) s;
          s = fold (channel_lines row_bot mc) [0, 1] s;
          s = emit (Mad (mc_mad_chnl mc) (mc_chan_hash mc) (mc_chan_ehash mc)) s;
          s = emit (Mad_Intra (mc_mad_intra_ch0 mc) (mc_mad_intra_ch1 mc)) s;
          s = emit (Rank_Probe (d_channel probe) (d_rank probe) (rank_source_of probe)) s
      in if fst s \<le> row_bot - 1
         then emit (Bank_Probe (d_bank_group probe) (d_bank probe) (d_row probe) (bank_source_of probe)) s
         else s)"

definition board_phase ::
  "int \<Rightarrow> int \<times> u64 \<times> u32 \<Rightarrow> u8 list option \<Rightarrow> board_profile option \<Rightarrow> int \<times> cal_event list" where
  "board_phase row_top src product p =
     (let s = emit Board_Header (row_top, []);
          s = emit (Smbios_Source (fst src) (fst (snd src)) (snd (snd src))) s;
          s = emit (Smbios_Product product) s
      in case p of
           None \<Rightarrow> emit No_Overlay s
         | Some p \<Rightarrow>
             emit (Packages (bf_package_count p) (bf_chip_width p) (bf_channels p) (bf_ranks_per_channel p))
               (emit (Overlay (bf_friendly_name p)) s))"

datatype cal_result = Unsupported | Halted | Tests_Run

text \<open>
  \<open>board_calibrate\<close>: the events, the tests left enabled, and how it ends; \<open>Halted\<close> never returns.
  \<open>product\<close> is the answer of \<open>smbios_board_id\<close>, \<open>src\<close> the three values of the SMBIOS debug accessors.
\<close>

definition board_calibrate ::
  "(u64 \<Rightarrow> u8) \<Rightarrow> boot_params option \<Rightarrow> int \<Rightarrow> int \<Rightarrow> 's imc_ops list \<Rightarrow> board_profile option list \<Rightarrow> int \<times> u64 \<times> u32
     \<Rightarrow> u8 list option \<Rightarrow> bool list \<Rightarrow> 's dispatch \<Rightarrow> cal_result \<times> cal_event list \<times> bool list \<times> 's dispatch" where
  "board_calibrate mem bp row_top row_bot families profiles src product test_list ds =
     (let (filter_events, test_list) = apply_test_filter mem bp test_list;
          es = cmdline_echo mem bp @ filter_events @ countdown bp ''boot-log'' PAUSE_SECONDS @ [Clear_Phase];
          (mc, ds) = imc_config families ds
      in case mc of
           None \<Rightarrow>
             (Unsupported, es @ [Line row_top No_Imc] @ countdown bp ''end'' PAUSE_SECONDS, test_list, ds)
         | Some mc \<Rightarrow>
             let (probe, ds) = imc_decode_pa families 0x40000000 ds;
                 es = es @ snd (imc_phase row_top row_bot mc probe) @ countdown bp ''imc-config'' PAUSE_SECONDS @ [Clear_Phase];
                 es = es @ snd (board_phase row_top src product (board_detect profiles product)) @
                        countdown bp ''board-id'' PAUSE_SECONDS @ [Clear_Phase];
                 (rows, ds) = imc_dump_mchbar_at families (row_top + 1) row_bot ds;
                 es = es @ [Line row_top Dump_Header] @ map (\<lambda>(r, row). Line r (Dump_Line row)) rows @
                        countdown bp ''mchbar'' PAUSE_SECONDS @ [Clear_Phase]
             in if read_brr_flags bp AND BRR_FLAG_CALIBRATE_ONLY \<noteq> 0
                then (Halted, es @ [Line row_top Halting, Line (row_top + 1) Power_Off], test_list, ds)
                else (Tests_Run, es @ [Line row_top Tests_Starting], test_list, ds))"

section \<open>The beep\<close>

text \<open>Port reads and writes and pauses, in order; \<open>inb\<close> sees the port as it is then.\<close>

definition PIT_CH2_DATA :: u16 where "PIT_CH2_DATA = 0x42"
definition PIT_CMD :: u16 where "PIT_CMD = 0x43"
definition SPEAKER_CTRL :: u16 where "SPEAKER_CTRL = 0x61"
definition PIT_FREQ_HZ :: u32 where "PIT_FREQ_HZ = 1193180"

record 'p port_io =
  inb :: "u16 \<Rightarrow> 'p \<Rightarrow> u8"
  outb :: "u8 \<Rightarrow> u16 \<Rightarrow> 'p \<Rightarrow> 'p"
  usleep :: "nat \<Rightarrow> 'p \<Rightarrow> 'p"

definition speaker_tone :: "'p port_io \<Rightarrow> u32 \<Rightarrow> 'p \<Rightarrow> 'p" where
  "speaker_tone io freq_hz p =
     (if freq_hz = 0 then p
      else
        let d = (ucast (PIT_FREQ_HZ div freq_hz) :: u16);
            p = outb io 0xB6 PIT_CMD p;
            p = outb io (ucast (d AND 0xFF)) PIT_CH2_DATA p;
            p = outb io (ucast (drop_bit 8 d AND 0xFF)) PIT_CH2_DATA p;
            cur = inb io SPEAKER_CTRL p
        in if cur AND 0x03 \<noteq> 0x03 then outb io (cur OR 0x03) SPEAKER_CTRL p else p)"

definition speaker_off :: "'p port_io \<Rightarrow> 'p \<Rightarrow> 'p" where
  "speaker_off io p = (let cur = inb io SPEAKER_CTRL p in outb io (cur AND NOT 0x03) SPEAKER_CTRL p)"

definition board_beep_pass_end :: "'p port_io \<Rightarrow> 'p \<Rightarrow> 'p" where
  "board_beep_pass_end io p =
     speaker_off io
       (((\<lambda>p. usleep io 100000 (speaker_off io (usleep io 200000 (speaker_tone io 800 p)))) ^^ 3) p)"

section \<open>The search of the command line\<close>

text \<open>The bytes the search looks at.\<close>

definition cmdline_bytes :: "(u64 \<Rightarrow> u8) \<Rightarrow> boot_params \<Rightarrow> u8 list" where
  "cmdline_bytes mem b = map (\<lambda>k. mem (bo_cmd_line_ptr b + of_nat k)) [0..<search_length (bo_cmd_line_size b)]"

lemma agreeing_all: "agreeing hay n = length n \<longleftrightarrow> n = map hay [0..<length n]"
proof (induction n arbitrary: hay)
  case (Cons c n)
  have "map hay [0..<Suc (length n)] = hay 0 # map (\<lambda>k. hay (Suc k)) [0..<length n]"
    by (simp add: upt_conv_Cons map_Suc_upt [symmetric] o_def del: upt_Suc)
  then show ?case using Cons [of "\<lambda>k. hay (Suc k)"] by (auto simp del: upt_Suc)
qed simp

lemma sublist_at: "sublist n s \<longleftrightarrow> length n \<le> length s \<and> (\<exists>i \<le> length s - length n. take (length n) (drop i s) = n)"
proof
  assume "sublist n s"
  then obtain a b where "s = a @ n @ b" by (auto simp: sublist_def)
  then show "length n \<le> length s \<and> (\<exists>i \<le> length s - length n. take (length n) (drop i s) = n)"
    by (intro conjI exI [of _ "length a"]) simp_all
next
  assume "length n \<le> length s \<and> (\<exists>i \<le> length s - length n. take (length n) (drop i s) = n)"
  then obtain i where "take (length n) (drop i s) = n" by blast
  then have "s = take i s @ n @ drop (length n) (drop i s)" by (metis append_take_drop_id)
  then show "sublist n s" by (auto simp: sublist_def)
qed

lemma take_cstr: "take (length (cstr s)) s = cstr s"
  unfolding cstr_def by (metis takeWhile_eq_take)

lemma cmdline_contains_iff:
  assumes "bo_cmd_line_ptr b \<noteq> 0" "cstr n \<noteq> []"
  shows "cmdline_contains mem (Some b) n \<longleftrightarrow> sublist (cstr n) (cmdline_bytes mem b)"
proof -
  define hlen where "hlen = search_length (bo_cmd_line_size b)"
  define nlen where "nlen = length (cstr n)"
  have n: "take nlen n = cstr n" "strlen n = nlen" by (simp_all add: nlen_def take_cstr strlen_cstr)
  have at: "agreeing (\<lambda>j. mem (bo_cmd_line_ptr b + of_nat (i + j))) (cstr n) = nlen \<longleftrightarrow>
      take nlen (drop i (cmdline_bytes mem b)) = cstr n" if "i + nlen \<le> hlen" for i
  proof -
    have "take nlen (drop i (cmdline_bytes mem b)) = map (\<lambda>j. mem (bo_cmd_line_ptr b + of_nat (i + j))) [0..<nlen]"
      using that by (intro nth_equalityI) (simp_all add: cmdline_bytes_def hlen_def)
    then show ?thesis using agreeing_all [of _ "cstr n"] by (metis nlen_def)
  qed
  have nz: "nlen \<noteq> 0" using assms(2) by (simp add: nlen_def)
  have len: "length (cmdline_bytes mem b) = hlen" by (simp add: cmdline_bytes_def hlen_def)
  show ?thesis
  proof (cases "nlen \<le> hlen")
    case True
    have "cmdline_contains mem (Some b) n \<longleftrightarrow>
        list_ex (\<lambda>i. agreeing (\<lambda>j. mem (bo_cmd_line_ptr b + of_nat (i + j))) (take nlen n) = nlen) [0..<Suc (hlen - nlen)]"
      using assms(1) True nz by (simp add: cmdline_contains_def n(2) Let_def del: upt_Suc flip: hlen_def)
    also have "\<dots> \<longleftrightarrow>
        (\<exists>i \<le> hlen - nlen. agreeing (\<lambda>j. mem (bo_cmd_line_ptr b + of_nat (i + j))) (cstr n) = nlen)"
      unfolding n(1) list_ex_iff set_upt atLeast0LessThan lessThan_Suc_atMost by auto
    also have "\<dots> \<longleftrightarrow> (\<exists>i \<le> hlen - nlen. take nlen (drop i (cmdline_bytes mem b)) = cstr n)"
      using at True by (metis add.commute le_diff_conv2)
    finally show ?thesis using True by (simp add: sublist_at [of "cstr n"] len flip: nlen_def)
  next
    case False
    then show ?thesis
      using assms(1) by (auto simp: cmdline_contains_def Let_def n(2) sublist_at [of "cstr n"] len simp flip: hlen_def nlen_def)
  qed
qed

text \<open>The test filter finds an option anywhere in the command line, also behind the NULs that memtest86+
  has put between the options: the search is for a contiguous part of the first bytes of the
  line, at most 4096 of them.\<close>

theorem cmdline_contains_sublist:
  assumes "bo_cmd_line_ptr b \<noteq> 0" "cstr n \<noteq> []"
  shows "cmdline_contains mem (Some b) n \<longleftrightarrow> sublist (cstr n) (cmdline_bytes mem b)"
  by (rule cmdline_contains_iff [OF assms])

interpretation boot_line: substring_search "\<lambda>(mem, b). cmdline_contains mem (Some b)"
    "\<lambda>(mem, b). if bo_cmd_line_ptr b = 0 then [] else cmdline_bytes mem b"
proof (unfold_locales, goal_cases)
  case (1 n h)
  obtain mem b where h: "h = (mem, b)" by (metis surj_pair)
  show ?case
  proof (cases "bo_cmd_line_ptr b = 0")
    case True
    then show ?thesis using 1(1) by (simp add: h cmdline_contains_def)
  next
    case False
    then show ?thesis using 1 cmdline_contains_iff [of b n mem] by (simp add: h cstr_idem)
  qed
qed

section \<open>The fast mode\<close>

text \<open>What memtest86+ makes of the command line: its blanks become NULs.\<close>

definition tokenised :: "u8 list \<Rightarrow> u8 list" where
  "tokenised s = map (\<lambda>c. if c = ch CHR '' '' then 0 else c) s"

lemma sublist_tokenised:
  assumes "0 \<notin> set n" "ch CHR '' '' \<notin> set n"
  shows "sublist n (tokenised s) \<longleftrightarrow> sublist n s"
proof
  assume "sublist n (tokenised s)"
  then obtain a b where t: "tokenised s = a @ n @ b" by (auto simp: sublist_def)
  define m where "m = take (length n) (drop (length a) s)"
  have "tokenised m = take (length n) (drop (length a) (tokenised s))"
    by (simp add: m_def tokenised_def take_map drop_map)
  then have m: "tokenised m = n" by (simp add: t)
  have "tokenised m = m"
    unfolding tokenised_def using m assms(1) by (intro map_idI) (auto simp: tokenised_def)
  then show "sublist n s" using m sublist_take sublist_drop sublist_order.order_trans by (metis m_def)
next
  assume "sublist n s"
  then obtain a b where s: "s = a @ n @ b" by (auto simp: sublist_def)
  have "tokenised n = n"
    unfolding tokenised_def using assms(2) by (intro map_idI) auto
  then show "sublist n (tokenised s)"
    using s by (auto simp: sublist_def tokenised_def)
qed

text \<open>The boot parameters of a run whose command line was \<open>s\<close>, with the flags the boot menu computed.\<close>

definition booted_with :: "u8 list \<Rightarrow> (u64 \<Rightarrow> u8) \<Rightarrow> boot_params \<Rightarrow> bool" where
  "booted_with s mem b \<longleftrightarrow> s \<noteq> [] \<and> 0 \<notin> set s \<and> length s \<le> 4096 \<and> bo_cmd_line_ptr b \<noteq> 0 \<and>
     bo_cmd_line_size b = of_nat (length s) \<and> bo_brr_flags b = efi_menu (Some (s @ [0])) \<and>
     (\<forall>k < length s. mem (bo_cmd_line_ptr b + of_nat k) = tokenised s ! k)"

lemma booted_bytes:
  assumes "booted_with s mem b"
  shows "cmdline_bytes mem b = tokenised s"
proof -
  have "unat (bo_cmd_line_size b) = length s" "length s \<noteq> 0"
    using assms by (simp_all add: booted_with_def unat_of_nat)
  then have "search_length (bo_cmd_line_size b) = length s"
    using assms by (simp add: search_length_def booted_with_def word_less_nat_alt unat_eq_0 [symmetric] del: unat_eq_0)
  then show ?thesis
    using assms by (intro nth_equalityI) (simp_all add: cmdline_bytes_def tokenised_def booted_with_def)
qed

lemma booted_contains:
  assumes "booted_with s mem b" "n \<noteq> []" "0 \<notin> set n" "ch CHR '' '' \<notin> set n"
  shows "cmdline_contains mem (Some b) n \<longleftrightarrow> sublist n s"
  using assms(1) boot_line.has_sublist [OF assms(2,3), of "(mem, b)"] booted_bytes [OF assms(1)]
    sublist_tokenised [OF assms(3,4)]
  by (simp add: booted_with_def)

lemma booted_menu:
  assumes "booted_with s mem b" "n \<noteq> []" "0 \<notin> set n"
  shows "cmdline_has (Some (s @ [0])) (Some n) \<longleftrightarrow> sublist n s"
  using assms(1) cmdline.has_sublist [OF assms(2,3), of "s @ [0]"]
  by (simp add: booted_with_def cstr_idem)

definition fast_line :: "u8 list \<Rightarrow> bool" where
  "fast_line s \<longleftrightarrow> sublist (str ''brr_fast'') s"

lemma fast_filter:
  "booted_with s mem b \<Longrightarrow> cmdline_contains mem (Some b) (str ''brr_fast'') \<longleftrightarrow> fast_line s"
  unfolding fast_line_def by (rule booted_contains) simp_all

lemma fast_flags:
  assumes "booted_with s mem b"
  shows "read_brr_flags (Some b) = (if fast_line s then BRR_FLAG_SKIP_COUNTDOWNS else 0)"
proof -
  have "cmdline_has (Some (s @ [0])) (Some (str ''brr_fast'')) \<longleftrightarrow> fast_line s"
    unfolding fast_line_def by (rule booted_menu [OF assms]) simp_all
  then show ?thesis
    using assms unfolding read_brr_flags_def booted_with_def efi_menu_def by simp
qed

lemma fast_apply:
  assumes "booted_with s mem b"
  shows "apply_test_filter mem (Some b) tests =
    (if fast_line s then ([Fast_Active], filter_tests tests) else ([Fast_Inactive], tests))"
  unfolding apply_test_filter_def fast_filter [OF assms] by simp

text \<open>The seconds a run of the calibration waits.\<close>

definition seconds :: "cal_event list \<Rightarrow> nat" where
  "seconds es = sum_list (map (\<lambda>e. case e of Sleep n \<Rightarrow> n | _ \<Rightarrow> 0) es)"

lemma seconds_simps [simp]:
  "seconds [] = 0" "seconds (e # es) = (case e of Sleep n \<Rightarrow> n | _ \<Rightarrow> 0) + seconds es"
  "seconds (es @ es') = seconds es + seconds es'"
  by (simp_all add: seconds_def)

lemma seconds_lines: "seconds (map (\<lambda>x. Line (f x) (g x)) xs) = 0"
  by (induction xs) simp_all

lemma seconds_emit: "seconds (snd (emit l s)) = seconds (snd s)"
  by (simp add: emit_def split_def)

lemma seconds_imc_phase: "seconds (snd (imc_phase t l mc probe)) = 0"
  by (simp add: imc_phase_def Let_def channel_lines_def dimm_line_def seconds_emit)

lemma seconds_board_phase: "seconds (snd (board_phase t src product p)) = 0"
  by (simp add: board_phase_def Let_def seconds_emit split: option.split)

lemma seconds_countdown:
  "seconds (countdown bp tag n) = (if read_brr_flags bp AND BRR_FLAG_SKIP_COUNTDOWNS \<noteq> 0 then 0 else n)"
proof -
  have "seconds (countdown_loop tag n) = n" by (induction n) simp_all
  then show ?thesis by (simp add: countdown_def)
qed

lemma seconds_echo: "seconds (cmdline_echo mem bp) = 0"
  by (simp add: cmdline_echo_def Let_def split: option.split)

text \<open>C37: one word on the command line decides both: with \<^verbatim>\<open>brr_fast\<close> in it only tests 0, 3 and 5 stay
  enabled and the calibration does not wait, without it the tests stay as they are and the
  calibration waits 20 seconds, or 10 on an unsupported processor. The boot menu looks the word
  up before memtest86+ has taken the line apart, the filter afterwards.\<close>

theorem fast_mode:
  assumes "booted_with s mem b"
    and "board_calibrate mem (Some b) t l families profiles src product tests ds = (res, es, tests', ds')"
  shows "if fast_line s then seconds es = 0 \<and> tests' = filter_tests tests
    else seconds es = (if res = Unsupported then 10 else 20) \<and> tests' = tests"
proof -
  have flags: "read_brr_flags (Some b) AND BRR_FLAG_SKIP_COUNTDOWNS = (if fast_line s then BRR_FLAG_SKIP_COUNTDOWNS else 0)"
    "read_brr_flags (Some b) AND BRR_FLAG_CALIBRATE_ONLY = 0" "BRR_FLAG_SKIP_COUNTDOWNS \<noteq> 0"
    by (simp_all add: fast_flags [OF assms(1)] BRR_FLAG_SKIP_COUNTDOWNS_def BRR_FLAG_CALIBRATE_ONLY_def)
  show ?thesis
    using assms(2) flags
    by (cases "fast_line s")
      (auto simp: board_calibrate_def fast_apply [OF assms(1)] split_def Let_def
        seconds_countdown seconds_imc_phase seconds_board_phase seconds_lines seconds_echo PAUSE_SECONDS_def
        split: option.splits)
qed

text \<open>A run in the fast mode.\<close>

definition fast_params :: boot_params where
  "fast_params = \<lparr>bo_brr_flags = efi_menu (Some (str ''x brr_fast'' @ [0])), bo_cmd_line_ptr = 0x1000, bo_cmd_line_size = 10\<rparr>"

definition fast_memory :: "u64 \<Rightarrow> u8" where
  "fast_memory a = (let k = unat (a - 0x1000) in if k < 10 then tokenised (str ''x brr_fast'') ! k else 0)"

lemma booted_fast: "booted_with (str ''x brr_fast'') fast_memory fast_params"
  by (simp add: booted_with_def fast_params_def fast_memory_def unat_of_nat tokenised_def)

theorem cmdline_contains_sublist_witness:
  "cmdline_contains fast_memory (Some fast_params) (str ''brr_fast'')"
proof -
  have "cmdline_bytes fast_memory fast_params = tokenised (str ''x brr_fast'')"
    by (rule booted_bytes [OF booted_fast])
  also have "\<dots> = [ch CHR ''x'', 0] @ str ''brr_fast''" by (simp add: tokenised_def)
  finally have "cmdline_bytes fast_memory fast_params = [ch CHR ''x'', 0] @ str ''brr_fast''" .
  then show ?thesis
    by (subst cmdline_contains_sublist) (simp_all add: fast_params_def sublist_Cons_right)
qed

theorem fast_mode_witness:
  "let (res, es, tests, ds) = board_calibrate fast_memory (Some fast_params) 12 23 (g_families (a1990_hw 0x410)) []
       (0, 0, 0) None (replicate 10 True) \<lparr>g_active = None, g_detected = False, family_state = blank_imc\<rparr>
   in seconds es = 0 \<and> tests = [True, False, False, True, False, True, False, False, False, False]"
proof -
  define ds where "ds = \<lparr>g_active = None, g_detected = False, family_state = blank_imc\<rparr>"
  obtain res es tests ds' where run: "board_calibrate fast_memory (Some fast_params) 12 23 (g_families (a1990_hw 0x410)) []
       (0, 0, 0) None (replicate 10 True) ds = (res, es, tests, ds')"
    by (metis prod_cases4)
  have f: "fast_line (str ''x brr_fast'')" by (simp add: fast_line_def sublist_Cons_right)
  have "filter_tests (replicate 10 True) = [True, False, False, True, False, True, False, False, False, False]"
    by (simp add: filter_tests_def fast_tests_def upt_rec)
  then show ?thesis
    using fast_mode [OF booted_fast run] f run by (simp add: ds_def)
qed

section \<open>The speaker\<close>

text \<open>Port \<open>0x61\<close> keeps what is written to it.\<close>

definition speaker_port :: "'p port_io \<Rightarrow> bool" where
  "speaker_port io \<longleftrightarrow>
     (\<forall>v p. inb io SPEAKER_CTRL (outb io v SPEAKER_CTRL p) = v) \<and>
     (\<forall>v port p. port \<noteq> SPEAKER_CTRL \<longrightarrow> inb io SPEAKER_CTRL (outb io v port p) = inb io SPEAKER_CTRL p) \<and>
     (\<forall>us p. inb io SPEAKER_CTRL (usleep io us p) = inb io SPEAKER_CTRL p)"

lemma speaker_off_port:
  "speaker_port io \<Longrightarrow> inb io SPEAKER_CTRL (speaker_off io p) = inb io SPEAKER_CTRL p AND NOT 0x03"
  by (simp add: speaker_port_def speaker_off_def)

lemma speaker_tone_port:
  assumes "speaker_port io" "freq \<noteq> 0"
  shows "inb io SPEAKER_CTRL (speaker_tone io freq p) = inb io SPEAKER_CTRL p OR 0x03"
proof -
  have "v OR 3 = v" if "v AND 3 = 3" for v :: u8
    using that by (metis word_ao_absorbs(4) word_bw_comms(1) word_bw_comms(2))
  then show ?thesis
    using assms by (auto simp: speaker_port_def speaker_tone_def Let_def PIT_CMD_def PIT_CH2_DATA_def SPEAKER_CTRL_def)
qed

text \<open>The beep ends with the speaker off and the other bits of the port as they were.\<close>

lemma beep_silent:
  assumes "speaker_port io"
  shows "inb io SPEAKER_CTRL (board_beep_pass_end io p) = inb io SPEAKER_CTRL p AND NOT 0x03"
proof -
  have u: "inb io SPEAKER_CTRL (usleep io us q) = inb io SPEAKER_CTRL q" for us q
    using assms by (simp add: speaker_port_def)
  have o3: "(v OR 3) AND - 4 = v AND - 4" "(v AND - 4 OR 3) AND - 4 = v AND - 4" "v AND - 4 AND - 4 = v AND - 4" for v :: u8
    using word_ao_dist [of v 3 "- 4"] word_ao_dist [of "v AND - 4" 3 "- 4"] by (simp_all add: word_bw_assocs)
  show ?thesis
    by (simp add: board_beep_pass_end_def numeral_3_eq_3 speaker_off_port [OF assms] speaker_tone_port [OF assms] u o3)
qed

end
