(* ===== verification/Dump_Typed.thy ===== *)
theory Dump_Typed
  imports Error_Hook Brr_Entry
begin

text \<open>
  From the screen of the tester to the prompt: the user photographs the dump of \<^verbatim>\<open>src/badmem_log.c\<close> and
  types it into \<^verbatim>\<open>efi/brr-entry/main.c\<close>. The two programs read and write hexadecimal numbers with
  routines of their own; on ASCII text the reader of the prompt agrees with the reader of
  \<^verbatim>\<open>badmem.txt\<close>, and so reads what the dump writes.
\<close>

section \<open>The two readers agree\<close>

definition same_digit :: "u8 \<Rightarrow> bool" where
  "same_digit c \<longleftrightarrow>
     (case hex_dig c of
        None \<Rightarrow> \<not> is_hex_digit (ucast c)
      | Some d \<Rightarrow> is_hex_digit (ucast c) \<and> ucast (hex_value (ucast c)) = (ucast d :: u64))"

lemma same_digit: "same_digit c"
proof (cases "unat c \<in> set ([48..<58] @ [65..<71] @ [97..<103])")
  case True
  have "list_all (\<lambda>n. same_digit (of_nat n)) ([48..<58] @ [65..<71] @ [97..<103])" by code_simp
  with True have "same_digit (of_nat (unat c))" by (simp only: list_all_iff)
  then show ?thesis by simp
next
  case False
  have "unat (ucast c :: u16) = unat c" using unat_lt8 [of c] by (simp add: unsigned_ucast_eq take_bit_nat_eq_self)
  moreover have "\<not> (48 \<le> unat c \<and> unat c \<le> 57)" "\<not> (65 \<le> unat c \<and> unat c \<le> 70)"
    "\<not> (97 \<le> unat c \<and> unat c \<le> 102)"
    using False by (simp_all only: set_append set_upt Un_iff atLeastLessThan_iff) linarith+
  ultimately have "\<not> is_hex_digit (ucast c)" "hex_dig c = None"
    by (simp_all add: is_hex_digit_def hex_dig_def word_le_nat_alt)
  then show ?thesis by (simp add: same_digit_def)
qed

lemma same_digit_None: "hex_dig c = None \<Longrightarrow> \<not> is_hex_digit (ucast c)"
  using same_digit [of c] by (simp add: same_digit_def)

lemma same_digit_Some:
  "hex_dig c = Some d \<Longrightarrow> is_hex_digit (ucast c) \<and> ucast (hex_value (ucast c)) = (ucast d :: u64)"
  using same_digit [of c] by (simp add: same_digit_def)

text \<open>The loops of \<open>parse_hex\<close> and \<open>parse_u64\<close> are the same on the same text.\<close>

lemma hex_digits_run_agree:
  "hex_digits v (map ucast p) = (case hex_run v ok p of (v', ok', q) \<Rightarrow> (v', map ucast q))"
proof (induction v ok p rule: hex_run.induct)
  case (2 v ok c p)
  then show ?case using same_digit_None [of c] same_digit_Some [of c] by (cases "hex_dig c") auto
qed simp

lemma hex_run_consumed:
  "hex_run v ok p = (v', ok', []) \<Longrightarrow> list_all is_hex_digit (map ucast p) \<and>
     foldl (\<lambda>v c. push_bit 4 v OR ucast (hex_value c)) v (map ucast p) = v'"
  by (induction v ok p rule: hex_run.induct) (auto dest: same_digit_Some split: option.splits)

section \<open>The dump, typed\<close>

text \<open>The digits the dump writes for an address.\<close>

definition dump_digits :: "u64 \<Rightarrow> u16 list" where
  "dump_digits v = map ucast (dump_nibbles v False nibble_shifts)"

interpretation dumped: address_writer dump_digits
proof unfold_locales
  fix v
  have "hex_run 0 False (dump_nibbles v False nibble_shifts) = (v, True, [])"
    using hex_run_dump_addr [of v "[]"] by (simp add: dump_addr_def)
  from hex_run_consumed [OF this]
  show "list_all is_hex_digit (dump_digits v)"
    "foldl (\<lambda>v c. push_bit 4 v OR ucast (hex_value c)) 0 (dump_digits v) = v"
    by (simp_all add: dump_digits_def)
qed

text \<open>The address lines of a dump, as the user types them: one after the other.\<close>

definition addr_lines :: "dump_line list \<Rightarrow> u8 list list" where
  "addr_lines ls = List.map_filter (\<lambda>l. case l of Dump_addrs t \<Rightarrow> Some t | _ \<Rightarrow> None) ls"

definition typed_dump :: "badmem_log \<Rightarrow> u16 list" where
  "typed_dump s = map ucast (concat (addr_lines (badmem_log_dump s)))"

lemma typed_dump_comma: "typed_dump s = comma_text dump_digits (log_pages s)"
proof -
  have lines: "concat (addr_lines (badmem_log_dump s)) = dump_text (log_pages s)"
    using concat_dump_pages [of "log_pages s" "[]"]
    by (simp add: badmem_log_dump_def addr_lines_def List.map_filter_def o_def)
  have "map ucast (dump_text vs) = comma_text dump_digits vs" for vs
    by (induction vs) (simp_all add: dump_addr_def dump_digits_def)
  then show ?thesis by (simp add: typed_dump_def lines)
qed

lemma dump_retyped:
  assumes "list_all page_aligned (log_pages s)"
  shows "parse_addresses (typed_dump s) cap = Some (take cap (filter (\<lambda>v. v \<noteq> 0) (log_pages s)))"
  by (simp add: typed_dump_comma dumped.retyped [OF assms])


end
