(* ===== verification/Efi_Console.thy ===== *)
theory Efi_Console
  imports Efi_Firmware
begin

text \<open>
  Text output of the EFI programs: \<open>efi_print\<close> and the routines built on it (\<^verbatim>\<open>efi/efi_util.c\<close>). The
  console is a record of services over a world \<open>'c\<close>: a pointer that may be NULL is a flag or an
  option. \<open>OutputString\<close> gets the buffer from the string on, its terminator included.
\<close>

record 'c console =
  has_con_out :: bool
  OutputString :: "u16 list \<Rightarrow> 'c \<Rightarrow> 'c"
  QueryMode :: "nat \<Rightarrow> status \<times> u64 \<times> u64"
  ConSetMode :: "(nat \<Rightarrow> 'c \<Rightarrow> 'c) option"
  SetAttribute :: "(u64 \<Rightarrow> 'c \<Rightarrow> 'c) option"
  ClearScreen :: "('c \<Rightarrow> 'c) option"
  ConInReset :: "(bool \<Rightarrow> 'c \<Rightarrow> 'c) option"

definition efi_print :: "'c console \<Rightarrow> u16 list \<Rightarrow> 'c \<Rightarrow> 'c" where
  "efi_print con s c = (if has_con_out con then OutputString con s c else c)"

definition efi_printa :: "'c console \<Rightarrow> u8 list \<Rightarrow> 'c \<Rightarrow> 'c" where
  "efi_printa con s c = (let buf = efi_ascii_to_utf16 s 256 in efi_print con buf c)"

definition efi_print_hex :: "'c console \<Rightarrow> u64 \<Rightarrow> 'c \<Rightarrow> 'c" where
  "efi_print_hex con val c =
     (let c = efi_print con (str ''0x'' @ [0]) c;
          buf = efi_fmt_hex val 1 @ [0]
      in efi_print con buf c)"

definition efi_print_dec :: "'c console \<Rightarrow> u64 \<Rightarrow> 'c \<Rightarrow> 'c" where
  "efi_print_dec con val c = (let buf = efi_fmt_dec val @ [0] in efi_print con buf c)"

definition efi_newline :: "'c console \<Rightarrow> 'c \<Rightarrow> 'c" where
  "efi_newline con c = efi_print con [0xD, 0xA, 0] c"

text \<open>A console that shows every character of a string: \<open>shown\<close> is the text on it so far.\<close>

definition shows_text :: "'c console \<Rightarrow> ('c \<Rightarrow> u16 list) \<Rightarrow> bool" where
  "shows_text con shown \<longleftrightarrow> has_con_out con \<and> (\<forall>s c. shown (OutputString con s c) = shown c @ cstr s)"

lemma hex_digit_not_0 [simp]: "hex_digit v \<noteq> 0"
proof -
  have "list_all (\<lambda>n. hex_digit (of_nat n) \<noteq> 0) [0..<16]" by code_simp
  then show ?thesis by (rule hex_digit_cases [where P = "\<lambda>c _. c \<noteq> 0"])
qed

lemma NUL_notin_hex_rev: "0 \<notin> set (hex_rev v)"
proof (induction v rule: hex_rev.induct)
  case (1 v)
  then show ?case by (subst hex_rev.simps) (auto simp: not_sym [OF hex_digit_not_0])
qed

lemma cstr_fmt_hex [simp]: "cstr (efi_fmt_hex v n) = efi_fmt_hex v n"
proof (rule cstr_idem)
  show "0 \<notin> set (efi_fmt_hex v n)" using NUL_notin_hex_rev [of v] by (auto simp: efi_fmt_hex_def Let_def)
qed

lemma printed:
  assumes "shows_text con shown"
  shows "shown (efi_print con s c) = shown c @ cstr s"
    "shown (efi_print_hex con v c) = shown c @ str ''0x'' @ efi_fmt_hex v 1"
    "shown (efi_printa con a c) = shown c @ take 255 (map ucast (cstr a))"
    "shown (efi_newline con c) = shown c @ [0xD, 0xA]"
  using assms
  by (simp_all add: shows_text_def efi_print_def efi_print_hex_def efi_printa_def efi_newline_def
      cstr_efi_ascii_to_utf16)

lemma dec_digit_not_0: "(ch CHR ''0'' + ucast (v mod 10 :: u64) :: u16) \<noteq> 0"
proof -
  have "unat (v mod 10) < 10" by (simp add: unat_mod)
  then obtain n where v: "v mod 10 = of_nat n" and n: "n \<in> set [0..<10]"
    using that [of "unat (v mod 10)"] by simp
  have "list_all (\<lambda>n. (ch CHR ''0'' + ucast (of_nat n :: u64) :: u16) \<noteq> 0) [0..<10]" by code_simp
  with n show ?thesis unfolding list_all_iff v by blast
qed

lemma NUL_notin_dec_rev: "0 \<notin> set (dec_rev v)"
proof (induction v rule: dec_rev.induct)
  case (1 v)
  then show ?case using dec_digit_not_0 [of v] by (subst dec_rev.simps) (auto dest: sym)
qed

lemma printed_dec:
  assumes "shows_text con shown"
  shows "shown (efi_print_dec con v c) = shown c @ efi_fmt_dec v"
  using assms NUL_notin_dec_rev [of v]
  by (simp add: shows_text_def efi_print_dec_def efi_print_def efi_fmt_dec_def cstr_idem)

end
