(* ===== verification/Brr_Console.thy ===== *)
theory Brr_Console
  imports Brr_Entry Efi_Console
begin

text \<open>
  The screen of the address prompt (\<^verbatim>\<open>efi/brr-entry/main.c\<close>): the switch to text mode, the set-up of
  the console, and the addresses it lists. A printed address, typed in again, is the same address.
\<close>

section \<open>Setting up the console\<close>

definition CONSOLE_CONTROL_GUID :: efi_guid where
  "CONSOLE_CONTROL_GUID = \<lparr>guid_data1 = 0xf42f7782, guid_data2 = 0x012e, guid_data3 = 0x4c12,
     guid_data4 = [0x99, 0x56, 0x49, 0xf9, 0x43, 0x04, 0xf7, 0x21]\<rparr>"

datatype ecc_screen_mode = ECC_SCREEN_TEXT | ECC_SCREEN_GRAPHICS | ECC_SCREEN_MAX

text \<open>\<open>locate\<close> is \<open>LocateProtocol\<close>: a status, and the protocol with its \<open>SetMode\<close>, either of which may be NULL.\<close>

definition force_text_mode ::
  "(efi_guid \<Rightarrow> status \<times> (ecc_screen_mode \<Rightarrow> 'c \<Rightarrow> 'c) option option) \<Rightarrow> 'c \<Rightarrow> 'c" where
  "force_text_mode locate c =
     (let (s, cc) = locate CONSOLE_CONTROL_GUID in
      if s = EFI_SUCCESS then
        (case cc of Some (Some set_mode) \<Rightarrow> set_mode ECC_SCREEN_TEXT c | _ \<Rightarrow> c)
      else c)"

definition crlf :: "u16 list" where "crlf = [0xD, 0xA, 0]"

definition setup_console ::
  "'c console \<Rightarrow> (efi_guid \<Rightarrow> status \<times> (ecc_screen_mode \<Rightarrow> 'c \<Rightarrow> 'c) option option) \<Rightarrow> 'c \<Rightarrow> 'c" where
  "setup_console con locate c =
     (let c = force_text_mode locate c;
          c = (case (has_con_out con, ConSetMode con) of
                 (True, Some set_mode) \<Rightarrow>
                   (let c = set_mode (best_text_mode (QueryMode con)) c;
                        c = (case SetAttribute con of Some set_attribute \<Rightarrow> set_attribute 0x07 c | None \<Rightarrow> c)
                    in case ClearScreen con of Some clear_screen \<Rightarrow> clear_screen c | None \<Rightarrow> c)
               | _ \<Rightarrow> c);
          c = (case ConInReset con of Some reset \<Rightarrow> reset False c | None \<Rightarrow> c);
          c = efi_print con crlf c;
          c = efi_print con (str ''  ============================================'' @ crlf) c;
          c = efi_print con (str ''        APPLY MASK -- enter bad addresses'' @ crlf) c;
          c = efi_print con (str ''  ============================================'' @ crlf) c
      in efi_print con crlf c)"

section \<open>The lists of addresses\<close>

text \<open>\<open>n. 0x...\<close>, shared by the two lists.\<close>

definition print_numbered :: "'c console \<Rightarrow> nat \<Rightarrow> u64 \<Rightarrow> 'c \<Rightarrow> 'c" where
  "print_numbered con i pa c =
     (let c = efi_print con (str ''    '' @ [0]) c;
          c = efi_print_dec con (of_nat (i + 1)) c;
          c = efi_print con (str ''. '' @ [0]) c
      in efi_print_hex con pa c)"

text \<open>The saved mask: its first eight addresses, and how many more there are.\<close>

definition show_saved :: "'c console \<Rightarrow> u64 list \<Rightarrow> 'c \<Rightarrow> 'c" where
  "show_saved con pa_arr c =
     (let n_existing = length pa_arr;
          c = efi_print con (str ''  Existing saved mask in NVRAM:'' @ crlf) c;
          c = efi_print con crlf c;
          c = fold (\<lambda>i c. efi_print con crlf (print_numbered con i (pa_arr ! i) c)) [0..<min n_existing 8] c;
          c = (if n_existing > 8 then
                 (let c = efi_print con (str ''    ... and '' @ [0]) c;
                      c = efi_print_dec con (of_nat (n_existing - 8)) c
                  in efi_print con (str '' more'' @ crlf) c)
               else c);
          c = efi_print con crlf c;
          c = efi_print con (str ''  Y = apply this mask + boot macOS'' @ crlf) c;
          c = efi_print con (str ''  N = discard and enter new addresses'' @ crlf) c;
          c = efi_print con (str ''  ESC = cancel (reboot)'' @ crlf) c
      in efi_print con crlf c)"

text \<open>The parsed addresses, each with the range that is said to be masked.\<close>

definition show_parsed :: "'c console \<Rightarrow> u64 list \<Rightarrow> 'c \<Rightarrow> 'c" where
  "show_parsed con pas c =
     (let c = efi_print con crlf c;
          c = efi_print con (str ''  Parsed '' @ [0]) c;
          c = efi_print_dec con (of_nat (length pas)) c;
          c = efi_print con (str '' address(es):'' @ crlf) c;
          c = efi_print con crlf c;
          c = fold (\<lambda>i c.
                 let c = print_numbered con i (pas ! i) c;
                     c = efi_print con (str ''  -> masking '' @ [0]) c;
                     c = efi_print_hex con (pas ! i - 0x100000) c;
                     c = efi_print con (str '' .. '' @ [0]) c;
                     c = efi_print_hex con (pas ! i + 0x100000) c
                 in efi_print con (str ''  (2 MiB)'' @ crlf) c) [0..<length pas] c;
          c = efi_print con crlf c;
          c = efi_print con (str ''  Type Y to apply, any other key to cancel.'' @ crlf) c
      in efi_print con crlf c)"

section \<open>What is shown can be typed\<close>

interpretation typed_hex: hex_reader "\<lambda>c. if is_hex_digit c then Some (ucast (hex_value c)) else None"
proof unfold_locales
  fix v
  have "list_all (\<lambda>n. (if is_hex_digit (hex_digit (of_nat n)) then Some (ucast (hex_value (hex_digit (of_nat n))))
      else None) = Some (of_nat n :: u64)) [0..<16]"
    by code_simp
  then show "(if is_hex_digit (hex_digit v) then Some (ucast (hex_value (hex_digit v))) else None) = Some (v AND 0xf)"
    by (rule hex_digit_cases)
qed

interpretation shown: address_writer "\<lambda>v. efi_fmt_hex v 1"
proof unfold_locales
  fix v
  show hex: "list_all is_hex_digit (efi_fmt_hex v 1)"
    using typed_hex.digits_formatted [of v 1] by (auto simp: list_all_iff split: if_splits)
  have "foldl (\<lambda>v c. push_bit 4 v OR ucast (hex_value c)) u ds =
      foldl (\<lambda>v c. push_bit 4 v OR the (if is_hex_digit c then Some (ucast (hex_value c)) else None)) u ds"
    if "list_all is_hex_digit ds" for u :: u64 and ds
    using that by (induction ds arbitrary: u) simp_all
  from this [OF hex] show "foldl (\<lambda>v c. push_bit 4 v OR ucast (hex_value c)) 0 (efi_fmt_hex v 1) = v"
    using typed_hex.value_formatted [of v 1] by simp
qed

text \<open>A page address on the screen, typed in again, is the same address.\<close>

lemma shown_address_retyped:
  assumes "shows_text con shown" "page_aligned v" "v \<noteq> 0"
  shows "\<exists>t. shown (efi_print_hex con v c) = shown c @ t \<and> parse_addresses t PAS_MAX = Some [v]"
  using printed(2) [OF assms(1)] shown.retyped [of "[v]" PAS_MAX] assms(2,3)
  by (simp add: PAS_MAX_def)

text \<open>A console that keeps the text it shows, and everything else as events.\<close>

datatype con_event = Screen ecc_screen_mode | Mode nat | Attribute u64 | Cleared | Input_Reset bool | Shown "u16 list"

definition log_console :: "con_event list console" where
  "log_console =
     \<lparr>has_con_out = True, OutputString = (\<lambda>s c. c @ [Shown (cstr s)]),
      QueryMode = (\<lambda>m. if m = 0 then (EFI_SUCCESS, 80, 25) else if m = 2 then (EFI_SUCCESS, 240, 56)
        else (EFI_UNSUPPORTED, 0, 0)),
      ConSetMode = Some (\<lambda>m c. c @ [Mode m]), SetAttribute = Some (\<lambda>a c. c @ [Attribute a]),
      ClearScreen = Some (\<lambda>c. c @ [Cleared]), ConInReset = Some (\<lambda>x c. c @ [Input_Reset x])\<rparr>"

definition shown_text :: "con_event list \<Rightarrow> u16 list" where
  "shown_text es = concat (map (\<lambda>e. case e of Shown t \<Rightarrow> t | _ \<Rightarrow> []) es)"

lemma shows_text_log: "shows_text log_console shown_text"
  by (simp add: shows_text_def log_console_def shown_text_def)

text \<open>The set-up in order: text screen, the largest mode, grey on black, a clear screen, an empty key buffer.\<close>

lemma setup_console_order:
  "\<exists>t. setup_console log_console (\<lambda>g. (EFI_SUCCESS, Some (Some (\<lambda>m c. c @ [Screen m])))) [] =
     [Screen ECC_SCREEN_TEXT, Mode 2, Attribute 7, Cleared, Input_Reset False] @ map Shown t"
proof -
  have "[0..<8] = [0, 1, 2, 3, 4, 5, 6, 7 :: nat]" by (simp add: upt_rec)
  then have "best_text_mode (QueryMode log_console) = 2"
    by (simp add: best_text_mode_def log_console_def mode_step_def)
  then show ?thesis
    by (intro exI [of _ "[cstr crlf, cstr (str ''  ============================================'' @ crlf),
        cstr (str ''        APPLY MASK -- enter bad addresses'' @ crlf),
        cstr (str ''  ============================================'' @ crlf), cstr crlf]"])
      (simp add: setup_console_def force_text_mode_def efi_print_def log_console_def del: cstr_simps)
qed

text \<open>The range on the screen is computed without regard to the bottom of memory: below 1 MiB it wraps,
  where the shim stops at address 0.\<close>

lemma shown_range_wraps:
  "take 38 (drop 36 (shown_text (show_parsed log_console [0x1000] []))) =
     str ''0x1000  -> masking 0xfffffffffff01000 ''"
  by code_simp

end
