(* ===== verification/Efi_Memory.thy ===== *)
theory Efi_Memory
  imports Efi_Text
begin

text \<open>
  The memory routines of \<^verbatim>\<open>efi/string.h\<close>, which the compiler calls for structure copies and large
  initialisers. Memory is a function from 64-bit addresses to bytes; an object does not reach past
  the top of the address space.
\<close>

type_synonym memory = "u64 \<Rightarrow> u8"

fun strcpy :: "u8 list \<Rightarrow> u8 list" where
  "strcpy [] = [0]"
| "strcpy (c # s) = (if c = 0 then [0] else c # strcpy s)"

lemma strcpy_cstr: "strcpy s = cstr s @ [0]"
  by (induction s) auto

fun memcpy :: "u64 \<Rightarrow> u64 \<Rightarrow> nat \<Rightarrow> memory \<Rightarrow> memory" where
  "memcpy dd ss 0 m = m"
| "memcpy dd ss (Suc n) m = memcpy (dd + 1) (ss + 1) n (m(dd := m ss))"

text \<open>The second loop of \<open>memmove\<close>, from the ends down.\<close>

fun memmove_down :: "u64 \<Rightarrow> u64 \<Rightarrow> nat \<Rightarrow> memory \<Rightarrow> memory" where
  "memmove_down dd ss 0 m = m"
| "memmove_down dd ss (Suc n) m =
     (let dd = dd - 1; ss = ss - 1 in memmove_down dd ss n (m(dd := m ss)))"

definition memmove :: "u64 \<Rightarrow> u64 \<Rightarrow> nat \<Rightarrow> memory \<Rightarrow> memory" where
  "memmove dd ss n m =
     (if dd < ss then memcpy dd ss n m
      else memmove_down (dd + of_nat n) (ss + of_nat n) n m)"

fun memset :: "u64 \<Rightarrow> u32 \<Rightarrow> nat \<Rightarrow> memory \<Rightarrow> memory" where
  "memset dd c 0 m = m"
| "memset dd c (Suc n) m = memset (dd + 1) c n (m(dd := ucast c))"

fun memcmp :: "u64 \<Rightarrow> u64 \<Rightarrow> nat \<Rightarrow> memory \<Rightarrow> int" where
  "memcmp x y 0 m = 0"
| "memcmp x y (Suc n) m =
     (if m x \<noteq> m y then int (unat (m x)) - int (unat (m y)) else memcmp (x + 1) (y + 1) n m)"

section \<open>Copying\<close>

text \<open>An object of \<open>n\<close> bytes, and the memory after its bytes have been replaced.\<close>

definition in_object :: "u64 \<Rightarrow> nat \<Rightarrow> u64 \<Rightarrow> bool" where
  "in_object d n a \<longleftrightarrow> unat d \<le> unat a \<and> unat a < unat d + n"

definition fits :: "u64 \<Rightarrow> nat \<Rightarrow> bool" where
  "fits d n \<longleftrightarrow> unat d + n \<le> 2 ^ 64"

definition copied :: "u64 \<Rightarrow> u64 \<Rightarrow> nat \<Rightarrow> memory \<Rightarrow> memory" where
  "copied d s n m = (\<lambda>a. if in_object d n a then m (a - d + s) else m a)"

lemma in_object_0 [simp]: "\<not> in_object d 0 a"
  by (simp add: in_object_def)

lemma copied_0 [simp]: "copied d s 0 m = m"
  by (simp add: copied_def)

lemma unat_next:
  assumes "fits d (Suc n)" "0 < n"
  shows "unat (d + 1) = unat d + 1" "fits (d + 1) n"
proof -
  show "unat (d + 1) = unat d + 1" using assms by (simp add: fits_def unat_word_ariths)
  then show "fits (d + 1) n" using assms(1) by (simp add: fits_def)
qed

lemma in_object_first:
  assumes "fits d (Suc n)"
  shows "in_object d (Suc n) a \<longleftrightarrow> a = d \<or> in_object (d + 1) n a"
proof (cases "n = 0")
  case True
  then show ?thesis by (auto simp: in_object_def word_unat_eq_iff)
next
  case False
  then show ?thesis using unat_next(1) [OF assms] by (auto simp: in_object_def word_unat_eq_iff)
qed

lemma in_object_last:
  assumes "fits d (Suc n)"
  shows "in_object d (Suc n) a \<longleftrightarrow> a = d + of_nat n \<or> in_object d n a"
proof -
  have "unat (d + of_nat n) = unat d + n"
    using assms by (simp add: fits_def unat_word_ariths unat_of_nat)
  then show ?thesis by (auto simp: in_object_def word_unat_eq_iff)
qed

lemma unat_offset:
  assumes "in_object d n a" "fits s n"
  shows "unat (a - d + s) = unat a - unat d + unat s"
proof -
  have "unat (a - d) = unat a - unat d"
    using assms(1) by (simp add: in_object_def unat_sub word_le_nat_alt)
  then have "unat (a - d + s) = (unat a - unat d + unat s) mod 2 ^ 64" by (simp only: unat_word_ariths) simp
  also have "\<dots> = unat a - unat d + unat s"
    by (rule mod_less) (use assms in \<open>unfold in_object_def fits_def, linarith\<close>)
  finally show ?thesis .
qed

lemma copied_first:
  assumes "fits d (Suc n)" "fits s (Suc n)" "\<not> in_object s (Suc n) d \<or> d = s"
  shows "copied (d + 1) (s + 1) n (m(d := m s)) = copied d s (Suc n) m"
proof
  fix a
  show "copied (d + 1) (s + 1) n (m(d := m s)) a = copied d s (Suc n) m a"
  proof (cases "in_object (d + 1) n a")
    case True
    then have a: "in_object d (Suc n) a" and n: "0 < n"
      using in_object_first [OF assms(1)] by (auto intro: gr0I)
    have "a - d + s \<noteq> d"
    proof
      assume eq: "a - d + s = d"
      have "unat a < unat d + Suc n" "unat d < unat a"
        using True a unat_next(1) [OF assms(1) n] by (simp_all add: in_object_def)
      then have "in_object s (Suc n) d \<and> d \<noteq> s"
        using unat_offset [OF a assms(2)] eq by (auto simp: in_object_def)
      then show False using assms(3) by simp
    qed
    moreover have "a - (d + 1) + (s + 1) = a - d + s" by simp
    ultimately show ?thesis using True a unfolding copied_def by (simp only: if_True fun_upd_apply if_False)
  qed (auto simp: copied_def in_object_first [OF assms(1)])
qed

lemma memcpy_copied:
  assumes "fits d n" "fits s n" "\<not> in_object s n d \<or> d = s"
  shows "memcpy d s n m = copied d s n m"
  using assms
proof (induction n arbitrary: d s m)
  case 0
  then show ?case by simp
next
  case (Suc n)
  have "memcpy (d + 1) (s + 1) n (m(d := m s)) = copied (d + 1) (s + 1) n (m(d := m s))"
  proof (cases "n = 0")
    case False
    then have n: "0 < n" by simp
    note d = unat_next [OF Suc.prems(1) n] and s = unat_next [OF Suc.prems(2) n]
    have "\<not> in_object (s + 1) n (d + 1) \<or> d + 1 = s + 1"
      using Suc.prems(3) by (auto simp: in_object_def d s)
    then show ?thesis using Suc.IH [OF d(2) s(2)] by simp
  qed simp
  then show ?case using copied_first [OF Suc.prems] by simp
qed

lemma copied_last:
  assumes "fits d (Suc n)" "fits s (Suc n)" "s \<le> d"
  shows "copied d s n (m(d + of_nat n := m (s + of_nat n))) = copied d s (Suc n) m"
proof
  fix a
  have d: "unat (d + of_nat n) = unat d + n"
    using assms(1) by (simp add: fits_def unat_word_ariths unat_of_nat)
  show "copied d s n (m(d + of_nat n := m (s + of_nat n))) a = copied d s (Suc n) m a"
  proof (cases "in_object d n a")
    case True
    then have a: "in_object d (Suc n) a" by (simp add: in_object_def)
    have "unat (a - d + s) < unat d + n"
      using unat_offset [OF a assms(2)] True assms(3) unfolding in_object_def word_le_nat_alt by linarith
    then have "a - d + s \<noteq> d + of_nat n" using d by (metis nat_less_le)
    then show ?thesis using True a by (simp add: copied_def)
  qed (auto simp: copied_def in_object_last [OF assms(1)] add.commute)
qed

lemma memmove_down_copied:
  assumes "fits d n" "fits s n" "s \<le> d"
  shows "memmove_down (d + of_nat n) (s + of_nat n) n m = copied d s n m"
  using assms
proof (induction n arbitrary: m)
  case 0
  then show ?case by simp
next
  case (Suc n)
  have "fits d n" "fits s n" using Suc.prems by (simp_all add: fits_def)
  from Suc.IH [OF this Suc.prems(3)] show ?case
    using copied_last [OF Suc.prems, of m] by (simp add: Let_def add.assoc [symmetric] fun_upd_def)
qed

text \<open>C39: \<open>memmove\<close> is right however the two objects overlap: afterwards every byte of the destination is
  what the byte of the source at the same offset was before, and no other byte has changed.\<close>

theorem memmove_copies:
  assumes "unat d + n \<le> 2 ^ 64" "unat s + n \<le> 2 ^ 64"
  shows "memmove d s n m = (\<lambda>a. if unat d \<le> unat a \<and> unat a < unat d + n then m (a - d + s) else m a)"
proof -
  have f: "fits d n" "fits s n" using assms by (simp_all add: fits_def)
  have "memmove d s n m = copied d s n m"
    using memcpy_copied [OF f, of m] memmove_down_copied [OF f, of m]
    by (auto simp: memmove_def in_object_def word_less_nat_alt word_le_nat_alt not_less)
  then show ?thesis by (simp add: copied_def in_object_def)
qed

theorem memmove_copies_witness:
  "memmove 11 10 3 (\<lambda>a. if a = 12 then 7 else 0) 13 = 7"
proof -
  have "memmove 11 10 3 (\<lambda>a. if a = 12 then 7 else 0) = (\<lambda>a. if unat (11 :: u64) \<le> unat a \<and> unat a < unat (11 :: u64) + 3
      then (if a - 11 + 10 = 12 then 7 else 0) else (if a = 12 then 7 else 0))"
    by (rule memmove_copies) simp_all
  then show ?thesis by simp
qed

section \<open>Filling and comparing\<close>

lemma memset_fills:
  assumes "fits d n"
  shows "memset d c n m = (\<lambda>a. if in_object d n a then ucast c else m a)"
  using assms
proof (induction n arbitrary: d m)
  case 0
  then show ?case by simp
next
  case (Suc n)
  show ?case
  proof (cases "n = 0")
    case True
    then show ?thesis using in_object_first [OF Suc.prems] by auto
  next
    case False
    then show ?thesis
      using Suc.IH unat_next(2) [OF Suc.prems] in_object_first [OF Suc.prems] by auto
  qed
qed

text \<open>The difference of the first two bytes that differ, 0 where there are none.\<close>

lemma memcmp_first:
  "memcmp x y n m =
    (case List.find (\<lambda>i. m (x + of_nat i) \<noteq> m (y + of_nat i)) [0..<n] of
       None \<Rightarrow> 0
     | Some i \<Rightarrow> int (unat (m (x + of_nat i))) - int (unat (m (y + of_nat i))))"
proof (induction n arbitrary: x y)
  case (Suc n)
  have shift: "List.find P (map Suc ns) = map_option Suc (List.find (\<lambda>i. P (Suc i)) ns)" for P ns
    by (induction ns) auto
  then show ?case
    unfolding upt_conv_Cons [OF zero_less_Suc] map_Suc_upt [symmetric]
    by (auto simp: Suc.IH shift algebra_simps split: option.split)
qed simp

lemma memcmp_0: "memcmp x y n m = 0 \<longleftrightarrow> (\<forall>i < n. m (x + of_nat i) = m (y + of_nat i))"
  by (auto simp: memcmp_first find_None_iff find_Some_iff word_unat_eq_iff split: option.split)

end
