(* ===== verification/Parser_Tests.thy ===== *)
theory Parser_Tests
  imports Badmem_Parse Rows_Blob
begin

text \<open>
  The unit tests of \<^verbatim>\<open>efi/mask-shim/test_parse.c\<close>, run on the model: each test is the conjunction of its
  assertions on the result of the parser for its input, and \<open>test_main\<close> is the exit status of the
  test program.
\<close>

definition file_text :: "string list \<Rightarrow> u8 list" where
  "file_text ls = concat (map (\<lambda>l. str l @ [NL]) ls)"

definition test_empty :: bool where
  "test_empty \<longleftrightarrow> badmem_parse [] 16 = []"

definition test_comment_only :: bool where
  "test_comment_only \<longleftrightarrow> badmem_parse (file_text [''# this is a comment'', ''# another'']) 16 = []"

definition test_single_hex :: bool where
  "test_single_hex \<longleftrightarrow>
     (let out = badmem_parse (file_text [''0x200000,4096'']) 16
      in length out = 1 \<and> rg_start (out ! 0) = 0x200000 \<and> rg_len (out ! 0) = 4096)"

definition test_multiple_ranges :: bool where
  "test_multiple_ranges \<longleftrightarrow>
     (let out = badmem_parse (file_text [''# start'', '''', ''0x1000,4096'', ''0x2000,8192'',
            ''# trailing comment'', ''0x3000,4096'']) 16
      in length out = 3 \<and> rg_start (out ! 0) = 0x1000 \<and> rg_len (out ! 0) = 4096 \<and>
         rg_start (out ! 1) = 0x2000 \<and> rg_len (out ! 1) = 8192 \<and>
         rg_start (out ! 2) = 0x3000 \<and> rg_len (out ! 2) = 4096)"

definition test_alignment :: bool where
  "test_alignment \<longleftrightarrow>
     (let out = badmem_parse (file_text [''0x500,1'']) 16
      in length out = 1 \<and> rg_start (out ! 0) = 0x000 \<and> rg_len (out ! 0) = 4096)"

definition test_alignment_cross_page :: bool where
  "test_alignment_cross_page \<longleftrightarrow>
     (let out = badmem_parse (file_text [''0x1800,0x1000'']) 16
      in length out = 1 \<and> rg_start (out ! 0) = 0x1000 \<and> rg_len (out ! 0) = 0x2000)"

definition test_malformed_lines :: bool where
  "test_malformed_lines \<longleftrightarrow>
     (let out = badmem_parse (file_text [''not-a-number'', ''0x1000'', ''0x1000,'', ''0x2000,4096'',
            ''garbage here'']) 16
      in length out = 1 \<and> rg_start (out ! 0) = 0x2000 \<and> rg_len (out ! 0) = 4096)"

definition test_inline_comment :: bool where
  "test_inline_comment \<longleftrightarrow>
     (let out = badmem_parse (file_text [''0x4000,4096  # bad page'']) 16
      in length out = 1 \<and> rg_start (out ! 0) = 0x4000 \<and> rg_len (out ! 0) = 4096)"

definition test_decimal_len :: bool where
  "test_decimal_len \<longleftrightarrow>
     (let out = badmem_parse (file_text [''0x100000,8192'']) 16
      in length out = 1 \<and> rg_start (out ! 0) = 0x100000 \<and> rg_len (out ! 0) = 8192)"

text \<open>The ten lines that \<open>sprintf\<close> writes.\<close>

definition test_cap_at_max :: bool where
  "test_cap_at_max \<longleftrightarrow>
     length (badmem_parse (concat (map (\<lambda>d. str ''0x'' @ [of_char d] @ str ''000,4096'' @ [NL])
       ''123456789a'')) 5) = 5"

definition test_no_trailing_newline :: bool where
  "test_no_trailing_newline \<longleftrightarrow>
     (let out = badmem_parse (str ''0x8000,4096'') 4
      in length out = 1 \<and> rg_start (out ! 0) = 0x8000)"

section \<open>Chip directives\<close>

definition named_chips :: "badmem_result \<Rightarrow> string list \<Rightarrow> bool" where
  "named_chips r names \<longleftrightarrow> map bc_designator (br_chips r) = map str names"

definition test_chip_basic :: bool where
  "test_chip_basic \<longleftrightarrow>
     (let r = badmem_parse_full (file_text [''# chip: U2410'', ''# chip: U2300'']) 16 16
      in br_ranges r = [] \<and> named_chips r [''U2410'', ''U2300''] \<and> \<not> bc_resolved (br_chips r ! 0))"

text \<open>The dash of the last line is the three bytes of its UTF-8 form.\<close>

definition test_chip_mixed :: bool where
  "test_chip_mixed \<longleftrightarrow>
     (let r = badmem_parse_full (file_text [''# chip: U2410'', ''0x200000,4096'', ''# chip: U2300'',
            ''0x201000,4096''] @ str ''# plain comment '' @ [0xE2, 0x80, 0x94] @ str '' not a chip'' @ [NL]) 16 16
      in length (br_ranges r) = 2 \<and> rg_start (br_ranges r ! 0) = 0x200000 \<and>
         rg_start (br_ranges r ! 1) = 0x201000 \<and> named_chips r [''U2410'', ''U2300''])"

definition test_chip_plain_comment_not_chip :: bool where
  "test_chip_plain_comment_not_chip \<longleftrightarrow>
     (let r = badmem_parse_full (file_text [''# chipset comment'',
            ''# This is about chips but not a directive'', ''# chip:U2410'', ''# chip:'', ''# chip: '']) 16 16
      in br_ranges r = [] \<and> named_chips r [''U2410''])"

definition test_chip_cap_at_max :: bool where
  "test_chip_cap_at_max \<longleftrightarrow>
     length (br_chips (badmem_parse_full (file_text [''# chip: U2410'', ''# chip: U2420'', ''# chip: U2430'',
       ''# chip: U2400'', ''# chip: U2330'']) 4 3)) = 3"

definition test_chip_compat_old_api :: bool where
  "test_chip_compat_old_api \<longleftrightarrow>
     (let out = badmem_parse (file_text [''# chip: U2410'', ''0x100000,4096'', ''# chip: U2300'',
            ''0x200000,4096'']) 16
      in length out = 2 \<and> rg_start (out ! 0) = 0x100000 \<and> rg_start (out ! 1) = 0x200000)"

section \<open>The blob of rows\<close>

definition build_badrows_blob :: "nat \<Rightarrow> u8 \<Rightarrow> u8 \<Rightarrow> u8 \<Rightarrow> u8 \<Rightarrow> u32 \<Rightarrow> u8 list" where
  "build_badrows_blob bufsz c rank bg bank row =
     (if bufsz < 16 then []
      else to_le 4 (1 :: u32) @ to_le 4 (1 :: u32) @ [c, rank, bg, bank] @ to_le 4 row)"

definition test_rows_blob_single :: bool where
  "test_rows_blob_single \<longleftrightarrow>
     (let out = badmem_parse_rows_blob (Some (build_badrows_blob 16 1 0 2 3 0xABCD)) True 8
      in length out = 1 \<and> row_channel (out ! 0) = 1 \<and> row_rank (out ! 0) = 0 \<and>
         row_bank_group (out ! 0) = 2 \<and> row_bank (out ! 0) = 3 \<and> row_row (out ! 0) = 0xABCD)"

definition test_rows_blob_bad_version :: bool where
  "test_rows_blob_bad_version \<longleftrightarrow>
     badmem_parse_rows_blob (Some ((build_badrows_blob 16 0 0 0 0 0)[0 := 2])) True 8 = []"

definition test_rows_blob_truncated :: bool where
  "test_rows_blob_truncated \<longleftrightarrow>
     badmem_parse_rows_blob (Some (take 10 (build_badrows_blob 16 0 0 0 0 0))) True 8 = []"

definition test_rows_blob_null :: bool where
  "test_rows_blob_null \<longleftrightarrow> badmem_parse_rows_blob None True 8 = []"

definition test_rows_blob_cap :: bool where
  "test_rows_blob_cap \<longleftrightarrow>
     length (badmem_parse_rows_blob (Some ([1, 0, 0, 0, 3, 0, 0, 0] @
       concat (map (\<lambda>i. [i, 0, 0, 0, i, 0, 0, 0]) [0, 1, 2]))) True 2) = 2"

section \<open>The test program\<close>

definition test_results :: "bool list" where
  "test_results =
     [test_empty, test_comment_only, test_single_hex, test_multiple_ranges, test_alignment,
      test_alignment_cross_page, test_malformed_lines, test_inline_comment, test_decimal_len,
      test_cap_at_max, test_no_trailing_newline, test_chip_basic, test_chip_mixed,
      test_chip_plain_comment_not_chip, test_chip_cap_at_max, test_chip_compat_old_api,
      test_rows_blob_single, test_rows_blob_bad_version, test_rows_blob_truncated,
      test_rows_blob_null, test_rows_blob_cap]"

definition test_main :: int where
  "test_main = (if list_all (\<lambda>t. t) test_results then 0 else 1)"

lemma region_tests:
  "test_empty \<and> test_comment_only \<and> test_single_hex \<and> test_multiple_ranges"
  "test_alignment \<and> test_alignment_cross_page \<and> test_malformed_lines"
  "test_inline_comment \<and> test_decimal_len \<and> test_no_trailing_newline"
  by code_simp+

lemma cap_test: "test_cap_at_max"
  by code_simp

lemma chip_tests:
  "test_chip_basic \<and> test_chip_mixed" "test_chip_plain_comment_not_chip"
  "test_chip_cap_at_max \<and> test_chip_compat_old_api"
  by code_simp+

lemma blob_tests:
  "test_rows_blob_single \<and> test_rows_blob_bad_version \<and> test_rows_blob_truncated \<and>
    test_rows_blob_null \<and> test_rows_blob_cap"
  by code_simp


end
