(* ===== verification/Boot_Chain.thy ===== *)
theory Boot_Chain
  imports Shim_Main
begin

text \<open>
  Several boots in a row through the shim (\<^verbatim>\<open>efi/mask-shim/main.c\<close>). Between two boots memory is as
  fresh as ever, but NVRAM stays. A trial is not consumed by a boot: the state \<open>TRIAL_PENDING_PAGE\<close>
  and the list of bad pages survive, and every boot masks.
\<close>

section \<open>What masking leaves alone\<close>

lemma frame_alloc: "frame_law fw view \<Longrightarrow> alloc_frame fw view"
  by (simp add: frame_law_def search_frame_def alloc_frame_def)

lemma mask_one_page_view:
  "alloc_frame fw view \<Longrightarrow> view (snd (snd (snd (mask_one_page fw pa s)))) = view (snd (snd (snd s)))"
  using mask_fold_view [of fw view "[pa]" s] by simp

lemma mask_range_view:
  assumes "alloc_frame fw view" "mask_range fw r rep w = Some (rep', w')"
  shows "view w' = view w"
proof -
  obtain x y where xy: "expand_range r = (x, y)" by (cases "expand_range r")
  obtain a b c where "page_loop (\<lambda>_. True) (mask_one_page fw) x y (0, 0, 0, w) = Some (a, b, c, w')"
    using assms(2) by (auto simp: mask_range_def xy)
  from page_loop_inv [OF this, of "\<lambda>s. view (snd (snd (snd s))) = view w"] show ?thesis
    by (simp add: mask_one_page_view [OF assms(1)])
qed

lemma mask_ranges_view:
  "alloc_frame fw view \<Longrightarrow> mask_ranges fw rs rep w = Some (rep', w') \<Longrightarrow> view w' = view w"
proof (induction rs arbitrary: rep w)
  case (Cons r rs)
  then obtain rep1 w1 where "mask_range fw r rep w = Some (rep1, w1)" "mask_ranges fw rs rep1 w1 = Some (rep', w')"
    by (auto simp: bind_eq_Some_conv)
  then show ?case using Cons.IH [OF Cons.prems(1)] mask_range_view [OF Cons.prems(1)] by simp
qed simp

lemma reserve_page_view:
  "alloc_frame fw view \<Longrightarrow> view (snd (snd (reserve_page fw pa s))) = view (snd (snd s))"
  using reserve_fold_view [of fw view "[pa]" s] by simp

lemma mask_chips_view:
  assumes "alloc_frame fw view" "mask_chips fw shw chips sst w = Some (s, c, sst', w')"
  shows "view w' = view w"
proof -
  obtain ok sst1 where i: "shim_cfl_init shw sst = (ok, sst1)" by (metis surj_pair)
  define total where "total = shim_cfl_total_memory (g_mc sst1)"
  show ?thesis
  proof (cases "chips = [] \<or> \<not> list_ex bc_resolved chips \<or> \<not> ok \<or> total = 0")
    case True
    then show ?thesis using assms(2) i by (auto simp: mask_chips_def total_def Let_def split: if_splits)
  next
    case False
    then obtain a b where "page_loop (\<lambda>_. True) (mask_chip_page fw (g_mc sst1) chips) 0 total (0, 0, w) = Some (a, b, w')"
      using assms(2) i by (auto simp: mask_chips_def total_def Let_def split: if_splits)
    from page_loop_inv [OF this, of "\<lambda>s. view (snd (snd s)) = view w"] show ?thesis
      by (simp add: mask_chip_page_def reserve_page_view [OF assms(1)] Let_def)
  qed
qed

lemma mask_row_list_view:
  "alloc_frame fw view \<Longrightarrow> mask_row_list fw mc rows s = Some s' \<Longrightarrow> view (snd (snd s')) = view (snd (snd s))"
proof (induction rows arbitrary: s)
  case (Cons r rows)
  then obtain ps where "mask_row_list fw mc rows (fold (reserve_page fw) ps s) = Some s'"
    by (auto simp: bind_eq_Some_conv)
  then show ?case using Cons.IH [OF Cons.prems(1)] reserve_fold_view [OF Cons.prems(1)] by simp
qed simp

lemma mask_rows_view:
  assumes "alloc_frame fw view" "mask_rows fw shw rows sst w = Some (s, c, sst', w')"
  shows "view w' = view w"
proof -
  obtain ok sst1 where i: "shim_cfl_init shw sst = (ok, sst1)" by (metis surj_pair)
  show ?thesis
  proof (cases "rows = [] \<or> \<not> ok \<or> shim_cfl_total_memory (g_mc sst1) = 0")
    case True
    then show ?thesis using assms(2) i by (auto simp: mask_rows_def Let_def split: if_splits)
  next
    case False
    then obtain a b where "mask_row_list fw (g_mc sst1) rows (0, 0, w) = Some (a, b, w')"
      using assms(2) i by (auto simp: mask_rows_def Let_def split: if_splits)
    from mask_row_list_view [OF assms(1) this] show ?thesis by simp
  qed
qed

lemma page_mode_view:
  assumes "frame_law fw view" "page_mode fw shw profiles img force sst w = Some (m, sst', w')"
  shows "view w' = view w"
proof -
  note alloc = frame_alloc [OF assms(1)]
  obtain ranges chips w1 where inp: "page_mode_input fw img force w = ((ranges, chips), w1)" by (metis surj_pair)
  have v1: "view w1 = view w"
    using vars_read_badmem [OF assms(1), of img w] inp
    by (auto simp: page_mode_input_def split_def Let_def split: if_splits)
  obtain w2 where w2: "(if ranges \<noteq> [] then map_option (\<lambda>(_, _, w). snd (verify_mask_in_memmap fw ranges w))
      (mask_pages fw ranges w1) else Some w1) = Some w2"
    and rest: "(if chips \<noteq> [] then map_option (\<lambda>(_, _, sst, w). (Page_Mode ranges (snd (resolve_chip_entries profiles chips)), sst, w))
        (mask_chips fw shw (snd (resolve_chip_entries profiles chips)) sst w2)
      else Some (Page_Mode ranges chips, sst, w2)) = Some (m, sst', w')"
    using assms(2) unfolding page_mode_def inp Let_def prod.case bind_eq_Some_conv by blast
  have "view w2 = view w1"
    using w2 by (auto simp: mask_pages_def view_verify [OF alloc] mask_ranges_view [OF alloc] split: if_splits)
  moreover have "view w' = view w2"
    using rest by (auto simp: Let_def mask_chips_view [OF alloc] split: if_splits)
  ultimately show ?thesis using v1 by simp
qed

lemma apply_mask_view:
  assumes "frame_law fw view" "apply_mask fw shw profiles img force sst w = Some (m, sst', w')"
  shows "view w' = view w"
  using assms(2) page_mode_view [OF assms(1)]
  by (auto simp: apply_mask_def Let_def mask_rows_view [OF frame_alloc [OF assms(1)]]
      mask_chips_view [OF frame_alloc [OF assms(1)]] split: if_splits)

text \<open>A boot in any state but the one that asks the user leaves NVRAM as it was.\<close>

lemma mask_step_vars:
  assumes "variable_store fw vars" "state_of (vars w) \<noteq> Unconfirmed"
    and "mask_step fw shw profiles img sst w = Some (mode, sst', w')"
  shows "vars w' = vars w"
proof -
  have laws: "get_law fw vars" "frame_law fw vars" using assms(1) by (simp_all add: variable_store_def)
  have "\<exists>skip force. (if no_mask_requested fw img w then Some (True, False, w) else handle_nvram_state fw img w) =
      Some (skip, force, w)"
    using assms(2) by (cases "state_of (vars w)") (auto simp: handle_nvram_state_abs [OF laws(1)])
  then obtain skip force where
    "(if no_mask_requested fw img w then Some (True, False, w) else handle_nvram_state fw img w) = Some (skip, force, w)"
    by blast
  then show ?thesis
    using assms(3) apply_mask_view [OF laws(2)] by (auto simp: mask_step_def split: if_splits)
qed

section \<open>A trial over several boots\<close>

text \<open>
  The variables of the program, and the images the shim starts: macOS does not touch them.
  \<open>boot_chain\<close> relates the machine as it is switched on for the first time to any later time: a boot
  through the shim, whatever the images did, then a new start with the variables of the last one.
\<close>

definition keeps_brr :: "('w \<Rightarrow> nvram) \<Rightarrow> 'w \<Rightarrow> 'w \<Rightarrow> bool" where
  "keeps_brr vars w w' \<longleftrightarrow> (\<forall>nm. vars w' (BRR_GUID, nm) = vars w (BRR_GUID, nm))"

definition images_keep_brr :: "'w firmware \<Rightarrow> ('w \<Rightarrow> nvram) \<Rightarrow> bool" where
  "images_keep_brr fw vars \<longleftrightarrow> (\<forall>i w. keeps_brr vars w (snd (StartImage fw i w)))"

inductive boot_chain ::
  "'w firmware \<Rightarrow> ('w \<Rightarrow> nvram) \<Rightarrow> shim_hardware \<Rightarrow> board_profile list \<Rightarrow> handle \<Rightarrow> 'w \<Rightarrow> nat \<Rightarrow> 'w \<Rightarrow> bool"
  for fw vars shw profiles img w0 where
  first: "boot_chain fw vars shw profiles img w0 0 w0"
| again: "boot_chain fw vars shw profiles img w0 n w \<Longrightarrow>
    efi_main fw shw profiles img sst w = Some (s, mode, sst', w') \<Longrightarrow> keeps_brr vars w' u \<Longrightarrow>
    boot_chain fw vars shw profiles img w0 (Suc n) u"

inductive_cases boot_chain_againE: "boot_chain fw vars shw profiles img w0 (Suc n) u"

lemma keeps_brr_state: "keeps_brr vars w w' \<Longrightarrow> state_of (vars w') = state_of (vars w)"
  by (simp add: keeps_brr_def state_of_def)

lemma hand_over_keeps_brr:
  assumes "search_frame fw vars" "images_keep_brr fw vars" "hand_over fw wb s w'"
  shows "keeps_brr vars wb w'"
  using assms(2,3) search_basic(3) [OF assms(1)]
  by (auto simp: hand_over_def images_keep_brr_def keeps_brr_def) (metis snd_conv)

lemma efi_main_keeps_brr:
  assumes "variable_store fw vars" "images_keep_brr fw vars" "state_of (vars w) \<noteq> Unconfirmed"
    and "efi_main fw shw profiles img sst w = Some (s, mode, sst', w')"
  shows "keeps_brr vars w w'"
proof -
  have frame: "search_frame fw vars" using assms(1) by (simp add: variable_store_def frame_law_def)
  obtain w1 where m: "mask_step fw shw profiles img sst w = Some (mode, sst', w1)"
    and b: "boot_macos fw img w1 = Some (s, w')"
    using assms(4) by (auto simp: efi_main_def bind_eq_Some_conv)
  obtain wb where wb: "vars wb = vars w1" "hand_over fw wb s w'"
    using boot_macos_hands_over [OF frame b] by blast
  show ?thesis
    using mask_step_vars [OF assms(1,3) m] hand_over_keeps_brr [OF frame assms(2) wb(2)] wb(1)
    by (simp add: keeps_brr_def)
qed

lemma boot_chain_keeps_brr:
  assumes "variable_store fw vars" "images_keep_brr fw vars" "state_of (vars w0) \<noteq> Unconfirmed"
    and "boot_chain fw vars shw profiles img w0 n w"
  shows "keeps_brr vars w0 w"
  using assms(4)
proof induction
  case first
  then show ?case by (simp add: keeps_brr_def)
next
  case (again n w sst s mode sst' w' u)
  have "state_of (vars w) \<noteq> Unconfirmed" using keeps_brr_state [OF again.IH] assms(3) by simp
  from efi_main_keeps_brr [OF assms(1,2) this again.hyps(2)] again.IH again.hyps(3)
  show ?case by (simp add: keeps_brr_def)
qed

end
