(* ===== verification/Chip_Chain.thy ===== *)
theory Chip_Chain
  imports Shim_Main Error_Hook
begin

text \<open>
  The way of a bad chip: the tester writes the designators of the chips behind the bad pages into a
  comma-separated list (\<^verbatim>\<open>src/badmem_log.c\<close>, \<^verbatim>\<open>src/error_hook.c\<close>); the shim reads such a list from
  \<^verbatim>\<open>BrrBadChips\<close>, resolves the names and masks the chips (\<^verbatim>\<open>efi/mask-shim/main.c\<close>).
\<close>

section \<open>The list is read as it was written\<close>

text \<open>A name the shim reads whole: at most 15 characters, no comma, no NUL, no blank in front.\<close>

definition chip_name :: "u8 list \<Rightarrow> bool" where
  "chip_name e \<longleftrightarrow> e \<noteq> [] \<and> hd e \<noteq> ch CHR '' '' \<and> COMMA \<notin> set e \<and> 0 \<notin> set e \<and> length e < BADMEM_DESIG_MAX"

definition names_of :: "badmem_log \<Rightarrow> u8 list list" where
  "names_of log = chip_entries (chip_buf log)"

lemma take_desig_name:
  "COMMA \<notin> set e \<Longrightarrow> length e < n \<Longrightarrow> rest = [] \<or> hd rest = COMMA \<Longrightarrow> take_desig (e @ rest) n = (e, rest)"
proof (induction e arbitrary: n)
  case Nil
  then show ?case by (cases rest) (auto simp: COMMA_def)
next
  case (Cons c e)
  have "take_desig (e @ rest) (n - 1) = (e, rest)" using Cons.prems by (intro Cons.IH) auto
  with Cons.prems show ?case by (auto simp: COMMA_def)
qed

lemma skip_commas_name: "e \<noteq> [] \<Longrightarrow> hd e \<noteq> ch CHR '' '' \<Longrightarrow> hd e \<noteq> COMMA \<Longrightarrow> skip_commas (e @ rest) = e @ rest"
  by (cases e) (auto simp: skip_commas_def COMMA_def)

lemma badchips_loop_step:
  assumes "chip_name e" "rest = [] \<or> hd rest = COMMA" "length chips < cap"
  shows "badchips_loop cap (e @ rest) chips = badchips_loop cap rest (chips @ [new_chip e])"
proof -
  have e: "e \<noteq> []" "hd e \<noteq> ch CHR '' ''" "hd e \<noteq> COMMA" "COMMA \<notin> set e" "length e < BADMEM_DESIG_MAX"
    using assms(1) by (auto simp: chip_name_def) (metis hd_in_set)
  show ?thesis
    using assms(3) e(1)
    by (subst badchips_loop.simps)
      (simp add: skip_commas_name [OF e(1-3)] take_desig_name [OF e(4,5) assms(2)] Let_def)
qed

lemma badchips_loop_comma:
  assumes "skip_commas rest = rest" "rest \<noteq> []"
  shows "badchips_loop cap (COMMA # rest) chips = badchips_loop cap rest chips"
proof -
  have "skip_commas (COMMA # rest) = skip_commas rest" by (simp add: skip_commas_def COMMA_def)
  then show ?thesis
    using assms by (subst (1 2) badchips_loop.simps) simp
qed

lemma badchips_read:
  assumes "\<forall>e \<in> set (chip_entries buf). chip_name e" "buf \<noteq> [] \<longrightarrow> last buf \<noteq> COMMA"
    and "length chips + length (chip_entries buf) \<le> cap"
  shows "badchips_loop cap buf chips = chips @ map new_chip (chip_entries buf)"
  using assms
proof (induction buf arbitrary: chips rule: chip_entries.induct)
  case (1 buf)
  show ?case
  proof (cases "buf = []")
    case True
    then show ?thesis by (simp add: badchips_loop.simps chip_entries.simps)
  next
    case False
    define e where "e = takeWhile (\<lambda>c. c \<noteq> COMMA) buf"
    define r where "r = dropWhile (\<lambda>c. c \<noteq> COMMA) buf"
    have buf: "buf = e @ r" by (simp add: e_def r_def)
    have entries: "chip_entries buf = e # chip_entries (tl r)"
      using False by (subst chip_entries.simps) (simp add: e_def r_def)
    have e: "chip_name e" using "1.prems"(1) entries by simp
    have r: "r = [] \<or> hd r = COMMA" using hd_dropWhile [of "\<lambda>c. c \<noteq> COMMA" buf] by (auto simp: r_def)
    have room: "length chips < cap" using "1.prems"(3) entries by simp
    note step = badchips_loop_step [OF e r room, folded buf]
    have IH: "badchips_loop cap (tl r) (chips @ [new_chip e]) =
        (chips @ [new_chip e]) @ map new_chip (chip_entries (tl r))"
    proof (rule "1.IH" [OF False, folded r_def])
      show "\<forall>e \<in> set (chip_entries (tl r)). chip_name e" using "1.prems"(1) entries by simp
      show "tl r \<noteq> [] \<longrightarrow> last (tl r) \<noteq> COMMA"
        using "1.prems"(2) buf by (cases r) (auto split: if_splits)
      show "length (chips @ [new_chip e]) + length (chip_entries (tl r)) \<le> cap"
        using "1.prems"(3) entries by simp
    qed
    show ?thesis
    proof (cases r)
      case Nil
      then show ?thesis using step entries by (simp add: badchips_loop.simps chip_entries.simps)
    next
      case (Cons c r')
      then have c: "c = COMMA" using r by simp
      have "r' \<noteq> []" using "1.prems"(2) buf Cons c by auto
      moreover from this have "chip_name (takeWhile (\<lambda>c. c \<noteq> COMMA) r')"
        using "1.prems"(1) entries Cons by (subst (asm) (2) chip_entries.simps) simp
      then have "skip_commas r' = r'"
        by (cases r') (auto simp: chip_name_def skip_commas_def COMMA_def split: if_splits)
      ultimately have "badchips_loop cap r (chips @ [new_chip e]) = badchips_loop cap (tl r) (chips @ [new_chip e])"
        using badchips_loop_comma by (simp add: Cons c)
      then show ?thesis using step IH entries by simp
    qed
  qed
qed

text \<open>The invariant of the list of a run.\<close>

definition names_ok :: "badmem_log \<Rightarrow> bool" where
  "names_ok log \<longleftrightarrow> chip_ok (chip_buf log) \<and> (\<forall>e \<in> set (names_of log). chip_name e)"

definition names_room :: "badmem_log \<Rightarrow> bool" where
  "names_room log \<longleftrightarrow> length (chip_buf log) + BADMEM_DESIG_MAX + 1 \<le> CHIPS_BUF_SIZE"

lemma NUL_notin_entries: "\<forall>e \<in> set (chip_entries buf). 0 \<notin> set e \<Longrightarrow> 0 \<notin> set buf"
proof (induction buf rule: chip_entries.induct)
  case (1 buf)
  show ?case
  proof (cases "buf = []")
    case False
    define r where "r = dropWhile (\<lambda>c. c \<noteq> COMMA) buf"
    have entries: "chip_entries buf = takeWhile (\<lambda>c. c \<noteq> COMMA) buf # chip_entries (tl r)"
      using False by (subst chip_entries.simps) (simp add: r_def)
    have "0 \<notin> set (tl r)" using "1.IH" [OF False] "1.prems" entries by (simp add: r_def)
    moreover have "r = [] \<or> hd r = COMMA" using hd_dropWhile [of "\<lambda>c. c \<noteq> COMMA" buf] by (auto simp: r_def)
    ultimately have "0 \<notin> set r" by (cases r) (auto simp: COMMA_def)
    moreover have "buf = takeWhile (\<lambda>c. c \<noteq> COMMA) buf @ r" by (simp add: r_def)
    ultimately show ?thesis using "1.prems" entries by (metis UnE list.set_intros(1) set_append)
  qed simp
qed

lemma badchips_saved:
  assumes "get_law fw vars" "vars w (BRR_GUID, BRR_VARNAME_BADCHIPS) = Some (chip_buf log)"
    and "names_ok log" "length (names_of log) \<le> BADMEM_MAX_CHIPS"
  shows "read_nvram_badchips fw BADMEM_MAX_CHIPS w = map new_chip (names_of log)"
proof -
  have ok: "chip_ok (chip_buf log)" "\<forall>e \<in> set (chip_entries (chip_buf log)). chip_name e"
    using assms(3) by (simp_all add: names_ok_def names_of_def)
  then have "0 \<notin> set (chip_buf log)" by (intro NUL_notin_entries) (simp add: chip_name_def)
  moreover have "length (chip_buf log) \<le> 255" using ok(1) by (simp add: chip_ok_def CHIPS_BUF_SIZE_def)
  ultimately have "read_nvram_badchips fw BADMEM_MAX_CHIPS w = badchips_loop BADMEM_MAX_CHIPS (chip_buf log) []"
    using assms(2) by (simp add: read_nvram_badchips_def mask_nvram_get_ascii_def get_variable_law [OF assms(1)]
        cstr_idem)
  then show ?thesis
    using badchips_read [OF ok(2), of "[]" BADMEM_MAX_CHIPS] ok(1) assms(4) by (simp add: chip_ok_def names_of_def)
qed

text \<open>A blank behind a name stays part of it, so that the name is not found on the board.\<close>

lemma trailing_blank_kept:
  "map bc_designator (badchips_loop 32 (str ''U2300 , U2600'') []) = [str ''U2300 '', str ''U2600'']"
  "\<not> list_ex bc_resolved (map (resolve_chip [two_chip_board]) (badchips_loop 32 (str ''U2300 '') []))"
  by code_simp+

section \<open>The chips behind a bad page are recorded\<close>

lemma record_chip_name:
  assumes "names_ok log" "chip_name (cstr d)" "names_room (badmem_log_record_chip (Some d) log)"
  shows "names_ok (badmem_log_record_chip (Some d) log)"
    "set (names_of (badmem_log_record_chip (Some d) log)) = insert (cstr d) (set (names_of log))"
proof -
  have valid: "chip_valid (Some d)" "chip_key (Some d) = Some (cstr d)"
    using assms(2) by (simp_all add: chip_valid_def chip_key_def chip_name_def)
  have ok: "chip_ok (chip_buf log)" using assms(1) by (simp add: names_ok_def)
  have "length (chip_buf log) \<le> length (chip_buf (badmem_log_record_chip (Some d) log))"
    by (simp add: badmem_log_record_chip_def Let_def)
  then have fits: "chip_fits log (cstr d)"
    using assms(2,3) by (simp add: chip_fits_def names_room_def chip_name_def)
  show names: "set (names_of (badmem_log_record_chip (Some d) log)) = insert (cstr d) (set (names_of log))"
    using chips.contents_rec [OF ok valid(1)] fits valid(2) by (auto simp: names_of_def)
  show "names_ok (badmem_log_record_chip (Some d) log)"
    using chips.ok_rec [OF ok valid(1)] assms(1,2) names by (auto simp: names_ok_def)
qed

text \<open>What the names of a board need for this: each can be read back, and a pointer has one name.\<close>

definition packages_of :: "board_profile \<Rightarrow> board_package set" where
  "packages_of p = set (take (bf_package_count p) (bf_packages p))"

definition board_named :: "board_profile \<Rightarrow> bool" where
  "board_named p \<longleftrightarrow>
     (\<forall>k \<in> packages_of p. chip_name (cstr (bp_designator k)) \<and>
        (\<forall>k' \<in> packages_of p. bp_designator_ptr k = bp_designator_ptr k' \<longrightarrow>
           cstr (bp_designator k) = cstr (bp_designator k')))"

text \<open>The names seen on one page are names that were recorded.\<close>

definition seen_ok :: "board_profile \<Rightarrow> (u64 \<times> u8 list) list \<times> badmem_log \<Rightarrow> bool" where
  "seen_ok p st \<longleftrightarrow> names_ok (snd st) \<and>
     (\<forall>e \<in> set (fst st). \<exists>k \<in> packages_of p. fst e = bp_designator_ptr k \<and>
        cstr (bp_designator k) \<in> set (names_of (snd st)))"

lemma board_lookup_package: "board_lookup (Some p) c r l = Some k \<Longrightarrow> k \<in> packages_of p"
  using find_SomeD [of "package_at c r l"] by (auto simp: board_lookup_def packages_of_def)

lemma visit_lane_grows: "length (chip_buf (snd st)) \<le> length (chip_buf (snd (visit_lane p c r l st)))"
  by (auto simp: visit_lane_def badmem_log_record_chip_def Let_def split: prod.split option.split)

lemma visit_lane_names:
  assumes "board_named p" "seen_ok p st" "names_room (snd (visit_lane (Some p) c r l st))"
  shows "seen_ok p (visit_lane (Some p) c r l st)"
    "set (names_of (snd st)) \<subseteq> set (names_of (snd (visit_lane (Some p) c r l st)))"
    "board_lookup (Some p) c r l = Some k \<Longrightarrow>
      cstr (bp_designator k) \<in> set (names_of (snd (visit_lane (Some p) c r l st)))"
proof -
  obtain seen log where st: "st = (seen, log)" by (cases st)
  let ?st' = "visit_lane (Some p) c r l st"
  have "seen_ok p ?st' \<and> set (names_of log) \<subseteq> set (names_of (snd ?st')) \<and>
    (\<forall>k. board_lookup (Some p) c r l = Some k \<longrightarrow> cstr (bp_designator k) \<in> set (names_of (snd ?st')))"
  proof (cases "board_lookup (Some p) c r l")
    case None
    then show ?thesis using assms(2) by (simp add: visit_lane_def st)
  next
    case (Some k)
    have k: "k \<in> packages_of p" by (rule board_lookup_package [OF Some])
    show ?thesis
    proof (cases "list_ex (\<lambda>e. fst e = bp_designator_ptr k) seen")
      case True
      then obtain k' where "k' \<in> packages_of p" "bp_designator_ptr k' = bp_designator_ptr k"
        "cstr (bp_designator k') \<in> set (names_of log)"
        using assms(2) unfolding seen_ok_def st list_ex_iff fst_conv snd_conv by fastforce
      then have "cstr (bp_designator k) \<in> set (names_of log)"
        using assms(1) k unfolding board_named_def by metis
      then show ?thesis using True Some assms(2) by (simp add: visit_lane_def st)
    next
      case False
      define log' where "log' = badmem_log_record_chip (Some (bp_designator k)) log"
      have res: "snd ?st' = log'" "set (fst ?st') \<subseteq> insert (bp_designator_ptr k, bp_designator k) (set seen)"
        using False by (simp_all add: visit_lane_def st log'_def Some) blast
      have "names_ok log" "chip_name (cstr (bp_designator k))"
        using assms(1,2) k unfolding seen_ok_def st board_named_def snd_conv by blast+
      note rec = record_chip_name [OF this, folded log'_def, OF assms(3) [unfolded res(1)]]
      have "\<exists>k' \<in> packages_of p. fst e = bp_designator_ptr k' \<and> cstr (bp_designator k') \<in> set (names_of log')"
        if "e \<in> set (fst ?st')" for e
      proof (cases "fst e = bp_designator_ptr k")
        case True
        then show ?thesis using k rec(2) by blast
      next
        case False
        then have "e \<in> set seen" using that res(2) by auto
        then show ?thesis using assms(2) rec(2) unfolding seen_ok_def st fst_conv snd_conv by blast
      qed
      then have "seen_ok p ?st'" using rec(1) unfolding seen_ok_def res(1) by blast
      then show ?thesis unfolding res(1) using rec(2) Some by auto
    qed
  qed
  then show "seen_ok p ?st'" "set (names_of (snd st)) \<subseteq> set (names_of (snd ?st'))"
    "board_lookup (Some p) c r l = Some k \<Longrightarrow> cstr (bp_designator k) \<in> set (names_of (snd ?st'))"
    unfolding st snd_conv by blast+
qed

lemma visit_lanes_grow:
  "length (chip_buf (snd st)) \<le> length (chip_buf (snd (fold (\<lambda>(r, l). visit_lane p c r l) vs st)))"
proof (induction vs arbitrary: st)
  case (Cons v vs)
  show ?case
    using order_trans [OF visit_lane_grows Cons.IH, of st p c "fst v" "snd v"] by (cases v) simp
qed simp

lemma visit_lanes_names:
  assumes "board_named p" "seen_ok p st" "names_room (snd (fold (\<lambda>(r, l). visit_lane (Some p) c r l) vs st))"
  shows "seen_ok p (fold (\<lambda>(r, l). visit_lane (Some p) c r l) vs st) \<and>
    set (names_of (snd st)) \<subseteq> set (names_of (snd (fold (\<lambda>(r, l). visit_lane (Some p) c r l) vs st))) \<and>
    (\<forall>(r, l) \<in> set vs. \<forall>k. board_lookup (Some p) c r l = Some k \<longrightarrow>
       cstr (bp_designator k) \<in> set (names_of (snd (fold (\<lambda>(r, l). visit_lane (Some p) c r l) vs st))))"
  using assms(2,3)
proof (induction vs arbitrary: st)
  case (Cons v vs)
  obtain r l where v: "v = (r, l)" by (cases v)
  define st1 where "st1 = visit_lane (Some p) c r l st"
  have "names_room (snd st1)"
    using Cons.prems(2) visit_lanes_grow [of st1 "Some p" c vs] by (simp add: v names_room_def flip: st1_def)
  note step = visit_lane_names [OF assms(1) Cons.prems(1) this [unfolded st1_def], folded st1_def]
  have room: "names_room (snd (fold (\<lambda>(r, l). visit_lane (Some p) c r l) vs st1))"
    using Cons.prems(2) by (simp add: v flip: st1_def)
  have "fold (\<lambda>(r, l). visit_lane (Some p) c r l) (v # vs) st = fold (\<lambda>(r, l). visit_lane (Some p) c r l) vs st1"
    by (simp add: v st1_def)
  then show ?case using Cons.IH [OF step(1) room] step(2,3) by (auto simp: v)
qed simp

lemma visit_packages_lanes:
  "visit_packages p c lo hi log =
     fold (\<lambda>(r, l). visit_lane p c r l) (List.product (rank_range lo hi) (map of_nat [0..<8])) ([], log)"
proof -
  have "fold (\<lambda>(r, l). visit_lane p c r l) (map (Pair r) ls) st = fold (visit_lane p c r) ls st" for r ls st
    by (induction ls arbitrary: st) simp_all
  then have "fold (\<lambda>(r, l). visit_lane p c r l) (List.product rs ls) st =
      fold (\<lambda>r. fold (visit_lane p c r) ls) rs st" for rs ls st
    by (induction rs arbitrary: st) simp_all
  then show ?thesis by (simp add: visit_packages_def)
qed

lemma visit_packages_names:
  fixes log :: badmem_log and c :: u8
  assumes "board_named p" "names_ok log" "names_room (snd (visit_packages (Some p) c lo hi log))"
  defines "log' \<equiv> snd (visit_packages (Some p) c lo hi log)"
  shows "names_ok log'" "set (names_of log) \<subseteq> set (names_of log')"
    "lo \<le> r \<Longrightarrow> r \<le> hi \<Longrightarrow> lane < 8 \<Longrightarrow> board_lookup (Some p) c r (of_nat lane) = Some k \<Longrightarrow>
      cstr (bp_designator k) \<in> set (names_of log')"
proof -
  have "seen_ok p ([], log)" using assms(2) by (simp add: seen_ok_def)
  note all = visit_lanes_names [OF assms(1) this assms(3) [unfolded visit_packages_lanes],
      folded visit_packages_lanes, folded log'_def]
  show "names_ok log'" "set (names_of log) \<subseteq> set (names_of log')"
    using all by (simp_all add: seen_ok_def log'_def)
  assume r: "lo \<le> r" "r \<le> hi" and lane: "lane < 8" and k: "board_lookup (Some p) c r (of_nat lane) = Some k"
  have "r = of_nat (unat r)" "unat r \<in> set [unat lo..<Suc (unat hi)]"
    using r by (simp_all add: word_le_nat_alt less_Suc_eq_le del: upt_Suc)
  then have "r \<in> set (rank_range lo hi)" unfolding rank_range_def set_map by blast
  moreover have "of_nat lane \<in> set (map of_nat [0..<8])" using lane by auto
  ultimately have "(r, of_nat lane) \<in> set (List.product (rank_range lo hi) (map of_nat [0..<8]))"
    by (simp only: set_product mem_Sigma_iff)
  with all k show "cstr (bp_designator k) \<in> set (names_of log')" by blast
qed

lemma visit_packages_grows: "length (chip_buf log) \<le> length (chip_buf (snd (visit_packages p c lo hi log)))"
  using visit_lanes_grow [of "([], log)"] by (simp add: visit_packages_lanes)

text \<open>The decoded rank is among those the pass looks up: where the rank is not known it is given as 0, and
  the ranks from 0 on are looked up.\<close>

lemma rank_0_unless_valid:
  "\<not> d_rank_valid (config_decode_pa mc rb pa) \<Longrightarrow> d_rank (config_decode_pa mc rb pa) = 0"
proof -
  obtain r v sp where rank: "cfl_skl_decode_rank pa (cfl_skl_decode_channel pa mc) mc = (r, v, sp)"
    using prod_cases3 by blast
  have "\<not> v \<Longrightarrow> r = 0" using rank by (auto simp: cfl_skl_decode_rank_def Let_def split: if_splits)
  then show "\<not> d_rank_valid (config_decode_pa mc rb pa) \<Longrightarrow> d_rank (config_decode_pa mc rb pa) = 0"
    by (simp add: config_decode_pa_def rank cfl_skl_decode_bank_row_col_def Let_def)
qed

lemma decode_one_log:
  fixes addr :: u64 and profiles :: "board_profile option list" and product :: "u8 list option"
  assumes "pass_ready hw mc s" "board_detect profiles product = Some p"
  defines "s' \<equiv> decode_and_log_one (g_families hw) profiles product addr s"
    and "d \<equiv> config_decode_pa mc (config_row_bits (Some mc)) addr"
  shows "\<exists>lo hi. lo \<le> d_rank d \<and> d_rank d \<le> hi \<and>
    ps_log s' = snd (visit_packages (Some p) (d_channel d) lo hi (record_row (decoded_row d) (ps_log s)))"
proof -
  note ready = assms(1) [unfolded pass_ready_def]
  have ops: "cfl_skl_decode_pa hw addr (family_state (ps_dispatch s)) = (d, family_state (ps_dispatch s))"
    using ready imc_ready_ops(3) by (auto simp: d_def)
  define ds where "ds = (ps_dispatch s)\<lparr>g_detected := True, g_active := Some 0\<rparr>"
  have dec: "imc_decode_pa (g_families hw) addr (ps_dispatch s) = (d, ds)"
    using ready ops by (simp add: imc_decode_pa_def imc_active_cfl cfl_skl_kbl_ops_def ds_def)
  have conf: "imc_config (g_families hw) ds = (Some mc, ds)"
    using ready imc_ready_config [of mc "family_state ds" hw]
    by (simp add: imc_config_def imc_active_def g_families_def cfl_skl_kbl_ops_def ds_def Let_def)
  have d: "d_valid d" "d_bank_row_valid d" by (simp_all add: d_def config_decode_pa_fields)
  define log where "log = record_row (decoded_row d) (ps_log s)"
  have row: "badmem_log_record_row (d_channel d) (d_rank d) (d_bank_group d) (d_bank d) (d_row d) (ps_log s) = log"
    by (simp add: log_def record_row_def decoded_row_def)
  obtain lo hi where ranks: "(if d_rank_valid d then (d_rank d, d_rank d)
      else if channel_ranks (Some mc) (d_channel d) > 1 then (0, channel_ranks (Some mc) (d_channel d) - 1) else (0, 0)) = (lo, hi)"
    by (metis surj_pair)
  have "\<not> d_rank_valid d \<Longrightarrow> d_rank d = 0" unfolding d_def by (rule rank_0_unless_valid)
  then have lohi: "lo \<le> d_rank d" "d_rank d \<le> hi" using ranks by (auto split: if_splits)
  obtain seen log' where vp: "visit_packages (Some p) (d_channel d) lo hi log = (seen, log')" by (metis surj_pair)
  have "ps_log s' = log'"
    unfolding s'_def decode_and_log_one_def
    by (simp add: dec d row conf assms(2) Let_def ranks vp)
  with lohi vp show ?thesis by (intro exI [of _ lo] exI [of _ hi]) (simp add: log_def)
qed

lemma record_row_chips:
  "names_ok (record_row r log) = names_ok log" "names_of (record_row r log) = names_of log"
  "chip_buf (record_row r log) = chip_buf log"
  by (simp_all add: names_ok_def names_of_def record_row_def)

lemma decode_one_grows:
  assumes "pass_ready hw mc s" "board_detect profiles product = Some p"
  shows "length (chip_buf (ps_log s)) \<le>
    length (chip_buf (ps_log (decode_and_log_one (g_families hw) profiles product addr s)))"
  using decode_one_log [OF assms, of addr] visit_packages_grows record_row_chips(3) by metis

lemma decode_one_names:
  fixes addr :: u64 and profiles :: "board_profile option list" and product :: "u8 list option"
  assumes "pass_ready hw mc s" "board_detect profiles product = Some p" "board_named p" "names_ok (ps_log s)"
  defines "s' \<equiv> decode_and_log_one (g_families hw) profiles product addr s"
    and "d \<equiv> config_decode_pa mc (config_row_bits (Some mc)) addr"
  assumes "names_room (ps_log s')"
  shows "names_ok (ps_log s')" "set (names_of (ps_log s)) \<subseteq> set (names_of (ps_log s'))"
    "lane < 8 \<Longrightarrow> board_lookup (Some p) (d_channel d) (d_rank d) (of_nat lane) = Some k \<Longrightarrow>
      cstr (bp_designator k) \<in> set (names_of (ps_log s'))"
proof -
  obtain lo hi where r: "lo \<le> d_rank d" "d_rank d \<le> hi"
    and log: "ps_log s' = snd (visit_packages (Some p) (d_channel d) lo hi (record_row (decoded_row d) (ps_log s)))"
    using decode_one_log [OF assms(1,2), of addr] unfolding s'_def d_def by blast
  have "names_ok (record_row (decoded_row d) (ps_log s))" using assms(4) by (simp add: record_row_chips)
  note names = visit_packages_names [OF assms(3) this assms(7) [unfolded log], folded log, unfolded record_row_chips]
  show "names_ok (ps_log s')" "set (names_of (ps_log s)) \<subseteq> set (names_of (ps_log s'))"
    using names(1,2) .
  show "lane < 8 \<Longrightarrow> board_lookup (Some p) (d_channel d) (d_rank d) (of_nat lane) = Some k \<Longrightarrow>
      cstr (bp_designator k) \<in> set (names_of (ps_log s'))"
    by (rule names(3) [OF r])
qed

text \<open>Over all the pages of a pass.\<close>

lemma decode_fold_names:
  assumes "pass_ready hw mc s" "board_detect profiles product = Some p" "board_named p" "names_ok (ps_log s)"
    and "names_room (ps_log (fold (decode_and_log_one (g_families hw) profiles product) pas s))"
  shows "names_ok (ps_log (fold (decode_and_log_one (g_families hw) profiles product) pas s)) \<and>
    (\<forall>a \<in> set pas. \<forall>lane k. lane < 8 \<and> board_lookup (Some p)
       (d_channel (config_decode_pa mc (config_row_bits (Some mc)) a))
       (d_rank (config_decode_pa mc (config_row_bits (Some mc)) a)) (of_nat lane) = Some k \<longrightarrow>
       cstr (bp_designator k) \<in> set (names_of (ps_log (fold (decode_and_log_one (g_families hw) profiles product) pas s))))"
  using assms(5)
proof (induction pas rule: rev_induct)
  case Nil
  with assms(4) show ?case by simp
next
  case (snoc a pas)
  let ?s = "fold (decode_and_log_one (g_families hw) profiles product) pas s"
  let ?s' = "decode_and_log_one (g_families hw) profiles product a ?s"
  have last: "fold (decode_and_log_one (g_families hw) profiles product) (pas @ [a]) s = ?s'" by simp
  have ready: "pass_ready hw mc ?s" using decode_fold_ready [OF assms(1)] by blast
  have room: "names_room (ps_log ?s')" using snoc.prems unfolding last .
  have "names_room (ps_log ?s)" using room decode_one_grows [OF ready assms(2), of a] by (simp add: names_room_def)
  note IH = snoc.IH [OF this]
  note step = decode_one_names [OF ready assms(2,3) conjunct1 [OF IH] room]
  have "cstr (bp_designator k) \<in> set (names_of (ps_log ?s'))"
    if "b \<in> set (pas @ [a])" "lane < 8" "board_lookup (Some p) (d_channel (config_decode_pa mc (config_row_bits (Some mc)) b))
       (d_rank (config_decode_pa mc (config_row_bits (Some mc)) b)) (of_nat lane) = Some k" for b lane k
  proof (cases "b = a")
    case True
    then show ?thesis using step(3) that(2,3) by simp
  next
    case False
    then have "b \<in> set pas" using that(1) by simp
    then show ?thesis using conjunct2 [OF IH] that(2,3) step(2) by blast
  qed
  then show ?case unfolding last using step(1) by blast
qed

text \<open>The list of a run is named like the ones before it: every package on the decoded channel and rank of
  the page of an error.\<close>

definition recorded_chips ::
  "'p hardware \<Rightarrow> board_profile option list \<Rightarrow> u8 list option \<Rightarrow> 'p imc_state pass_state \<Rightarrow> badmem_log" where
  "recorded_chips hw profiles product s = ps_log (board_decode_pass (g_families hw) profiles product s)"

lemma report_errors_chip_buf: "chip_buf (report_errors errors) = []"
proof -
  have "chip_buf (fold (\<lambda>(addr, xor_bits). board_report_error addr xor_bits) errors l) = chip_buf l" for l
    by (induction errors arbitrary: l) (auto simp: board_report_error_def badmem_log_record_def Let_def)
  then show ?thesis by (simp add: report_errors_def empty_log_def)
qed

lemma recorded_chip_of_error:
  assumes "pass_ready hw mc s" "ps_log s = report_errors errors"
    and "(addr, x) \<in> set errors" "length (log_pages (ps_log s)) < MAX_ENTRIES"
    and "board_detect profiles product = Some p" "board_named p"
    and "names_room (recorded_chips hw profiles product s)"
    and "d = config_decode_pa mc (config_row_bits (Some mc)) (addr AND PAGE_MASK)"
  shows "names_ok (recorded_chips hw profiles product s)"
    "lane < 8 \<Longrightarrow> board_lookup (Some p) (d_channel d) (d_rank d) (of_nat lane) = Some k \<Longrightarrow>
      cstr (bp_designator k) \<in> set (names_of (recorded_chips hw profiles product s))"
proof -
  let ?pas = "log_pages (ps_log s)"
  have page: "addr AND PAGE_MASK \<in> set ?pas"
    using report_errors_pages [OF assms(3)] assms(2,4) by simp
  define s1 where "s1 = s\<lparr>ps_lines := ps_lines s @ [Pass_blank, Pass_count (length ?pas)]\<rparr>"
  have ready: "pass_ready hw mc s1" using assms(1) by (simp add: s1_def pass_ready_def)
  have nil: "names_ok (ps_log s1)"
    by (simp add: s1_def assms(2) names_ok_def names_of_def report_errors_chip_buf chip_ok_def CHIPS_BUF_SIZE_def
        chip_entries.simps)
  have "?pas \<noteq> []" using page by auto
  then have pass: "recorded_chips hw profiles product s =
      ps_log (fold (decode_and_log_one (g_families hw) profiles product) ?pas s1)"
    by (simp add: recorded_chips_def board_decode_pass_def s1_def Let_def)
  note names = decode_fold_names [OF ready assms(5,6) nil assms(7) [unfolded pass], folded pass]
  show "names_ok (recorded_chips hw profiles product s)" using names by blast
  show "lane < 8 \<Longrightarrow> board_lookup (Some p) (d_channel d) (d_rank d) (of_nat lane) = Some k \<Longrightarrow>
      cstr (bp_designator k) \<in> set (names_of (recorded_chips hw profiles product s))"
    using names page unfolding assms(8) by blast
qed

section \<open>The recorded chips are masked\<close>

lemma reserve_page_reserver:
  assumes "page_reserver fw free resv"
  shows "free (snd (snd (reserve_page fw p s))) = free (snd (snd s)) - {p}"
    "resv (snd (snd (reserve_page fw p s))) = resv (snd (snd s)) \<union> (free (snd (snd s)) \<inter> {p})"
  using reserve_fold_reserver [OF assms, of "[p]" s] by simp_all

lemma reserve_some_reserver:
  assumes "page_reserver fw free resv" "alloc_frame fw view"
  shows "resv (snd (snd (fold (\<lambda>pa s. if P pa then reserve_page fw pa s else s) ps s))) =
      resv (snd (snd s)) \<union> (free (snd (snd s)) \<inter> {pa \<in> set ps. P pa}) \<and>
    view (snd (snd (fold (\<lambda>pa s. if P pa then reserve_page fw pa s else s) ps s))) = view (snd (snd s))"
proof (induction ps arbitrary: s)
  case (Cons p ps)
  have "view (snd (snd (reserve_page fw p s))) = view (snd (snd s))"
    using reserve_fold_view [OF assms(2), of "[p]" s] by simp
  then show ?case
    using Cons.IH [of s] Cons.IH [of "reserve_page fw p s"] reserve_page_reserver [OF assms(1), of p s]
    by (cases "P p") auto
qed simp

lemma mask_chips_reserver:
  assumes "page_reserver fw free resv" "alloc_frame fw view" "list_ex bc_resolved chips"
    and "shim_cfl_init shw sst = (True, sst')" "g_mc sst' = shim_view mc" "mc_wf mc"
    and "0 < config_total_memory mc"
  shows "\<exists>c w'. mask_chips fw shw chips sst w = Some (EFI_SUCCESS, c, sst', w') \<and>
    resv w' = resv w \<union> (free w \<inter> chip_pages mc chips) \<and> view w' = view w"
proof -
  define ps where "ps = pages_between 0 (config_total_memory mc)"
  define P where "P pa = list_ex (on_chip mc pa) chips" for pa
  have body: "mask_chip_page fw (shim_view mc) chips = (\<lambda>pa s. if P pa then reserve_page fw pa s else s)"
    by (rule ext)+ (simp add: mask_chip_page_def shim_decode_view [OF assms(6)] P_def chip_match_decoded
        [symmetric] shim_decoded_def config_decode_pa_fields)
  obtain r s w' where f: "fold (\<lambda>pa s. if P pa then reserve_page fw pa s else s) ps (0, 0, w) = (r, s, w')"
    using prod_cases3 by blast
  have "chips \<noteq> []" using assms(3) by auto
  then have "mask_chips fw shw chips sst w = Some (EFI_SUCCESS, (r, s), sst', w')"
    using assms(3-7) f
    by (simp add: mask_chips_def shim_total_view page_loop_eq page_aligned_total_memory
        fold_while_True body ps_def Let_def)
  moreover have "resv w' = resv w \<union> (free w \<inter> {pa \<in> set ps. P pa}) \<and> view w' = view w"
    using reserve_some_reserver [OF assms(1,2), of P ps "(0, 0, w)"] by (simp add: f)
  moreover have "{pa \<in> set ps. P pa} = chip_pages mc chips"
    by (auto simp: ps_def P_def chip_pages_def page_aligned_total_memory
        set_pages_between [OF page_aligned_0 page_aligned_total_memory])
  ultimately show ?thesis by auto
qed

text \<open>With a decoder that failed its test the shim goes into chip mode when there is a list of chips, in
  every state but the one that asks the user first.\<close>

lemma chip_mode_reserves:
  assumes "page_reserver fw free resv" "get_law fw vars" "alloc_frame fw view"
    and "\<not> no_mask_requested fw img w" "state_of (vars w) \<noteq> Unconfirmed"
    and "\<not> read_nvram_decoder_status_validated fw w" "read_nvram_decoder_status_failed fw w"
    and "read_nvram_badchips fw BADMEM_MAX_CHIPS w = cs" "chips = map (resolve_chip boards) cs"
    and "list_ex bc_resolved chips"
    and "shim_cfl_init shw sst = (True, sst')" "g_mc sst' = shim_view mc" "mc_wf mc" "0 < config_total_memory mc"
  shows "\<exists>w'. mask_step fw shw boards img sst w = Some (Some (Chip_Mode chips), sst', w') \<and>
    resv w' = resv w \<union> (free w \<inter> chip_pages mc chips) \<and> view w' = view w"
proof -
  obtain c w' where m: "mask_chips fw shw chips sst w = Some (EFI_SUCCESS, c, sst', w')"
    "resv w' = resv w \<union> (free w \<inter> chip_pages mc chips)" "view w' = view w"
    using mask_chips_reserver [OF assms(1,3,10-14), of w] by blast
  have "cs \<noteq> []" using assms(9,10) by auto
  then have "apply_mask fw shw boards img force sst w = Some (Chip_Mode chips, sst', w')" for force
    using assms(6-8) m(1) by (simp add: apply_mask_def resolve_chip_entries_def flip: assms(9))
  moreover have "\<exists>force. handle_nvram_state fw img w = Some (False, force, w)"
    using assms(5) by (cases "state_of (vars w)") (auto simp: handle_nvram_state_abs [OF assms(2)])
  ultimately have "mask_step fw shw boards img sst w = Some (Some (Chip_Mode chips), sst', w')"
    using assms(4) by (auto simp: mask_step_def)
  with m(2,3) show ?thesis by blast
qed

end
