(* ===== verification/Selftest_Console.thy ===== *)
theory Selftest_Console
  imports Efi_Console
begin

text \<open>
  Text output of the decoder self-test (\<^verbatim>\<open>src/decoder_selftest.c\<close>), which has its own routines: one call
  of the console per character. The console is \<open>output_string\<close> of \<open>g_con_out\<close>, which may be NULL.
\<close>

definition st_char :: "(u16 list \<Rightarrow> 'c \<Rightarrow> 'c) \<Rightarrow> u8 \<Rightarrow> 'c \<Rightarrow> 'c" where
  "st_char output_string b c =
     (let c = (if b = ch (CHR 0x0A) then output_string [ch (CHR 0x0D), 0] c else c)
      in output_string [ucast b, 0] c)"

definition st_puts :: "(u16 list \<Rightarrow> 'c \<Rightarrow> 'c) option \<Rightarrow> u8 list \<Rightarrow> 'c \<Rightarrow> 'c" where
  "st_puts con s c = (case con of None \<Rightarrow> c | Some output_string \<Rightarrow> fold (st_char output_string) (cstr s) c)"

text \<open>The digits from the last to the first, as the loop writes them from the end of \<open>tmp\<close> downwards.\<close>

function st_digits :: "u32 \<Rightarrow> u8 list" where
  "st_digits v =
     (let d = ch CHR ''0'' + ucast (v mod 10);
          v = v div 10
      in if v > 0 then d # st_digits v else [d])"
  by pat_completeness auto
termination
proof (relation "measure unat", goal_cases)
  case (2 v d w)
  then have "0 < unat v div 10" by (simp add: word_less_nat_alt unat_div)
  then show ?case using 2 by (simp add: unat_div)
qed simp

declare st_digits.simps [simp del]

definition st_put_dec :: "(u16 list \<Rightarrow> 'c \<Rightarrow> 'c) option \<Rightarrow> u32 \<Rightarrow> 'c \<Rightarrow> 'c" where
  "st_put_dec con v c = st_puts con (rev (st_digits v) @ [0]) c"

section \<open>The number shown is the number\<close>

lemma length_st_digits: "unat v < 10 ^ Suc n \<Longrightarrow> length (st_digits v) \<le> Suc n"
proof (induction n arbitrary: v)
  case 0
  then have "v div 10 = 0" by (simp add: word_unat_eq_iff unat_div)
  then show ?case by (simp add: st_digits.simps)
next
  case (Suc n)
  have "unat (v div 10) < 10 ^ Suc n"
    using Suc.prems by (simp add: unat_div div_less_iff_less_mult mult.commute)
  from Suc.IH [OF this] show ?case by (subst st_digits.simps) (simp add: Let_def)
qed

text \<open>The text and its terminator fit into the 12 bytes of \<open>tmp\<close>.\<close>

lemma st_put_dec_fits: "length (rev (st_digits v) @ [0]) \<le> 11"
  using length_st_digits [of v 9] unat_lt32 [of v] by simp

definition decimal_value :: "u8 list \<Rightarrow> nat" where
  "decimal_value ds = foldl (\<lambda>n d. 10 * n + unat (d - ch CHR ''0'')) 0 ds"

lemma decimal_value_snoc: "decimal_value (ds @ [d]) = 10 * decimal_value ds + unat (d - ch CHR ''0'')"
  by (simp add: decimal_value_def)

lemma st_digits_value:
  "decimal_value (rev (st_digits v)) = unat v \<and>
    list_all (\<lambda>d. ch CHR ''0'' \<le> d \<and> d \<le> ch CHR ''9'') (st_digits v)"
proof (induction v rule: st_digits.induct)
  case (1 v)
  have m: "unat (v mod 10) < 10" by (simp add: unat_mod)
  then have d: "unat (ucast (v mod 10) :: u8) = unat (v mod 10)"
    by (simp add: unsigned_ucast_eq unsigned_take_bit_eq take_bit_nat_eq_self)
  then have range: "ch CHR ''0'' \<le> ch CHR ''0'' + (ucast (v mod 10) :: u8)"
    "ch CHR ''0'' + (ucast (v mod 10) :: u8) \<le> ch CHR ''9''"
    using m by (simp_all add: word_le_nat_alt unat_word_ariths)
  have split: "10 * (unat v div 10) + unat v mod 10 = unat v" by (rule mult_div_mod_eq)
  show ?case
  proof (cases "v div 10 > 0")
    case True
    then have "st_digits v = (ch CHR ''0'' + ucast (v mod 10)) # st_digits (v div 10)"
      by (subst st_digits.simps) simp
    then show ?thesis
      using "1.IH" [OF refl refl True] d range split
      by (simp add: decimal_value_snoc unat_div unat_mod)
  next
    case False
    then have z: "v div 10 = 0" by (metis word_gt_0)
    then have "unat (v div 10) = 0" by simp
    then have "unat v div 10 = 0" by (simp add: unat_div)
    then show ?thesis
      using z d range split by (subst (1 2) st_digits.simps) (simp add: decimal_value_def unat_mod)
  qed
qed

text \<open>On a console that shows every string it is given: a line feed is shown with a carriage return before
  it, and every byte as one character, so that the three bytes of a dash in UTF-8 are three
  characters.\<close>

definition shown_bytes :: "u8 list \<Rightarrow> u16 list" where
  "shown_bytes bs = concat (map (\<lambda>b. if b = ch (CHR 0x0A) then [0x0D, 0x0A] else [ucast b]) bs)"

lemma st_puts_shown:
  assumes "\<And>s c. shown (out s c) = shown c @ cstr s"
  shows "shown (st_puts (Some out) s c) = shown c @ shown_bytes (cstr s)"
proof -
  have "shown (fold (st_char out) bs c) = shown c @ shown_bytes bs" if "0 \<notin> set bs" for bs c
    using that
  proof (induction bs arbitrary: c)
    case (Cons b bs)
    have "(ucast b :: u16) \<noteq> 0"
      using Cons.prems unat_lt8 [of b]
      by (auto simp: word_unat_eq_iff unsigned_ucast_eq unsigned_take_bit_eq take_bit_nat_eq_self)
    then show ?case using Cons by (simp add: st_char_def assms shown_bytes_def)
  qed (simp add: shown_bytes_def)
  then show ?thesis by (simp add: st_puts_def)
qed

lemma dash_shown: "shown_bytes [0xE2, 0x80, 0x94] = [0xE2, 0x80, 0x94]"
  by (simp add: shown_bytes_def)

text \<open>The number on the screen is the number.\<close>

lemma st_put_dec_shown:
  assumes "\<And>s c. shown (out s c) = shown c @ cstr s"
  shows "\<exists>ds. shown (st_put_dec (Some out) v c) = shown c @ map ucast ds \<and> decimal_value ds = unat v"
proof -
  have digits: "ch CHR ''0'' \<le> d \<and> d \<le> ch CHR ''9''" if "d \<in> set (rev (st_digits v))" for d
    using st_digits_value [of v] that by (simp add: list_all_iff)
  define ds where "ds = rev (st_digits v)"
  have no: "0 \<notin> set ds" "ch (CHR 0x0A) \<notin> set ds"
    using digits [of 0] digits [of "ch (CHR 0x0A)"] by (auto simp: word_le_nat_alt ds_def)
  have "ch (CHR 0x0A) \<notin> set bs \<Longrightarrow> shown_bytes bs = map ucast bs" for bs
    by (induction bs) (auto simp: shown_bytes_def)
  from this [OF no(2)] have "shown (st_put_dec (Some out) v c) = shown c @ map ucast ds"
    using st_puts_shown [of shown out "ds @ [0]" c, OF assms] no(1)
    by (simp add: st_put_dec_def cstr_idem flip: ds_def)
  then show ?thesis using st_digits_value [of v] unfolding ds_def by blast
qed

end
