(* ===== verification/Spec2Isabelle.thy ===== *)
theory Spec2Isabelle
  imports Badmem_Parse Rows_Blob Imc_Dispatch Shim_Decode Skip_Prune Error_Hook Shim_Main Brr_Entry Mask_Install
    Decoder_Selftest Calibration Dump_Typed Brr_Console Efi_Memory Parser_Tests Boot_Chain Chip_Chain Selftest_Console
begin

text \<open>
  The repository extends memtest86+ for Macs whose soldered memory has bad cells, and lets such a
  machine run macOS around them. It has two halves that meet in NVRAM.

  The memtest half (\<^verbatim>\<open>src/\<close>) is linked into memtest86+. It reads the configuration of the memory
  controller, decodes a failing address into channel, rank, bank and row, finds the chip on the
  board, keeps lists of bad pages, chips and rows, leaves regions out of the tested memory, and
  tests by timing whether its own decoder is right.

  The EFI half (\<^verbatim>\<open>efi/\<close>) are four programs. \<^verbatim>\<open>brr-entry.efi\<close> lets the user type the bad addresses,
  writes them to NVRAM, installs the shim and starts it. \<^verbatim>\<open>mask-shim.efi\<close> reads the lists from
  NVRAM and \<^verbatim>\<open>badmem.txt\<close>, reserves the bad memory through \<open>AllocatePages\<close>, and starts macOS.
  \<^verbatim>\<open>install.efi\<close> and \<^verbatim>\<open>revert.efi\<close> install and remove the shim on the internal system partition.

  \<^bold>\<open>Theories and sources.\<close>

  \<^item> \<open>Prelude\<close>: word types, page arithmetic, the page-stepping loop, little-endian bytes, and the
    collections \<open>page_simps\<close>, \<open>text_simps\<close>, \<open>bytes_simps\<close>.
  \<^item> \<open>Efi_Text\<close>: \<^verbatim>\<open>efi/efi_util.c\<close>, \<^verbatim>\<open>efi/string.h\<close>, the comparisons and searches of \<^verbatim>\<open>main.c\<close> and
    \<^verbatim>\<open>efi_menu.c\<close>; the contracts \<open>text_equality\<close> and \<open>substring_search\<close> with their instances, and
    \<open>hex_reader\<close>, for whoever reads back a number the formatter has written.
  \<^item> \<open>Efi_Console\<close>, \<open>Efi_Memory\<close>: the printing routines of \<^verbatim>\<open>efi/efi_util.c\<close> over a record of console
    services, and the memory routines of \<^verbatim>\<open>efi/string.h\<close> over a memory of bytes.
  \<^item> \<open>Badmem_Parse\<close>, \<open>Rows_Blob\<close>: \<^verbatim>\<open>efi/badmem_parse.c\<close>, the text format and the NVRAM blob;
    \<open>Parser_Tests\<close>: \<^verbatim>\<open>efi/mask-shim/test_parse.c\<close>, the unit tests of both, run on the model.
  \<^item> \<open>Imc_Config\<close>, \<open>Imc_Decode\<close>: \<^verbatim>\<open>src/imc/cfl_skl_kbl.c\<close>, the registers with their cache, and the
    decoder with the enumeration of a row (contract \<open>row_enumerator\<close>).
  \<^item> \<open>Imc_Dispatch\<close>: \<^verbatim>\<open>src/imc_dispatch.c\<close>, the choice of a controller family, and its dumps.
  \<^item> \<open>Shim_Decode\<close>: \<^verbatim>\<open>efi/mask-shim/cfl_decode_shim.c\<close>, the decoder written a second time.
  \<^item> \<open>Badmem_Log\<close>, \<open>Skip_Prune\<close>: \<^verbatim>\<open>src/badmem_log.c\<close> and \<^verbatim>\<open>src/skip.c\<close>, the lists of a run (contracts
    \<open>bounded_log\<close>, \<open>capped_log\<close>) and the cut of the memory map.
  \<^item> \<open>Board_Topology\<close>, \<open>Error_Hook\<close>: \<^verbatim>\<open>src/smbios.c\<close>, \<^verbatim>\<open>src/board_topology.c\<close>, \<^verbatim>\<open>src/error_hook.c\<close>,
    from a failing address to the names of chips.
  \<^item> \<open>Decoder_Selftest\<close>, \<open>Selftest_Console\<close>: \<^verbatim>\<open>src/decoder_selftest.c\<close> (contract \<open>pair_search\<close>), and its
    own printing routines.
  \<^item> \<open>Calibration\<close>: \<^verbatim>\<open>src/calibration.c\<close>, \<^verbatim>\<open>src/efi_menu.c\<close>, \<^verbatim>\<open>src/beeper.c\<close>.
  \<^item> \<open>Efi_Firmware\<close>, \<open>Efi_Types\<close>: \<^verbatim>\<open>efi/efi_types.h\<close>. The first has the status codes, the record of
    firmware services, the laws on it, the NVRAM wrappers, and a concrete machine, \<open>bench\<close>, on which
    the properties are instantiated; the second the structures the firmware fills, with their
    layout, and the identifiers of the protocols.
  \<^item> \<open>Mask_Ops\<close>, \<open>Mask_Install\<close>: \<^verbatim>\<open>efi/mask-common/mask_ops.c\<close>, \<^verbatim>\<open>efi/mask-install/main.c\<close> and
    \<^verbatim>\<open>efi/revert/main.c\<close>, installation and removal.
  \<^item> \<open>Page_Masking\<close>, \<open>Shim_Nvram\<close>, \<open>Shim_Mask\<close>, \<open>Shim_Finder\<close>, \<open>Shim_Main\<close>: \<^verbatim>\<open>efi/mask-shim/main.c\<close>, the
    masks by page, chip and row; the lists and the state machine in NVRAM; the choice of the
    mask; the search for macOS and its start; the program. \<open>Boot_Chain\<close>: several boots in a row.
  \<^item> \<open>Brr_Entry\<close>, \<open>Brr_Console\<close>: \<^verbatim>\<open>efi/brr-entry/main.c\<close>, the program, and its screen (contract
    \<open>address_writer\<close>: a way to write addresses that the prompt reads back).
  \<^item> \<open>Dump_Typed\<close>: the dump of the tester as an instance of that contract. \<open>Chip_Chain\<close>: the list of
    chips from the tester's log to the shim's masks.
  \<^item> This theory: the properties that span components.

  \<^bold>\<open>How the code is represented.\<close> Integers keep their width as words. A pointer into text is the list
  of characters from there on. Static variables are records that each operation takes and
  returns. A full table drops what does not fit, as in the code. Hardware reads and firmware
  services are records of functions over an abstract world \<open>'w\<close>, arguments of every definition that
  calls them; printed lines are left out, or values where they carry data (\<open>Badmem_Log\<close>,
  \<open>Error_Hook\<close>, \<open>Calibration\<close>, \<open>Brr_Console\<close>). Errors are statuses and options. A function that may not return is
  a \<open>partial_function\<close> into \<open>option\<close>, with \<open>None\<close> for not returning: device paths without end,
  enumerations of variables, key loops, and the address parser, which does hang on some input.
  All other loops are structural or have a measure; no fuel is used.

  \<^bold>\<open>What the theorems show.\<close> Parsing: the text parser is equal to a reading line by line and returns
  only aligned, non-empty regions; blobs and typed addresses are read back as they were written.
  Decoding: the two decoders agree on every address and both enumerate the pages of a row and no
  others; the cached configuration is always the one the registers give. Logging: the lists hold
  the first occurrences, regions are united, and pruning removes exactly the skipped bytes.
  Masking: page mode reserves every free page of the margin around each range and nothing else,
  chip and row mode the pages their decoder attributes to the chips and rows. NVRAM: the code of
  the state machine refines the step relation \<open>shim_step\<close>; a failed installation restores every
  variable, removal undoes installation, leaves no variable of the program and always ends; the
  installer and the revert program change all or nothing. Starting: only a complete \<open>boot.efi\<close> of a
  volume that is not left out is started, and never the shim's own boot entry. Self-test: sort
  and median are right, a decoder that is right passes, and the verdict is the one the shim
  reads. End to end: the addresses a user types are reserved when the shim hands over to macOS, and
  so is the page of an error the tester reports, in three ways: typed from the tester's dump, by
  the rows it recorded once they are in \<^verbatim>\<open>BrrBadRows\<close>, by the chips once they are in \<^verbatim>\<open>BrrBadChips\<close>.
  A trial is repeated by every later boot. Regions reported to be skipped, and no others, leave
  the test. A row has at most four pages in \<open>2\<close> to the (18 + row bits) bytes, so the shim's room for
  2048 is enough on every machine of up to 512 such blocks.
  Some properties state how the code fails: they carry the findings of the manifest.

  \<^bold>\<open>What is assumed.\<close> Laws on the firmware, after the UEFI specification, as hypotheses: \<open>get_law\<close>,
  \<open>set_law\<close> and \<open>frame_law\<close>, together \<open>variable_store\<close> (variables are a map that only \<open>SetVariable\<close>
  changes), \<open>enum_law\<close> (enumeration lists each variable once), \<open>writes_succeed\<close> and
  \<open>deletes_succeed\<close>, \<open>page_allocator\<close> and \<open>page_reserver\<close> (a successful allocation takes one free
  page), \<open>search_frame\<close> (no service the search for macOS calls gives reserved pages back),
  \<open>images_keep_brr\<close> (macOS does not touch the variables of the program). For the self-test
  \<open>status_store\<close> and \<open>timing\<close>, for the speaker \<open>speaker_port\<close>, for the screen \<open>shows_text\<close>. Each is instantiated in a
  witness on a concrete function. Nothing in the repository writes \<^verbatim>\<open>BrrBadRows\<close> or
  \<^verbatim>\<open>BrrBadChips\<close>; the properties that go through them take the variables as given.

  \<^bold>\<open>Not modelled.\<close> Progress messages; the types of the function pointers in \<^verbatim>\<open>efi_types.h\<close>, for which
  the records of services stand; the board table, which scripts generate from \<^verbatim>\<open>topology/\<close> at build
  time and which is a parameter;
  \<^verbatim>\<open>src/cfl_decode.c\<close>, which is empty; the patches to memtest86+, the boot configuration and the
  build files. Interleaving is not modelled: the error hook runs under the error mutex of memtest86+,
  the hooks at the end of a pass on one processor, and EFI programs have one thread.
\<close>

section \<open>From the prompt to the reserved memory\<close>

lemma bad_pages_roundtrip: "badpages_blob (bad_pages_blob pas) = Some (take 4096 pas)"
proof -
  define n where "n = min 4096 (length pas)"
  define b where "b = [1, 0, 0, 0] @ to_le 4 (of_nat n :: u32) @ concat (map (to_le 8) (take n pas))"
  have b: "bad_pages_blob pas = b" by (simp add: bad_pages_blob_def b_def n_def Let_def min_def)
  have len: "length b = 8 + 8 * n" using length_bad_pages_blob [of pas] by (simp add: b n_def)
  have hdr: "of_le (take 4 b) = (1 :: u32)" "of_le (take 4 (drop 4 b)) = (of_nat n :: u32)"
    by (simp_all add: b_def)
  have n: "unat (of_nat n :: u32) = n" by (simp add: unat_of_nat n_def)
  have "badpages_array b n = map (\<lambda>i. take n pas ! i) [0..<n]"
    unfolding badpages_array_def badpages_hdr_size_def b_def
    by (rule map_cong [OF refl], rule bad_pages_blob_records) (simp add: n_def)
  also have "\<dots> = take n pas" by (rule nth_equalityI) (simp_all add: n_def)
  also have "take n pas = take 4096 pas" by (simp add: n_def min_def)
  finally have "badpages_array b n = take 4096 pas" .
  moreover have "n \<le> 4096" by (simp add: n_def)
  ultimately show ?thesis
    by (simp add: b badpages_blob_def badpages_hdr_size_def len hdr n BADPAGES_MAX_def Let_def)
qed

lemma bad_pages_blob_ne [simp]: "bad_pages_blob pas \<noteq> []"
  by (simp add: bad_pages_blob_def Let_def)

text \<open>What the prompt leaves in NVRAM before it starts the shim.\<close>

definition saved_trial :: "'w firmware \<Rightarrow> u64 list \<Rightarrow> 'w \<Rightarrow> 'w" where
  "saved_trial fw pas w =
     snd (mask_nvram_set_ascii fw BRR_VARNAME_STATE BRR_STATE_TRIAL_PENDING_PAGE (snd (write_bad_pages fw pas w)))"

text \<open>The program after the confirmation: those two writes, then the installation and the shim.\<close>

lemma apply_addresses_saves:
  assumes "set_law fw vars" "writes_succeed fw"
  shows "apply_addresses fw img pas w =
    Option.bind (auto_install fw img 8000 15000 (saved_trial fw pas w)) (\<lambda>w.
      map_option (\<lambda>(s, w). reset_after fw 15000 w) (chainload_shim fw img (efi_stall_ms fw 1000 w)))"
proof -
  have "BRR_VARNAME_BADPAGES \<noteq> []" "BRR_VARNAME_STATE \<noteq> []" by (simp_all add: brr_names)
  then have "fst (write_bad_pages fw pas w) = EFI_SUCCESS"
    "fst (mask_nvram_set_ascii fw BRR_VARNAME_STATE BRR_STATE_TRIAL_PENDING_PAGE w') = EFI_SUCCESS" for w'
    using set_variable_law(1) [OF assms]
    by (simp_all add: write_bad_pages_def mask_nvram_set_ascii_def)
  then show ?thesis by (simp add: apply_addresses_def saved_trial_def split_def Let_def)
qed

lemma saved_trial_vars:
  assumes "set_law fw vars" "writes_succeed fw"
  shows "vars (saved_trial fw pas w) = (vars w)((BRR_GUID, BRR_VARNAME_BADPAGES) \<mapsto> bad_pages_blob pas,
    (BRR_GUID, BRR_VARNAME_STATE) \<mapsto> BRR_STATE_TRIAL_PENDING_PAGE)"
proof -
  have "cstr BRR_STATE_TRIAL_PENDING_PAGE = BRR_STATE_TRIAL_PENDING_PAGE" "BRR_STATE_TRIAL_PENDING_PAGE \<noteq> []"
    by (simp_all add: brr_states)
  then show ?thesis
    using set_variable_law [OF assms]
    by (simp add: saved_trial_def mask_nvram_set_ascii_def write_bad_pages_def brr_names)
qed

lemma state_of_trial:
  assumes "V (BRR_GUID, BRR_VARNAME_STATE) = Some BRR_STATE_TRIAL_PENDING_PAGE"
  shows "state_of V = Trial_Page"
  using assms by (simp add: state_of_def) (simp add: brr_states)

lemma set_addresses_of:
  "pa \<in> set (addresses_of es) \<longleftrightarrow> pa \<noteq> 0 \<and> (\<exists>e \<in> set es. pa = entry_value e AND PAGE_MASK)"
  by (auto simp: addresses_of_def)

lemma typed_addresses_masked:
  assumes "page_reserver fw free resv" "variable_store fw vars" "writes_succeed fw"
    and "line_ok es" "list_all is_separator trailing" "length es \<le> PAS_MAX"
    and "\<forall>e \<in> set es. low_enough (entry_value e)"
    and "w1 = saved_trial fw (addresses_of es) w"
    and "\<not> no_mask_requested fw img w1" "vars w (BRR_GUID, VARNAME_DECODER_STATUS) = None"
    and "read_badmem fw img w1 = ((rs, ranges, []), w2)" "\<forall>r \<in> set ranges. in_reach r"
    and "length ranges + length es \<le> BADMEM_MAX_RANGES" "alloc_frame fw view"
  shows "parse_addresses (concat (map entry_text es) @ trailing) PAS_MAX = Some (addresses_of es) \<and>
    (\<exists>m w'. mask_step fw shw profiles img sst w1 = Some (Some m, sst, w') \<and>
      (\<forall>e \<in> set es. \<forall>p. entry_value e AND PAGE_MASK \<noteq> 0 \<and> close_to (entry_value e) p \<and> p \<in> free w2
         \<longrightarrow> p \<in> resv w') \<and> view w' = view w2)"
proof -
  define pas where "pas = addresses_of es"
  have len: "length pas \<le> length es" by (simp add: pas_def addresses_of_def)
  have parse: "parse_addresses (concat (map entry_text es) @ trailing) PAS_MAX = Some pas"
    using parse_line [OF assms(4,5), of PAS_MAX] len assms(6) by (simp add: pas_def)
  have laws: "get_law fw vars" "set_law fw vars" using assms(2) by (simp_all add: variable_store_def)
  have v1: "vars w1 = (vars w)((BRR_GUID, BRR_VARNAME_BADPAGES) \<mapsto> bad_pages_blob pas,
      (BRR_GUID, BRR_VARNAME_STATE) \<mapsto> BRR_STATE_TRIAL_PENDING_PAGE)"
    unfolding assms(8) pas_def by (rule saved_trial_vars [OF laws(2) assms(3)])
  have names: "BRR_VARNAME_STATE \<noteq> BRR_VARNAME_BADPAGES" "VARNAME_DECODER_STATUS \<noteq> BRR_VARNAME_BADPAGES"
    "VARNAME_DECODER_STATUS \<noteq> BRR_VARNAME_STATE"
    by (simp_all add: brr_names VARNAME_DECODER_STATUS_def)
  have state: "state_of (vars w1) = Trial_Page" by (rule state_of_trial) (simp add: v1)
  have status: "vars w1 (BRR_GUID, VARNAME_DECODER_STATUS) = None" using assms(10) names by (simp add: v1)
  have saved: "vars w1 (BRR_GUID, BRR_VARNAME_BADPAGES) = Some (bad_pages_blob pas)"
    using names by (simp add: v1)
  have blob: "badpages_blob (bad_pages_blob pas) = Some pas" "length (bad_pages_blob pas) \<le> 32776"
    using bad_pages_roundtrip [of pas] len assms(6)
    by (simp_all add: PAS_MAX_def length_bad_pages_blob)
  have low: "\<forall>pa \<in> set pas. low_enough pa"
  proof
    fix pa assume "pa \<in> set pas"
    then obtain e where "e \<in> set es" "pa = entry_value e AND PAGE_MASK" by (auto simp: pas_def set_addresses_of)
    then show "low_enough pa"
      using assms(7) page_mask_bounds(1) [of "entry_value e"] by (force simp: low_enough_def)
  qed
  have room: "length ranges + length pas \<le> BADMEM_MAX_RANGES" using assms(13) len by simp
  from trial_reserves [OF assms(1,2,9) state status assms(11,12) saved blob low room assms(14)]
  obtain m w' where run: "mask_step fw shw profiles img sst w1 = Some (Some m, sst, w')"
    and res: "\<forall>pa \<in> set pas. \<forall>p. close_to pa p \<and> p \<in> free w2 \<longrightarrow> p \<in> resv w'"
    and view: "view w' = view w2" by blast
  have "p \<in> resv w'" if e: "e \<in> set es" "entry_value e AND PAGE_MASK \<noteq> 0"
    and p: "close_to (entry_value e) p" "p \<in> free w2" for e p
  proof -
    have "entry_value e AND PAGE_MASK \<in> set pas" using e by (auto simp: pas_def set_addresses_of)
    moreover have "close_to (entry_value e AND PAGE_MASK) p" using p(1) by (simp add: close_to_def)
    ultimately show ?thesis using res p(2) by blast
  qed
  then show ?thesis using parse run view by (auto simp: pas_def)
qed


text \<open>A machine with two free pages and macOS on its internal volume, and one address typed.\<close>

definition two_pages :: machine where
  "two_pages = blank_machine\<lparr>m_free := [0x1000000, 0xb2100000],
     m_files := [((2, MACOS_ALT_PATHS ! 0), [1, 2, 3])]\<rparr>"

definition typed_once :: "entry list" where
  "typed_once = [\<lparr>en_gap = [], en_prefix = True, en_digits = str ''b2100abc''\<rparr>]"

lemma page_reserver_bench: "page_reserver bench (\<lambda>w. set (m_free w)) (\<lambda>w. - set (m_free w))"
  by (auto simp: page_reserver_def bench_simps)

lemma typed_once_value: "entry_value e = 0xb2100abc" if "e \<in> set typed_once"
  using that by (simp add: typed_once_def entry_value_def hex_value_def push_bit_eq_mult)

text \<open>The bench finds the file on the internal volume.\<close>

lemma bench_finds_macos:
  assumes "m_files w = [((2, MACOS_ALT_PATHS ! 0), [1, 2, 3])]" "m_volumes w = [1, 2]" "m_dirs w = []"
  shows "\<exists>w'. find_macos_boot bench 7 w = Some ((EFI_SUCCESS, 2, 9), w')"
proof -
  have alt: "MACOS_ALT_PATHS = MACOS_ALT_PATHS ! 0 # tl MACOS_ALT_PATHS" by (simp add: MACOS_ALT_PATHS_def)
  have dp: "dp_total_len [1, 1, 6, 0, 0, 0, 0x7f, 0xff, 4, 0] \<noteq> None"
    by (simp add: dp_total_len_def dp_walk.simps dp_node_len_def dp_is_end_def)
  have pk: "\<exists>w1. peek bench 2 w = Some w1 \<and> m_files w1 = m_files w"
    by (simp add: peek_def bench_simps, subst peek_loop.simps) (simp add: bench_simps assms(3) AList.update_conv')
  then obtain w1 where pk: "peek bench 2 w = Some w1" "m_files w1 = m_files w" by blast
  have "\<exists>w'. try_path bench 7 2 (MACOS_ALT_PATHS ! 0) w1 = Some ((EFI_SUCCESS, 9), w')"
    using dp by (auto simp: try_path_def build_file_device_path_def bench_simps pk(2) assms(1) BOOT_EFI_MAX_def)
  then have "\<exists>w'. try_open_candidates bench 7 2 w1 = Some ((EFI_SUCCESS, 9), w')"
    unfolding try_open_candidates_def
    by (subst alt) (auto simp: apple_bless_get_path_def bench_simps FULL_PATH_CAP_def)
  moreover have "loaded_device bench 7 w = 1" "connect_all_handles bench w = w"
    "locate_sfs bench w = ((EFI_SUCCESS, [1, 2]), w)"
    by (simp_all add: loaded_device_def connect_all_handles_def locate_sfs_def bench_simps assms(2))
  ultimately show ?thesis
    using pk(1) by (auto simp: find_macos_boot_def bench_simps left_out_def)
qed

lemma bench_main:
  assumes "mask_step bench shw boards img sst w = Some (m, sst', w3)"
    and "m_files w3 = [((2, MACOS_ALT_PATHS ! 0), [1, 2, 3])]" "m_volumes w3 = [1, 2]" "m_dirs w3 = []" "img = 7"
  shows "\<exists>w'. efi_main bench shw boards img sst w = Some (EFI_SUCCESS, m, sst', w')"
proof -
  from bench_finds_macos [OF assms(2-4)] obtain w4 where "find_macos_boot bench 7 w3 = Some ((EFI_SUCCESS, 2, 9), w4)" ..
  moreover have "shim_is_installed bench 7 w = Some False" by (simp add: shim_is_installed_def bench_simps)
  ultimately show ?thesis
    using assms(1,5) by (simp add: efi_main_def boot_macos_def chainload_macos_def efi_stall_ms_def bench_simps)
qed

text \<open>The machine after the prompt has saved the address.\<close>

definition trial_world :: machine where
  "trial_world = saved_trial bench [0xb2100000] two_pages"

lemma typed_once_addresses: "addresses_of typed_once = [0xb2100000]"
  by (simp add: typed_once_def addresses_of_def entry_value_def hex_value_def push_bit_eq_mult
      PAGE_MASK_def PAGE_SIZE_def)

lemma typed_once_line:
  "line_ok typed_once" "\<forall>e \<in> set typed_once. low_enough (entry_value e)" "length typed_once \<le> PAS_MAX"
  "length ([] :: badmem_range list) + length typed_once \<le> BADMEM_MAX_RANGES"
  "trial_world = saved_trial bench (addresses_of typed_once) two_pages"
  by (simp_all add: typed_once_value low_enough_def trial_world_def typed_once_addresses)
    (simp_all add: typed_once_def line_ok_def entry_ok_def is_hex_digit_def PAS_MAX_def BADMEM_MAX_RANGES_def)

lemma trial_world_files:
  "m_files trial_world = m_files two_pages" "m_volumes trial_world = m_volumes two_pages"
  "m_dirs trial_world = m_dirs two_pages" "m_free trial_world = m_free two_pages"
  by (simp_all add: trial_world_def saved_trial_def mask_nvram_set_ascii_def write_bad_pages_def bench_simps)

lemma trial_world_facts:
  "\<not> no_mask_requested bench 7 trial_world"
  "m_vars two_pages (BRR_GUID, VARNAME_DECODER_STATUS) = None"
  "read_badmem bench 7 trial_world = ((EFI_SUCCESS, [], []), trial_world)"
  by (simp_all add: no_mask_requested_def read_badmem_def bench_simps trial_world_files m_vars_conv two_pages_def
      blank_machine_def EFI_FILE_MODE_READ_def EFI_FILE_MODE_CREATE_def)

lemma search_frame_bench: "search_frame bench (\<lambda>w. - set (m_free w))"
  by (simp add: search_frame_def bench_simps split: list.splits option.splits)

lemma alloc_frame_bench: "alloc_frame bench (\<lambda>w. (m_files w, m_volumes w, m_dirs w))"
  by (simp add: alloc_frame_def bench_simps split: list.splits option.splits)

lemma trial_world_main:
  "\<exists>m w'. efi_main bench a1990_shim [] 7 ready_shim trial_world = Some (EFI_SUCCESS, Some m, ready_shim, w')"
proof -
  obtain m w3 where run: "mask_step bench a1990_shim [] 7 ready_shim trial_world = Some (Some m, ready_shim, w3)"
    and v3: "(m_files w3, m_volumes w3, m_dirs w3) = (m_files trial_world, m_volumes trial_world, m_dirs trial_world)"
    using typed_addresses_masked [OF page_reserver_bench variable_store_bench writes_succeed_bench typed_once_line(1) _
        typed_once_line(3,2,5) trial_world_facts _ typed_once_line(4) alloc_frame_bench, of "[]" a1990_shim "[]" ready_shim]
    by auto
  have "m_files w3 = [((2, MACOS_ALT_PATHS ! 0), [1, 2, 3])]" "m_volumes w3 = [1, 2]" "m_dirs w3 = []"
    using v3 by (simp_all add: trial_world_files two_pages_def blank_machine_def)
  from bench_main [OF run this] show ?thesis by blast
qed

text \<open>On the bench nothing changes when an image is started, so the pages are still reserved afterwards.\<close>

lemma bench_hand_over: "hand_over bench wb EFI_SUCCESS w' \<Longrightarrow> w' = wb"
  by (simp add: hand_over_def bench_simps)


section \<open>From a memory error to macOS, by way of the user\<close>



section \<open>A trial over several boots\<close>


lemma state_trial_world: "vars = m_vars trial_world \<Longrightarrow> state_of vars = Trial_Page"
  "m_vars trial_world (BRR_GUID, VARNAME_DECODER_STATUS) = None"
  "m_vars trial_world (BRR_GUID, BRR_VARNAME_BADPAGES) = Some (bad_pages_blob [0xb2100000])"
proof -
  have laws: "set_law bench m_vars" using variable_store_bench by (simp add: variable_store_def)
  have names: "BRR_VARNAME_STATE \<noteq> BRR_VARNAME_BADPAGES" "VARNAME_DECODER_STATUS \<noteq> BRR_VARNAME_BADPAGES"
    "VARNAME_DECODER_STATUS \<noteq> BRR_VARNAME_STATE"
    by (simp_all add: brr_names VARNAME_DECODER_STATUS_def)
  have v: "m_vars trial_world = (m_vars two_pages)((BRR_GUID, BRR_VARNAME_BADPAGES) \<mapsto> bad_pages_blob [0xb2100000],
      (BRR_GUID, BRR_VARNAME_STATE) \<mapsto> BRR_STATE_TRIAL_PENDING_PAGE)"
    unfolding trial_world_def by (rule saved_trial_vars [OF laws writes_succeed_bench])
  show "vars = m_vars trial_world \<Longrightarrow> state_of vars = Trial_Page"
    by (simp add: v state_of_trial)
  show "m_vars trial_world (BRR_GUID, VARNAME_DECODER_STATUS) = None"
    using trial_world_facts(2) names by (simp add: v)
  show "m_vars trial_world (BRR_GUID, BRR_VARNAME_BADPAGES) = Some (bad_pages_blob [0xb2100000])"
    using names by (simp add: v)
qed

text \<open>The same machine switched on a second time: its memory is as it was, and so are the variables.\<close>

lemma trial_world_again: "boot_chain bench m_vars a1990_shim [] 7 trial_world 1 trial_world"
proof -
  obtain m w4 where main: "efi_main bench a1990_shim [] 7 ready_shim trial_world = Some (EFI_SUCCESS, Some m, ready_shim, w4)"
    using trial_world_main by blast
  have quiet: "images_keep_brr bench m_vars" by (simp add: images_keep_brr_def keeps_brr_def bench_simps)
  have "keeps_brr m_vars w4 trial_world"
    using efi_main_keeps_brr [OF variable_store_bench quiet _ main] state_trial_world(1) by (simp add: keeps_brr_def)
  with boot_chain.again [OF boot_chain.first main] show ?thesis by simp
qed


section \<open>From the self-test to the shim\<close>

lemma status_read:
  assumes "get_law fw vars" "vars v (BRR_GUID, VARNAME_DECODER_STATUS) = Some (status_text r)"
  shows "read_nvram_decoder_status_validated fw v \<longleftrightarrow> r = BRR_DECODER_VALIDATED"
    "read_nvram_decoder_status_failed fw v \<longleftrightarrow> r = BRR_DECODER_FAILED"
  using assms(2)
  by (cases r; simp add: read_nvram_decoder_status_validated_def read_nvram_decoder_status_failed_def
      decoder_status_is_def mask_nvram_get_ascii_def get_variable_law [OF assms(1)] ascii_eq_cstr
      status_text_def DECODER_STATUS_VALIDATED_def DECODER_STATUS_FAILED_def)+

lemma status_variable: "(BRR_GUID_ST, BRR_DECODER_VARNAME) = (BRR_GUID, VARNAME_DECODER_STATUS)"
  by (simp add: BRR_GUID_ST_def BRR_GUID_def BRR_DECODER_VARNAME_def VARNAME_DECODER_STATUS_def)

text \<open>C34: the verdict of the self-test reaches the boot shim: the shim reads \<open>VALIDATED\<close> on a later start
  exactly when that was the verdict, and \<open>FAILED\<close> likewise; a run without a verdict leaves NVRAM
  as it was, so that the shim goes on with the verdict of an earlier run.\<close>

theorem selftest_status_read:
  assumes "status_store svc nv" "get_law fw vars"
    and "decoder_selftest_run (Some svc) families ds w = (r, ds', w')" "vars v = nv w'"
  shows "if r = BRR_DECODER_VALIDATED \<or> r = BRR_DECODER_FAILED
    then (read_nvram_decoder_status_validated fw v \<longleftrightarrow> r = BRR_DECODER_VALIDATED) \<and>
      (read_nvram_decoder_status_failed fw v \<longleftrightarrow> r = BRR_DECODER_FAILED)
    else vars v = nv w"
  using selftest_nvram [OF assms(1,3)] status_read [OF assms(2)] assms(4)
  by (auto simp: status_left_def status_variable)

theorem selftest_status_read_witness:
  "let (r, ds', w') = decoder_selftest_run (Some a1990_probe) (g_families (a1990_hw 0x410)) a1990_ready
       \<lparr>pm_nv = Map.empty, pm_clock = 0, pm_open = 0\<rparr>
   in \<exists>v. m_vars v = pm_nv w' \<and> read_nvram_decoder_status_validated bench v"
proof -
  define w0 where "w0 = \<lparr>pm_nv = Map.empty, pm_clock = 0, pm_open = 0\<rparr>"
  obtain r ds' w' where run: "decoder_selftest_run (Some a1990_probe) (g_families (a1990_hw 0x410)) a1990_ready w0 =
      (r, ds', w')"
    by (metis surj_pair)
  have r: "r = BRR_DECODER_VALIDATED" using a1990_validated [of w0] run by simp
  define v where "v = blank_machine\<lparr>m_nv := [((BRR_GUID_ST, BRR_DECODER_VARNAME), status_text r)]\<rparr>"
  have "m_vars v = pm_nv w'"
    using selftest_nvram [OF status_store_a1990 run]
    by (simp add: v_def r status_left_def m_vars_def named_def w0_def BRR_DECODER_VARNAME_def)
  moreover have "get_law bench m_vars" using variable_store_bench by (simp add: variable_store_def)
  ultimately have "read_nvram_decoder_status_validated bench v"
    using selftest_status_read [OF status_store_a1990 _ run, of bench m_vars v] r by simp
  then show ?thesis using \<open>m_vars v = pm_nv w'\<close> run by (auto simp flip: w0_def)
qed

section \<open>From a memory error to macOS, by rows\<close>

text \<open>A recorded row as it is saved in \<^verbatim>\<open>BrrBadRows\<close>.\<close>

definition saved_row :: "bad_row \<Rightarrow> badmem_row" where
  "saved_row r = \<lparr>row_channel = br_ch r, row_rank = br_rank r, row_bank_group = br_bg r, row_bank = br_bank r,
     row_row = br_row r\<rparr>"

text \<open>Every page of the installed memory is among the first 2048 of the row its address decodes to.\<close>

lemma logged_page_of_row:
  assumes "mc_wf mc" "page_aligned p" "p < config_total_memory mc"
    and "unat (config_total_memory mc) \<le> 512 * 2 ^ (18 + config_row_bits (Some mc))"
  shows "p \<in> set (take ROW_ENUM_CAP (pages_of_row mc
    (saved_row (decoded_row (config_decode_pa mc (config_row_bits (Some mc)) p)))))"
proof -
  let ?r = "saved_row (decoded_row (config_decode_pa mc (config_row_bits (Some mc)) p))"
  have "length (pages_of_row mc ?r) \<le> ROW_ENUM_CAP"
    using length_row_pages [OF assms(1,4)] by (simp add: pages_of_row_def ROW_ENUM_CAP_def)
  moreover have "p \<in> set (pages_of_row mc ?r)"
    using assms(2,3)
    by (simp add: pages_of_row_def set_row_pages row_hit_def saved_row_def decoded_row_def config_decode_pa_fields(1,2))
  ultimately show ?thesis by simp
qed

lemma error_rows_masked:
  assumes "page_reserver fw free resv" "get_law fw vars" "alloc_frame fw view"
    and "pass_ready hw mc s" "ps_log s = report_errors errors"
    and "(addr, x) \<in> set errors" "addr < config_total_memory mc" "length (log_pages (ps_log s)) < MAX_ENTRIES"
    and "length (recorded_rows hw profiles product s) < MAX_BAD_ROWS"
    and "unat (config_total_memory mc) \<le> 512 * 2 ^ (18 + config_row_bits (Some mc))"
    and "rows = map saved_row (recorded_rows hw profiles product s)"
    and "vars w (BRR_GUID, VARNAME_BADROWS) = Some (rows_blob rows)"
    and "vars w (BRR_GUID, VARNAME_DECODER_STATUS) = Some (status_text BRR_DECODER_VALIDATED)"
    and "\<not> no_mask_requested fw img w" "state_of (vars w) \<noteq> Unconfirmed"
    and "shim_cfl_init shw sst = (True, sst')" "g_mc sst' = shim_view mc"
  shows "\<exists>w'. mask_step fw shw boards img sst w = Some (Some (Row_Mode rows), sst', w') \<and>
    (addr AND PAGE_MASK \<in> free w \<longrightarrow> addr AND PAGE_MASK \<in> resv w') \<and> view w' = view w"
proof -
  define p where "p = addr AND PAGE_MASK"
  define r where "r = decoded_row (config_decode_pa mc (config_row_bits (Some mc)) p)"
  have wf: "mc_wf mc" using assms(4) by (simp add: pass_ready_def imc_ready_def)
  have p: "page_aligned p" "p < config_total_memory mc"
    using assms(7) page_mask_le [of addr] by (simp_all add: p_def)
  have r: "saved_row r \<in> set rows"
    using recorded_row_of_error [OF assms(4,5,6,8,9)] by (simp add: assms(11) r_def p_def)
  then have ne: "rows \<noteq> []" by auto
  have rows: "read_nvram_badrows fw BADMEM_MAX_ROWS w = rows"
    using badrows_saved [OF assms(2,12)] assms(9) by (simp add: assms(11) BADMEM_MAX_ROWS_def MAX_BAD_ROWS_def)
  have status: "read_nvram_decoder_status_validated fw w"
    using status_read(1) [OF assms(2,13)] by simp
  have total: "0 < config_total_memory mc" using p(2) word_not_simps(1) by (metis not_gr_zero word_gt_0)
  from row_mode_reserves [OF assms(1,2,3,14,15) status rows ne assms(16,17) wf total] obtain w'
    where "mask_step fw shw boards img sst w = Some (Some (Row_Mode rows), sst', w')"
      and "resv w' = resv w \<union> (free w \<inter> (\<Union>r \<in> set rows. set (take ROW_ENUM_CAP (pages_of_row mc r))))"
      and "view w' = view w"
    by blast
  moreover have "p \<in> (\<Union>r \<in> set rows. set (take ROW_ENUM_CAP (pages_of_row mc r)))"
    using logged_page_of_row [OF wf p assms(10)] r by (auto simp: r_def)
  ultimately show ?thesis by (auto simp: p_def)
qed


text \<open>A machine with one error, its row saved and macOS on the internal volume.\<close>

definition one_error :: "(u64 \<times> u64) list" where "one_error = [(0x80040, 1)]"

definition row_of_error :: bad_row where
  "row_of_error = decoded_row (config_decode_pa a1990_mc 17 0x80000)"

definition row_saved :: machine where
  "row_saved = blank_machine\<lparr>m_free := [0x80000, 0x1000000],
     m_nv := [((BRR_GUID, VARNAME_BADROWS), rows_blob [saved_row row_of_error]),
       ((BRR_GUID, VARNAME_DECODER_STATUS), status_text BRR_DECODER_VALIDATED)],
     m_files := [((2, MACOS_ALT_PATHS ! 0), [1, 2, 3])]\<rparr>"

lemma one_error_log: "ps_log (a1990_pass [0x80000]) = report_errors one_error"
  by (simp add: a1990_pass_def report_errors_def one_error_def board_report_error_def badmem_log_record_def
      empty_log_def PAGE_MASK_def PAGE_SIZE_def MAX_ENTRIES_def)

lemma one_error_rows: "recorded_rows (a1990_hw 0x410) [] None (a1990_pass [0x80000]) = [row_of_error]"
proof -
  have "row_log (ps_log (a1990_pass [0x80000])) = []" by (simp add: one_error_log report_errors_row_log)
  from decode_pass_rows [OF a1990_pass_ready this, of "[]" None] show ?thesis
    by (simp add: recorded_rows_def row_of_error_def a1990_pass_def empty_log_def a1990_row_bits
        first_occurrences_def MAX_BAD_ROWS_def)
qed


section \<open>From a memory error to macOS, by chips\<close>

text \<open>The page of an error is among those of the chips the pass has recorded for it.\<close>

lemma error_chips_masked:
  assumes "page_reserver fw free resv" "get_law fw vars" "alloc_frame fw view"
    and "pass_ready hw mc s" "ps_log s = report_errors errors"
    and "(addr, x) \<in> set errors" "addr < config_total_memory mc" "length (log_pages (ps_log s)) < MAX_ENTRIES"
    and "board_detect profiles product = Some p" "p \<in> set boards" "board_named p" "distinct_names boards"
    and "d = config_decode_pa mc (config_row_bits (Some mc)) (addr AND PAGE_MASK)" "lane < 8"
    and "board_lookup (Some p) (d_channel d) (d_rank d) (of_nat lane) = Some k"
    and "log = recorded_chips hw profiles product s" "names_room log" "length (names_of log) \<le> BADMEM_MAX_CHIPS"
    and "vars w (BRR_GUID, BRR_VARNAME_BADCHIPS) = Some (chip_buf log)"
    and "vars w (BRR_GUID, VARNAME_DECODER_STATUS) = Some (status_text BRR_DECODER_FAILED)"
    and "\<not> no_mask_requested fw img w" "state_of (vars w) \<noteq> Unconfirmed"
    and "shim_cfl_init shw sst = (True, sst')" "g_mc sst' = shim_view mc"
    and "chips = map (resolve_chip boards) (map new_chip (names_of log))"
  shows "\<exists>w'. mask_step fw shw boards img sst w = Some (Some (Chip_Mode chips), sst', w') \<and>
    (addr AND PAGE_MASK \<in> free w \<longrightarrow> addr AND PAGE_MASK \<in> resv w') \<and> view w' = view w"
proof -
  define page where "page = addr AND PAGE_MASK"
  have wf: "mc_wf mc" using assms(4) by (simp add: pass_ready_def imc_ready_def)
  have page: "page_aligned page" "page < config_total_memory mc"
    using assms(7) page_mask_le [of addr] by (simp_all add: page_def)
  note rec = recorded_chip_of_error [OF assms(4,5,6,8,9,11) assms(17) [unfolded assms(16)] assms(13),
      folded assms(16)]
  have name: "cstr (bp_designator k) \<in> set (names_of log)" by (rule rec(2) [OF assms(14,15)])
  have read: "read_nvram_badchips fw BADMEM_MAX_CHIPS w = map new_chip (names_of log)"
    by (rule badchips_saved [OF assms(2,19) rec(1) assms(18)])
  have "resolve_chip boards (new_chip (cstr (bp_designator k))) \<in> set chips"
    using name by (simp add: assms(25))
  then have on: "list_ex (on_chip mc page) chips"
    unfolding package_resolved [OF assms(12,10,15)] list_ex_iff
    by (rule bexI [rotated]) (simp add: on_chip_def assms(13) page_def)
  then have resolved: "list_ex bc_resolved chips" by (auto simp: list_ex_iff on_chip_def Let_def)
  have status: "\<not> read_nvram_decoder_status_validated fw w" "read_nvram_decoder_status_failed fw w"
    using status_read [OF assms(2,20)] by simp_all
  have total: "0 < config_total_memory mc" using page(2) by (metis not_gr_zero word_gt_0 word_not_simps(1))
  from chip_mode_reserves [OF assms(1-3,21,22) status read assms(25) resolved assms(23,24) wf total]
  obtain w' where "mask_step fw shw boards img sst w = Some (Some (Chip_Mode chips), sst', w')"
    "resv w' = resv w \<union> (free w \<inter> chip_pages mc chips)" "view w' = view w"
    by blast
  moreover have "page \<in> chip_pages mc chips" using page on by (simp add: chip_pages_def)
  ultimately show ?thesis by (auto simp: page_def)
qed


text \<open>The machine with one error again, its chip saved instead of its row.\<close>

definition macbook :: "u8 list option" where "macbook = Some (str ''MacBookPro15,1'' @ [0])"

definition chip_saved :: machine where
  "chip_saved = blank_machine\<lparr>m_free := [0x80000, 0x1000000],
     m_nv := [((BRR_GUID, BRR_VARNAME_BADCHIPS), str ''U2300''),
       ((BRR_GUID, VARNAME_DECODER_STATUS), status_text BRR_DECODER_FAILED)],
     m_files := [((2, MACOS_ALT_PATHS ! 0), [1, 2, 3])]\<rparr>"

lemma one_error_chips:
  "chip_buf (recorded_chips (a1990_hw 0x410) [Some two_chip_board] macbook (a1990_pass [0x80000])) = str ''U2300''"
  by code_simp

lemma two_chip_facts:
  "board_detect [Some two_chip_board] macbook = Some two_chip_board" "board_named two_chip_board"
  "distinct_names [two_chip_board]"
  "board_lookup (Some two_chip_board) (d_channel (config_decode_pa a1990_mc 17 0x80000))
     (d_rank (config_decode_pa a1990_mc 17 0x80000)) (of_nat 0) = Some (bf_packages two_chip_board ! 0)"
proof -
  show "board_detect [Some two_chip_board] macbook = Some two_chip_board" by code_simp
  show "board_named two_chip_board"
    by (simp add: board_named_def packages_of_def two_chip_board_def chip_name_def COMMA_def BADMEM_DESIG_MAX_def
        cstr_simps)
  show "distinct_names [two_chip_board]" by code_simp
  show "board_lookup (Some two_chip_board) (d_channel (config_decode_pa a1990_mc 17 0x80000))
     (d_rank (config_decode_pa a1990_mc 17 0x80000)) (of_nat 0) = Some (bf_packages two_chip_board ! 0)"
    by code_simp
qed


end
